(* ===== verification/Prelude.thy ===== *)
theory Prelude
  imports Main "HOL-Library.Word"
begin

text \<open>
  Shared vocabulary of the development: the failure values of the Rust code, the
  build-time and run-time configuration, fixed-width arithmetic, and the generic lemmas
  on lists and words the components use.
\<close>

unbundle bit_operations_syntax

named_theorems res_simps \<open>how the failure monad evaluates\<close>
named_theorems arith_w \<open>fixed-width arithmetic in range\<close>

subsection \<open>Panics\<close>

text \<open>
  A Rust panic ends the operation. Each constructor names one source of panics (or, for
  \<open>Undefined\<close>, an \<open>unsafe\<close> access whose precondition does not hold).
\<close>

datatype panic =
    Overflow
  | Unwrap_None
  | Out_Of_Range
  | Divide_By_Zero
  | Assertion string
  | Explicit string
  | Todo
  | Diverges
  | Unreachable
  | Undefined

type_synonym 'a res = "panic + 'a"

definition andthen :: "'e + 'a \<Rightarrow> ('a \<Rightarrow> 'e + 'b) \<Rightarrow> 'e + 'b" where
  "andthen m f = (case m of Inl e \<Rightarrow> Inl e | Inr x \<Rightarrow> f x)"

lemma andthen_simps [simp, res_simps]:
  "andthen (Inl e) f = Inl e"
  "andthen (Inr x) f = f x"
  by (simp_all add: andthen_def)

lemma andthen_Inr_conv: "andthen m f = Inr y \<longleftrightarrow> (\<exists>x. m = Inr x \<and> f x = Inr y)"
  by (cases m) simp_all

lemma andthen_assoc: "andthen (andthen m f) g = andthen m (\<lambda>x. andthen (f x) g)"
  by (cases m) simp_all

definition require :: "bool \<Rightarrow> panic \<Rightarrow> unit res" where
  "require b e = (if b then Inr () else Inl e)"

lemma require_simps [simp, res_simps]:
  "require True e = Inr ()"
  "require False e = Inl e"
  by (simp_all add: require_def)

lemma require_Inr [simp]: "require b e = Inr u \<longleftrightarrow> b"
  by (simp add: require_def)

definition unwrap :: "'a option \<Rightarrow> 'a res" where
  "unwrap x = (case x of None \<Rightarrow> Inl Unwrap_None | Some v \<Rightarrow> Inr v)"

lemma unwrap_simps [simp, res_simps]:
  "unwrap None = Inl Unwrap_None"
  "unwrap (Some v) = Inr v"
  by (simp_all add: unwrap_def)

lemma unwrap_Inr [simp]: "unwrap x = Inr v \<longleftrightarrow> x = Some v"
  by (cases x) simp_all

text \<open>A loop that may not end, as a computation: \<open>None\<close> is not returning.\<close>

definition finish :: "'a option \<Rightarrow> 'a res" where
  "finish x = (case x of None \<Rightarrow> Inl Diverges | Some v \<Rightarrow> Inr v)"

lemma finish_simps [simp]: "finish (Some v) = Inr v" "finish None = Inl Diverges"
  by (simp_all add: finish_def)

lemma finish_Inr [simp]: "finish x = Inr v \<longleftrightarrow> x = Some v"
  by (cases x) simp_all

subsection \<open>Configuration\<close>

text \<open>
  What the code takes from cargo features, the build profile and the three process-wide
  tunables of \<open>lib.rs\<close>. \<open>validate\<close> stands for
  \<open>cfg!(any(feature = "validate", debug_assertions))\<close>, which guards the
  \<open>validate!\<close> and \<open>validate_eq!\<close> macros; \<open>debug_assertions\<close> guards
  \<open>debug_assert!\<close>; \<open>overflow_checks\<close> for the profile's
  integer overflow checks (a panic when set, wrap-around when not).
\<close>

record config =
  validate :: bool
  debug_assertions :: bool
  overflow_checks :: bool
  recover_log :: bool
  recover_cas :: bool
  count_cache_slab :: nat
  batch_global_push :: nat
  batch_bump_pop :: nat

text \<open>A configuration for concrete instances: every check on, the defaults of \<open>lib.rs\<close>.\<close>

definition cfg_debug :: config where
  "cfg_debug = \<lparr>validate = True, debug_assertions = True, overflow_checks = True, recover_log = True, recover_cas = True,
     count_cache_slab = 0, batch_global_push = 1, batch_bump_pop = 1\<rparr>"

definition SIZE_CACHE_LINE :: nat where "SIZE_CACHE_LINE = 64"
definition SIZE_PAGE :: nat where "SIZE_PAGE = 4096"
definition COUNT_THREAD :: nat where "COUNT_THREAD = 512"

definition validate_that :: "config \<Rightarrow> bool \<Rightarrow> string \<Rightarrow> unit res" where
  "validate_that cfg b msg = require (\<not> validate cfg \<or> b) (Assertion msg)"

lemma validate_that_Inr [simp]: "validate_that cfg b msg = Inr u \<longleftrightarrow> (validate cfg \<longrightarrow> b)"
  by (auto simp: validate_that_def)

lemma validate_that_True [simp, res_simps]: "validate_that cfg True msg = Inr ()"
  by (simp add: validate_that_def)

definition debug_assert :: "config \<Rightarrow> bool \<Rightarrow> string \<Rightarrow> unit res" where
  "debug_assert cfg b msg = require (\<not> debug_assertions cfg \<or> b) (Assertion msg)"

lemma debug_assert_Inr [simp]: "debug_assert cfg b msg = Inr u \<longleftrightarrow> (debug_assertions cfg \<longrightarrow> b)"
  by (auto simp: debug_assert_def)

lemma debug_assert_True [simp, res_simps]: "debug_assert cfg True msg = Inr ()"
  by (simp add: debug_assert_def)

subsection \<open>Fixed-width arithmetic\<close>

text \<open>
  Values of a width that cannot be exceeded in the theorems' range are naturals; every
  operation that could leave the range names its width and takes the profile's overflow
  behaviour from the configuration.
\<close>

definition add_w :: "config \<Rightarrow> nat \<Rightarrow> nat \<Rightarrow> nat \<Rightarrow> nat res" where
  "add_w cfg w a b =
     (if a + b < 2 ^ w then Inr (a + b)
      else if overflow_checks cfg then Inl Overflow else Inr ((a + b) mod 2 ^ w))"

definition sub_w :: "config \<Rightarrow> nat \<Rightarrow> nat \<Rightarrow> nat \<Rightarrow> nat res" where
  "sub_w cfg w a b =
     (if b \<le> a then Inr (a - b)
      else if overflow_checks cfg then Inl Overflow else Inr ((a + 2 ^ w - b) mod 2 ^ w))"

lemma add_w_in_range [arith_w]: "a + b < 2 ^ w \<Longrightarrow> add_w cfg w a b = Inr (a + b)"
  by (simp add: add_w_def)

lemma sub_w_in_range [arith_w]: "b \<le> a \<Longrightarrow> sub_w cfg w a b = Inr (a - b)"
  by (simp add: sub_w_def)

definition checked_add_w :: "nat \<Rightarrow> nat \<Rightarrow> nat \<Rightarrow> nat option" where
  "checked_add_w w a b = (if a + b < 2 ^ w then Some (a + b) else None)"

definition checked_sub :: "nat \<Rightarrow> nat \<Rightarrow> nat option" where
  "checked_sub a b = (if b \<le> a then Some (a - b) else None)"

lemma checked_add_w_Some [simp]: "checked_add_w w a b = Some c \<longleftrightarrow> c = a + b \<and> a + b < 2 ^ w"
  by (auto simp: checked_add_w_def)

lemma checked_sub_Some [simp]: "checked_sub a b = Some c \<longleftrightarrow> b \<le> a \<and> c = a - b"
  by (auto simp: checked_sub_def)

definition inc_word :: "config \<Rightarrow> 'a::len word \<Rightarrow> 'a word res" where
  "inc_word cfg w = (if overflow_checks cfg \<and> w = -1 then Inl Overflow else Inr (w + 1))"

definition dec_word :: "config \<Rightarrow> 'a::len word \<Rightarrow> 'a word res" where
  "dec_word cfg w = (if overflow_checks cfg \<and> w = 0 then Inl Overflow else Inr (w - 1))"

lemma inc_word_in_range [arith_w]: "w \<noteq> -1 \<Longrightarrow> inc_word cfg w = Inr (w + 1)"
  by (simp add: inc_word_def)

lemma dec_word_in_range [arith_w]: "w \<noteq> 0 \<Longrightarrow> dec_word cfg w = Inr (w - 1)"
  by (simp add: dec_word_def)

definition next_multiple_of :: "nat \<Rightarrow> nat \<Rightarrow> nat" where
  "next_multiple_of n m = (n + m - 1) div m * m"

text \<open>The standard library's \<open>usize::next_multiple_of\<close>, which can leave the range.\<close>

definition next_multiple_of_w :: "config \<Rightarrow> nat \<Rightarrow> nat \<Rightarrow> nat res" where
  "next_multiple_of_w cfg n m = (let r = n mod m in if r = 0 then Inr n else add_w cfg 64 n (m - r))"

text \<open>Rounding with the mask of a power of two, as \<open>(value + (a - 1)) & !(a - 1)\<close>.\<close>

definition is_power_of_two :: "nat \<Rightarrow> bool" where
  "is_power_of_two a \<longleftrightarrow> (\<exists>k\<in>set [0..<64]. a = 2 ^ k)"

definition clear_low :: "nat \<Rightarrow> nat \<Rightarrow> nat" where
  "clear_low v a = unat (of_nat v AND NOT (of_nat (a - 1)) :: 64 word)"

lemma clear_low_pow2:
  assumes "v < 2 ^ 64" and "k < 64"
  shows "clear_low v (2 ^ k) = v div 2 ^ k * 2 ^ k"
proof -
  define w where "w = (of_nat v :: 64 word)"
  have v: "unat w = v" using assms(1) by (simp add: w_def unat_of_nat)
  have "of_nat (2 ^ k - 1) = (mask k :: 64 word)" by (simp add: mask_eq_exp_minus_1 of_nat_diff)
  then have "clear_low v (2 ^ k) = unat (w AND NOT (mask k))" by (simp add: clear_low_def w_def)
  also have "w AND NOT (mask k) = push_bit k (drop_bit k w)"
    by (intro bit_word_eqI) (auto simp: bit_simps)
  also have "\<dots> = w - take_bit k w" using bits_ident [of k w] by (metis add_diff_cancel_right')
  also have "unat \<dots> = unat w - unat (take_bit k w)"
    by (rule unat_sub) (simp add: word_le_nat_alt unsigned_take_bit_eq take_bit_nat_less_eq_self)
  also have "\<dots> = v - v mod 2 ^ k" unfolding unsigned_take_bit_eq v by (simp add: take_bit_eq_mod)
  finally show ?thesis by (simp add: minus_mod_eq_div_mult)
qed

lemma next_multiple_of_dvd [simp]: "m dvd next_multiple_of n m"
  by (simp add: next_multiple_of_def)

lemma next_multiple_of_ge:
  assumes "0 < m"
  shows "n \<le> next_multiple_of n m"
proof -
  have eq: "(n + m - 1) div m * m + (n + m - 1) mod m = n + m - 1"
    by (rule div_mult_mod_eq)
  have "(n + m - 1) mod m < m" using assms by simp
  with eq assms show ?thesis unfolding next_multiple_of_def by linarith
qed

lemma next_multiple_of_less:
  assumes "0 < m"
  shows "next_multiple_of n m < n + m"
proof -
  have "(n + m - 1) div m * m \<le> n + m - 1" by simp
  with assms show ?thesis unfolding next_multiple_of_def by linarith
qed

lemma next_multiple_of_least:
  assumes "0 < m" and "n \<le> k" and "m dvd k"
  shows "next_multiple_of n m \<le> k"
proof -
  from assms(3) obtain q where k: "k = q * m" by (metis dvd_def mult.commute)
  have "(n + m - 1) div m \<le> (q * m + (m - 1)) div m"
    using assms k by (intro div_le_mono) simp
  also have "\<dots> = q"
    using assms(1) by (simp only: div_mult_self3 div_less)
  finally show ?thesis by (simp add: next_multiple_of_def k)
qed

lemma next_multiple_of_w_ok:
  assumes "0 < m" "next_multiple_of n m < 2 ^ 64"
  shows "next_multiple_of_w cfg n m = Inr (next_multiple_of n m)"
proof -
  have n: "n div m * m + n mod m = n" by simp
  have lt: "n mod m < m" using assms(1) by simp
  show ?thesis
  proof (cases "n mod m = 0")
    case True
    then have "next_multiple_of n m = n"
      using next_multiple_of_ge [of m n] next_multiple_of_least [of m n n] assms(1) by (simp add: dvd_eq_mod_eq_0)
    then show ?thesis using True by (simp add: next_multiple_of_w_def)
  next
    case False
    have "n + m - 1 = (r - 1) + (q + 1) * m" if "q * m + r = n" "r \<noteq> 0" for q r
      using that by (cases r) auto
    from this [OF n False] have "n + m - 1 = (n mod m - 1) + (n div m + 1) * m" .
    moreover have "(n mod m - 1) div m = 0" using lt by (intro div_less) linarith
    ultimately have "(n + m - 1) div m = n div m + 1" using assms(1) by (simp only: div_mult_self1)
    then have "next_multiple_of n m = n div m * m + m" by (simp add: next_multiple_of_def)
    then have "next_multiple_of n m = n + (m - n mod m)" using n lt by linarith
    then show ?thesis using False assms(2) by (simp add: next_multiple_of_w_def Let_def add_w_in_range)
  qed
qed

subsection \<open>Bit counting on words\<close>

definition count_ones :: "'a::len word \<Rightarrow> nat" where
  "count_ones w = length (filter (bit w) [0..<LENGTH('a)])"

definition trailing_zeros :: "'a::len word \<Rightarrow> nat" where
  "trailing_zeros w = length (takeWhile (\<lambda>i. \<not> bit w i) [0..<LENGTH('a)])"

lemma count_ones_card: "count_ones w = card {i. bit w i}" for w :: "'a::len word"
proof -
  have "count_ones w = card (set (filter (bit w) [0..<LENGTH('a)]))"
    unfolding count_ones_def by (subst distinct_card) auto
  also have "set (filter (bit w) [0..<LENGTH('a)]) = {i. bit w i}"
    by (auto dest: bit_imp_le_length)
  finally show ?thesis .
qed

lemma finite_bits [simp]: "finite {i. bit w i}" for w :: "'a::len word"
  by (rule finite_subset [of _ "{0..<LENGTH('a)}"]) (auto dest: bit_imp_le_length)

lemma word_bits_empty: "{i. bit w i} = {} \<longleftrightarrow> w = 0" for w :: "'a::len word"
  by (auto intro: bit_word_eqI)

lemma count_ones_0 [simp]: "count_ones w = 0 \<longleftrightarrow> w = 0" for w :: "'a::len word"
  using word_bits_empty [of w] by (simp add: count_ones_card)

lemma length_takeWhile_upt:
  "length (takeWhile P [0..<n]) \<le> n \<and> (\<forall>j < length (takeWhile P [0..<n]). P j) \<and>
   (length (takeWhile P [0..<n]) < n \<longrightarrow> \<not> P (length (takeWhile P [0..<n])))"
proof (intro conjI allI impI)
  let ?k = "length (takeWhile P [0..<n])"
  show le: "?k \<le> n" using length_takeWhile_le [of P "[0..<n]"] by simp
  show "P j" if "j < ?k" for j
  proof -
    have "takeWhile P [0..<n] ! j = [0..<n] ! j" using that by (rule takeWhile_nth)
    with that le have "takeWhile P [0..<n] ! j = j" by simp
    moreover have "takeWhile P [0..<n] ! j \<in> set (takeWhile P [0..<n])" using that by simp
    ultimately show ?thesis by (auto dest: set_takeWhileD)
  qed
  show "\<not> P ?k" if "?k < n"
    using that nth_length_takeWhile [of P "[0..<n]"] by simp
qed

lemma trailing_zeros_below: "j < trailing_zeros w \<Longrightarrow> \<not> bit w j" for w :: "'a::len word"
  using length_takeWhile_upt [of "\<lambda>i. \<not> bit w i" "LENGTH('a)"]
  by (auto simp: trailing_zeros_def)

lemma trailing_zeros_le: "trailing_zeros w \<le> LENGTH('a)" for w :: "'a::len word"
  using length_takeWhile_upt [of "\<lambda>i. \<not> bit w i" "LENGTH('a)"]
  by (auto simp: trailing_zeros_def)

lemma trailing_zeros_bit:
  fixes w :: "'a::len word"
  assumes "w \<noteq> 0"
  shows "bit w (trailing_zeros w)" and "trailing_zeros w < LENGTH('a)"
proof -
  show lt: "trailing_zeros w < LENGTH('a)"
  proof (rule ccontr)
    assume "\<not> ?thesis"
    then have "trailing_zeros w = LENGTH('a)" using trailing_zeros_le [of w] by simp
    then have "\<And>i. i < LENGTH('a) \<Longrightarrow> \<not> bit w i" using trailing_zeros_below [of _ w] by simp
    then have "w = 0" by (intro bit_word_eqI) simp
    with assms show False by simp
  qed
  then show "bit w (trailing_zeros w)"
    using length_takeWhile_upt [of "\<lambda>i. \<not> bit w i" "LENGTH('a)"]
    by (auto simp: trailing_zeros_def)
qed

lemma trailing_zeros_eqI:
  assumes "bit w k" and "\<And>j. j < k \<Longrightarrow> \<not> bit w j"
  shows "trailing_zeros w = k"
proof -
  from assms(1) have "w \<noteq> 0" by auto
  then have "bit w (trailing_zeros w)" by (rule trailing_zeros_bit)
  with assms(2) have "k \<le> trailing_zeros w" using not_less by blast
  moreover have "trailing_zeros w \<le> k" using assms(1) trailing_zeros_below not_less by blast
  ultimately show ?thesis by simp
qed

lemma bit_1_word: "bit (1 :: 'a::len word) i \<longleftrightarrow> i = 0"
  by (auto simp: bit_1_iff)

lemma bit_shifted_one [simp]:
  "bit (2 ^ k :: 'a::len word) i \<longleftrightarrow> i = k \<and> k < LENGTH('a)"
  by (auto simp: bit_exp_iff)

lemma bit_or_word [simp]: "bit (a OR b :: 'a::len word) i \<longleftrightarrow> bit a i \<or> bit b i"
  by (rule bit_or_iff)

lemma bit_and_word [simp]: "bit (a AND b :: 'a::len word) i \<longleftrightarrow> bit a i \<and> bit b i"
  by (rule bit_and_iff)

lemma bit_not_word [simp]: "bit (NOT a :: 'a::len word) i \<longleftrightarrow> i < LENGTH('a) \<and> \<not> bit a i"
  by (simp add: bit_not_iff)

lemma bits_insert:
  "k < LENGTH('a) \<Longrightarrow> {i. bit (w OR push_bit k 1) i} = insert k {i. bit w i}"
  for w :: "'a::len word"
  by auto

lemma bits_remove:
  "{i. bit (w AND NOT (push_bit k 1)) i} = {i. bit w i} - {k}" for w :: "'a::len word"
  by (auto dest: bit_imp_le_length)

subsection \<open>Repeating an operation\<close>

primrec repeat_op :: "('s \<Rightarrow> ('a \<times> 's) res) \<Rightarrow> nat \<Rightarrow> 's \<Rightarrow> ('a list \<times> 's) res" where
  "repeat_op f 0 s = Inr ([], s)"
| "repeat_op f (Suc n) s =
     andthen (f s) (\<lambda>(x, s1). andthen (repeat_op f n s1) (\<lambda>(xs, s2). Inr (x # xs, s2)))"

subsection \<open>Lists\<close>

text \<open>The search of Rust's iterators: the index of the first element that satisfies the predicate.\<close>

fun position :: "('a \<Rightarrow> bool) \<Rightarrow> 'a list \<Rightarrow> nat option" where
  "position P [] = None"
| "position P (x # xs) = (if P x then Some 0 else map_option Suc (position P xs))"

lemma position_Some:
  "position P xs = Some i \<longleftrightarrow> i < length xs \<and> P (xs ! i) \<and> (\<forall>j<i. \<not> P (xs ! j))"
proof (induction xs arbitrary: i)
  case (Cons x xs)
  show ?case using Cons.IH [of "i - 1"] by (cases i) (auto simp: nth_Cons' split: if_splits)
qed simp

lemma position_None: "position P xs = None \<longleftrightarrow> (\<forall>x\<in>set xs. \<not> P x)"
  by (induction xs) auto

lemma sum_list_update_nat:
  "k < length xs \<Longrightarrow> sum_list (xs[k := y]) + xs ! k = sum_list xs + (y :: nat)"
  by (induction xs arbitrary: k) (auto split: nat.splits)

end
