(* ===== verification/Bitset.thy ===== *)
theory Bitset
  imports Prelude
begin

text \<open>
  The two-level free bitset of a slab (\<open>cxlalloc/src/bitset.rs\<close>): \<open>dense\<close> holds one
  bit per block in rows of 64, \<open>sparse\<close> one bit per non-empty row, \<open>count\<close> the
  number of set bits. The abstraction \<open>bits\<close> is the set of block numbers; the lemmas
  show that each operation is the expected operation on that set, that the consistency the
  code checks in \<open>validate\<close> is an invariant, and where \<open>unset\<close> depends on being
  given the first set bit.
\<close>

subsection \<open>Bit addresses\<close>

datatype bit_addr = Bit (row: "6 word") (col: "6 word")

definition from_loose :: "16 word \<Rightarrow> bit_addr res" where
  "from_loose b =
     (let r = unat (drop_bit 6 b) mod 2 ^ 8 in
      if r < 64 then Inr (Bit (of_nat r) (of_nat (unat (b AND 63))))
      else Inl (Assertion ''u6''))"

definition bit_to_u64 :: "bit_addr \<Rightarrow> 64 word" where
  "bit_to_u64 b = of_nat (unat (col b)) OR push_bit 6 (of_nat (unat (row b)))"

definition bit_index :: "bit_addr \<Rightarrow> nat" where
  "bit_index b = unat (row b) * 64 + unat (col b)"

subsection \<open>The bitset\<close>

record bitset =
  bs_count :: "64 word"
  bs_sparse :: "64 word"
  bs_dense :: "64 word list"

definition bs_new :: "nat \<Rightarrow> bitset" where
  "bs_new rows = \<lparr>bs_count = 0, bs_sparse = 0, bs_dense = replicate rows 0\<rparr>"

definition dense_ones :: "64 word list \<Rightarrow> nat" where
  "dense_ones d = sum_list (map count_ones d)"

definition bs_consistent :: "bitset \<Rightarrow> bool" where
  "bs_consistent s \<longleftrightarrow>
     length (bs_dense s) \<le> 64 \<and>
     of_nat (dense_ones (bs_dense s)) = bs_count s \<and>
     (\<forall>r \<in> set [0..<length (bs_dense s)]. bit (bs_sparse s) r \<longleftrightarrow> bs_dense s ! r \<noteq> 0) \<and>
     (\<forall>r \<in> set [length (bs_dense s)..<64]. \<not> bit (bs_sparse s) r)"

definition bs_validate :: "config \<Rightarrow> bitset \<Rightarrow> unit res" where
  "bs_validate cfg s = validate_that cfg (bs_consistent s) ''bitset''"

text \<open>The three loops of \<open>fill\<close>, in the order the code runs them.\<close>

function fill_full :: "64 word list \<Rightarrow> nat \<Rightarrow> nat \<Rightarrow> (64 word list \<times> nat) res" where
  "fill_full d i rows =
     (if i < rows
      then (if i < length d then fill_full (d[i := -1]) (i + 1) rows else Inl Out_Of_Range)
      else Inr (d, i))"
  by pat_completeness auto
termination
  by (relation "measure (\<lambda>(d, i, rows). rows - i)") auto

function fill_zero :: "64 word list \<Rightarrow> nat \<Rightarrow> 64 word list" where
  "fill_zero d j = (if j < length d then fill_zero (d[j := 0]) (j + 1) else d)"
  by pat_completeness auto
termination
  by (relation "measure (\<lambda>(d, j). length d - j)") auto

declare fill_full.simps [simp del] fill_zero.simps [simp del]

definition bs_fill :: "nat \<Rightarrow> bitset \<Rightarrow> bitset res" where
  "bs_fill n s =
     (let rows = n div 64; cols = n mod 64 in
      andthen (fill_full (bs_dense s) 0 rows) (\<lambda>(d, i).
      let sparse = (if rows < 64 then push_bit rows 1 - 1 else -1) in
      andthen
        (if cols = 0 then Inr (d, sparse, 0)
         else andthen (require (rows < length d) Out_Of_Range) (\<lambda>_.
           Inr (d[rows := push_bit cols 1 - 1], sparse OR push_bit rows 1, 1)))
        (\<lambda>(d, sparse, skip).
         Inr \<lparr>bs_count = of_nat n, bs_sparse = sparse, bs_dense = fill_zero d (i + skip)\<rparr>)))"

definition bs_peek_unchecked :: "bitset \<Rightarrow> bit_addr res" where
  "bs_peek_unchecked s =
     (let r = trailing_zeros (bs_sparse s) in
      andthen (require (r < length (bs_dense s)) Undefined) (\<lambda>_.
      let c = trailing_zeros (bs_dense s ! r) in
      andthen (require (r < 64 \<and> c < 64) (Assertion ''u6'')) (\<lambda>_.
      Inr (Bit (of_nat r) (of_nat c)))))"

definition bs_set :: "config \<Rightarrow> bit_addr \<Rightarrow> bitset \<Rightarrow> bitset res" where
  "bs_set cfg b s =
     (let r = unat (row b); c = unat (col b) in
      andthen (require (r < length (bs_dense s)) Undefined) (\<lambda>_.
      let cols = bs_dense s ! r in
      andthen (validate_that cfg (cols AND push_bit c 1 = 0) ''Double free'') (\<lambda>_.
      andthen (inc_word cfg (bs_count s)) (\<lambda>count.
      let s' = s\<lparr>bs_dense := (bs_dense s)[r := cols OR push_bit c 1],
                 bs_count := count,
                 bs_sparse := bs_sparse s OR push_bit r 1\<rparr> in
      andthen (bs_validate cfg s') (\<lambda>_. Inr s')))))"

text \<open>
  Rust's unary \<open>!\<close> binds tighter than \<open><<\<close>, so the mask of \<open>unset\<close> is
  \<open>(!((cols == 0) as u64)) << row\<close>: the complement is shifted, not the bit.
\<close>

definition bs_unset :: "config \<Rightarrow> bit_addr \<Rightarrow> bitset \<Rightarrow> bitset res" where
  "bs_unset cfg b s =
     (let r = unat (row b); c = unat (col b) in
      andthen (require (r < length (bs_dense s)) Undefined) (\<lambda>_.
      let cols = bs_dense s ! r in
      andthen (validate_that cfg (0 < cols AND push_bit c 1) ''Double allocate'') (\<lambda>_.
      let cols' = cols AND NOT (push_bit c 1) in
      andthen (dec_word cfg (bs_count s)) (\<lambda>count.
      let s' = s\<lparr>bs_dense := (bs_dense s)[r := cols'],
                 bs_count := count,
                 bs_sparse := bs_sparse s AND push_bit r (NOT (if cols' = 0 then 1 else 0))\<rparr> in
      andthen (bs_validate cfg s') (\<lambda>_. Inr s')))))"

definition bs_len :: "bitset \<Rightarrow> nat" where
  "bs_len s = unat (bs_count s)"

definition bs_is_empty :: "bitset \<Rightarrow> bool" where
  "bs_is_empty s \<longleftrightarrow> bs_len s = 0"

subsection \<open>The set of blocks\<close>

definition row_bits :: "64 word list \<Rightarrow> nat \<Rightarrow> nat set" where
  "row_bits d r = (\<lambda>c. r * 64 + c) ` {c. bit (d ! r) c}"

definition dense_bits :: "64 word list \<Rightarrow> nat set" where
  "dense_bits d = (\<Union>r < length d. row_bits d r)"

abbreviation bits :: "bitset \<Rightarrow> nat set" where
  "bits s \<equiv> dense_bits (bs_dense s)"

definition bs_inv :: "nat \<Rightarrow> bitset \<Rightarrow> bool" where
  "bs_inv rows s \<longleftrightarrow> length (bs_dense s) = rows \<and> bs_consistent s"

lemma bit_col_less: "bit (w :: 64 word) c \<Longrightarrow> c < 64"
  using bit_imp_le_length [of w c] by simp

lemma mem_dense_bits:
  "k \<in> dense_bits d \<longleftrightarrow> k div 64 < length d \<and> bit (d ! (k div 64)) (k mod 64)"
proof
  assume "k \<in> dense_bits d"
  then obtain r c where "r < length d" "bit (d ! r) c" "k = r * 64 + c"
    by (auto simp: dense_bits_def row_bits_def)
  moreover from this have "c < 64" by (simp add: bit_col_less)
  ultimately show "k div 64 < length d \<and> bit (d ! (k div 64)) (k mod 64)" by simp
next
  assume h: "k div 64 < length d \<and> bit (d ! (k div 64)) (k mod 64)"
  then have "k \<in> row_bits d (k div 64)"
    by (auto simp: row_bits_def intro!: image_eqI [of _ _ "k mod 64"])
  with h show "k \<in> dense_bits d" by (auto simp: dense_bits_def)
qed

lemma finite_row_bits [simp]: "finite (row_bits d r)"
  by (simp add: row_bits_def)

lemma card_row_bits: "card (row_bits d r) = count_ones (d ! r)"
  by (simp add: row_bits_def card_image inj_on_def count_ones_card)

lemma finite_dense_bits [simp]: "finite (dense_bits d)"
  by (simp add: dense_bits_def)

lemma row_bits_disjoint: "r \<noteq> r' \<Longrightarrow> row_bits d r \<inter> row_bits d r' = {}"
proof (rule ccontr)
  assume "r \<noteq> r'" and "row_bits d r \<inter> row_bits d r' \<noteq> {}"
  then obtain c c' where "r * 64 + c = r' * 64 + c'" and "c < 64" and "c' < 64"
    by (auto simp: row_bits_def dest!: bit_col_less)
  then have "r = r'" by arith
  with \<open>r \<noteq> r'\<close> show False by simp
qed

lemma card_dense_bits: "card (dense_bits d) = dense_ones d"
proof -
  have "card (dense_bits d) = (\<Sum>r < length d. card (row_bits d r))"
    unfolding dense_bits_def
    by (rule card_UN_disjoint) (auto simp: row_bits_disjoint)
  also have "\<dots> = (\<Sum>r < length d. count_ones (d ! r))"
    by (simp add: card_row_bits)
  also have "\<dots> = dense_ones d"
    by (simp add: dense_ones_def sum_list_sum_nth atLeast0LessThan)
  finally show ?thesis .
qed

lemma dense_bits_bound: "length d \<le> n \<Longrightarrow> dense_bits d \<subseteq> {0..<64 * n}"
  by (auto simp: mem_dense_bits)

lemma dense_ones_bound: "dense_ones d \<le> 64 * length d"
  using card_mono [OF _ dense_bits_bound [of d "length d"]] by (simp add: card_dense_bits)

lemma bs_invD:
  assumes "bs_inv rows s"
  shows "length (bs_dense s) = rows" and "rows \<le> 64"
    and "unat (bs_count s) = dense_ones (bs_dense s)"
    and "r < rows \<Longrightarrow> bit (bs_sparse s) r \<longleftrightarrow> bs_dense s ! r \<noteq> 0"
    and "bit (bs_sparse s) r \<Longrightarrow> r < rows"
proof -
  show l: "length (bs_dense s) = rows" and r: "rows \<le> 64"
    using assms by (auto simp: bs_inv_def bs_consistent_def)
  have "dense_ones (bs_dense s) < 2 ^ 64"
    using dense_ones_bound [of "bs_dense s"] l r by simp
  moreover have "bs_count s = of_nat (dense_ones (bs_dense s))"
    using assms by (simp add: bs_inv_def bs_consistent_def)
  ultimately show "unat (bs_count s) = dense_ones (bs_dense s)"
    by (simp add: unat_of_nat)
  show "r < rows \<Longrightarrow> bit (bs_sparse s) r \<longleftrightarrow> bs_dense s ! r \<noteq> 0"
    using assms by (auto simp: bs_inv_def bs_consistent_def)
  show "bit (bs_sparse s) r \<Longrightarrow> r < rows"
    using assms bit_col_less [of "bs_sparse s" r]
    by (auto simp: bs_inv_def bs_consistent_def not_less)
qed

lemma bs_len_card: "bs_inv rows s \<Longrightarrow> bs_len s = card (bits s)"
  by (simp add: bs_len_def bs_invD(3) card_dense_bits)

lemma bs_is_empty_iff: "bs_inv rows s \<Longrightarrow> bs_is_empty s \<longleftrightarrow> bits s = {}"
  by (simp add: bs_is_empty_def bs_len_card)

lemma bits_bound: "bs_inv rows s \<Longrightarrow> k \<in> bits s \<Longrightarrow> k < 64 * rows"
  using bs_invD(1) [of rows s] by (auto simp: mem_dense_bits)

lemma bit_index_div_mod [simp]:
  "bit_index b div 64 = unat (row b)" "bit_index b mod 64 = unat (col b)"
proof -
  have "unat (col b) < 2 ^ LENGTH(6)" by (rule unsigned_less)
  then have "unat (col b) < 64" by simp
  then show "bit_index b div 64 = unat (row b)" "bit_index b mod 64 = unat (col b)"
    by (simp_all add: bit_index_def)
qed

lemma unat_u6: "unat (w :: 6 word) < 64"
proof -
  have "unat w < 2 ^ LENGTH(6)" by (rule unsigned_less)
  then show ?thesis by simp
qed

lemma unat_row_col: "unat (row b) < 64" "unat (col b) < 64"
  by (rule unat_u6)+

lemma eq_bit_index: "x = bit_index b \<longleftrightarrow> x div 64 = unat (row b) \<and> x mod 64 = unat (col b)"
  by (metis bit_index_div_mod div_mult_mod_eq)

lemma bit_index_inj: "bit_index b = bit_index b' \<longleftrightarrow> b = b'"
  by (cases b; cases b') (metis bit_addr.sel bit_index_div_mod word_unat_eq_iff)

lemma bit_index_Bit: "r < 64 \<Longrightarrow> c < 64 \<Longrightarrow> bit_index (Bit (of_nat r) (of_nat c)) = r * 64 + c"
  by (simp add: bit_index_def unat_of_nat)

lemma bit_index_less: "bit_index b < 4096"
  using unat_row_col [of b] by (simp add: bit_index_def)

lemma from_loose_index: "n < 4096 \<Longrightarrow> \<exists>b. from_loose (of_nat n) = Inr b \<and> bit_index b = n"
proof -
  assume n: "n < 4096"
  have "unat (drop_bit 6 (of_nat n :: 16 word)) = n div 64"
    using n by (simp only: unat_drop_bit_eq) (simp add: unat_of_nat drop_bit_eq_div)
  moreover have "unat ((of_nat n :: 16 word) AND 63) = n mod 64"
  proof -
    have "(of_nat n :: 16 word) AND 63 = take_bit 6 (of_nat n)"
      by (simp add: take_bit_eq_mask mask_eq_exp_minus_1)
    then show ?thesis using n
      by (simp only: unsigned_take_bit_eq) (simp add: unat_of_nat take_bit_eq_mod)
  qed
  moreover have "n div 64 < 64" using n by simp
  ultimately show ?thesis by (simp add: from_loose_def Let_def bit_index_Bit)
qed

lemma bit_to_u64_index: "unat (bit_to_u64 b) = bit_index b"
proof -
  have "\<not> bit (of_nat (unat (col b)) :: 64 word) i" if "6 \<le> i" for i
    using that bit_imp_le_length [of "col b" i] by (auto simp: bit_unsigned_iff)
  then have "bit_to_u64 b = of_nat (unat (col b)) + push_bit 6 (of_nat (unat (row b)))"
    unfolding bit_to_u64_def
    by (intro disjunctive_add [symmetric]) (metis bit_push_bit_iff linorder_not_le)
  also have "\<dots> = of_nat (bit_index b)"
    by (simp add: bit_index_def push_bit_eq_mult)
  finally show ?thesis using bit_index_less [of b] by (simp add: unat_of_nat)
qed

lemma mem_bits_bit_index:
  "bit_index b \<in> dense_bits d \<longleftrightarrow> unat (row b) < length d \<and> bit (d ! unat (row b)) (unat (col b))"
  by (simp add: mem_dense_bits)

lemma dense_bits_set_bit:
  assumes "unat (row b) < length d"
  shows "dense_bits (d[unat (row b) := d ! unat (row b) OR push_bit (unat (col b)) 1])
    = insert (bit_index b) (dense_bits d)"
  using assms unat_row_col [of b]
  by (auto simp: set_eq_iff mem_dense_bits nth_list_update eq_bit_index)

lemma dense_bits_unset_bit:
  assumes "unat (row b) < length d"
  shows "dense_bits (d[unat (row b) := d ! unat (row b) AND NOT (push_bit (unat (col b)) 1)])
    = dense_bits d - {bit_index b}"
  using assms unat_row_col [of b]
  by (auto simp: set_eq_iff mem_dense_bits nth_list_update eq_bit_index)

lemma bs_inv_iff:
  "bs_inv rows s \<longleftrightarrow>
     length (bs_dense s) = rows \<and> rows \<le> 64 \<and> bs_count s = of_nat (card (bits s)) \<and>
     (\<forall>r. bit (bs_sparse s) r \<longleftrightarrow> r < rows \<and> bs_dense s ! r \<noteq> 0)"
proof
  assume inv: "bs_inv rows s"
  show "length (bs_dense s) = rows \<and> rows \<le> 64 \<and> bs_count s = of_nat (card (bits s)) \<and>
     (\<forall>r. bit (bs_sparse s) r \<longleftrightarrow> r < rows \<and> bs_dense s ! r \<noteq> 0)"
  proof (intro conjI allI)
    show "length (bs_dense s) = rows" and "rows \<le> 64" by (rule bs_invD [OF inv])+
    show "bs_count s = of_nat (card (bits s))"
      using inv by (simp add: bs_inv_def bs_consistent_def card_dense_bits)
    show "bit (bs_sparse s) r \<longleftrightarrow> r < rows \<and> bs_dense s ! r \<noteq> 0" for r
      using bs_invD(4,5) [OF inv, of r] by blast
  qed
next
  assume a: "length (bs_dense s) = rows \<and> rows \<le> 64 \<and> bs_count s = of_nat (card (bits s)) \<and>
     (\<forall>r. bit (bs_sparse s) r \<longleftrightarrow> r < rows \<and> bs_dense s ! r \<noteq> 0)"
  show "bs_inv rows s"
    unfolding bs_inv_def bs_consistent_def
  proof (intro conjI ballI)
    show "length (bs_dense s) = rows" and "length (bs_dense s) \<le> 64" using a by simp_all
    show "of_nat (dense_ones (bs_dense s)) = bs_count s" using a by (simp add: card_dense_bits)
    show "bit (bs_sparse s) r \<longleftrightarrow> bs_dense s ! r \<noteq> 0" if "r \<in> set [0..<length (bs_dense s)]" for r
      using a that by simp
    show "\<not> bit (bs_sparse s) r" if "r \<in> set [length (bs_dense s)..<64]" for r
      using a that by simp
  qed
qed

lemma bs_inv_sparse:
  "bs_inv rows s \<Longrightarrow> bit (bs_sparse s) r \<longleftrightarrow> r < rows \<and> bs_dense s ! r \<noteq> 0"
  by (simp add: bs_inv_iff)

lemma bs_inv_validate [simp]: "bs_inv rows s \<Longrightarrow> bs_validate cfg s = Inr ()"
  by (simp add: bs_validate_def validate_that_def bs_inv_def)

subsection \<open>Operations on the set\<close>

lemma and_shifted_one_eq_0: "w AND 2 ^ c = 0 \<longleftrightarrow> \<not> bit w c" for w :: "64 word"
proof
  assume "w AND 2 ^ c = 0"
  then have "\<not> bit (w AND 2 ^ c) c" by simp
  then show "\<not> bit w c" by (auto dest: bit_col_less)
next
  assume "\<not> bit w c"
  then show "w AND 2 ^ c = 0" by (intro bit_word_eqI) auto
qed

lemma or_shifted_one_neq_0: "c < 64 \<Longrightarrow> w OR 2 ^ c \<noteq> 0" for w :: "64 word"
proof
  assume "c < 64" and "w OR 2 ^ c = 0"
  then have "\<not> bit (w OR 2 ^ c) c" by simp
  with \<open>c < 64\<close> show False by simp
qed

lemma bs_count_not_max: "bs_inv rows s \<Longrightarrow> bs_count s \<noteq> -1"
  using dense_ones_bound [of "bs_dense s"] bs_invD(1,2,3) [of rows s]
  by (auto simp: unsigned_minus_1_eq_mask mask_eq_exp_minus_1)

lemma bs_count_not_0: "bs_inv rows s \<Longrightarrow> bits s \<noteq> {} \<Longrightarrow> bs_count s \<noteq> 0"
  using bs_is_empty_iff [of rows s] by (auto simp: bs_is_empty_def bs_len_def)

lemma bs_set_spec:
  assumes inv: "bs_inv rows s" and r: "unat (row b) < rows" and new: "bit_index b \<notin> bits s"
  shows "\<exists>s'. bs_set cfg b s = Inr s' \<and> bs_inv rows s' \<and> bits s' = insert (bit_index b) (bits s)"
proof -
  let ?r = "unat (row b)" and ?c = "unat (col b)"
  define s' where "s' = s\<lparr>bs_dense := (bs_dense s)[?r := bs_dense s ! ?r OR push_bit ?c 1],
    bs_count := bs_count s + 1, bs_sparse := bs_sparse s OR push_bit ?r 1\<rparr>"
  note i = inv [unfolded bs_inv_iff]
  have len: "?r < length (bs_dense s)" using i r by simp
  have bits': "bits s' = insert (bit_index b) (bits s)"
    using dense_bits_set_bit [OF len] by (simp add: s'_def)
  have inv': "bs_inv rows s'"
    unfolding bs_inv_iff
  proof (intro conjI allI)
    show "length (bs_dense s') = rows" and "rows \<le> 64" using i by (simp_all add: s'_def)
    show "bs_count s' = of_nat (card (bits s'))" using i new by (simp add: bits') (simp add: s'_def)
    show "bit (bs_sparse s') r \<longleftrightarrow> r < rows \<and> bs_dense s' ! r \<noteq> 0" for r
      using i r unat_row_col [of b] or_shifted_one_neq_0 [of ?c "bs_dense s ! ?r"]
      by (cases "r = ?r") (auto simp: s'_def)
  qed
  have "bs_dense s ! ?r AND push_bit ?c 1 = 0"
    using new len by (simp add: mem_bits_bit_index and_shifted_one_eq_0)
  then have "bs_set cfg b s = Inr s'"
    using len inv' bs_count_not_max [OF inv] by (simp add: bs_set_def Let_def s'_def arith_w)
  with inv' bits' show ?thesis by blast
qed

lemma bs_peek_spec:
  assumes inv: "bs_inv rows s" and ne: "bits s \<noteq> {}"
  obtains b where "bs_peek_unchecked s = Inr b" and "bit_index b = Min (bits s)"
    and "bit_index b \<in> bits s" and "unat (row b) < rows"
    and "\<And>r. r < unat (row b) \<Longrightarrow> bs_dense s ! r = 0"
proof -
  let ?r = "trailing_zeros (bs_sparse s)"
  note sp = bs_inv_sparse [OF inv] and len = bs_invD(1) [OF inv]
  from ne obtain k where k: "k \<in> bits s" by blast
  then have "bit (bs_sparse s) (k div 64)" unfolding sp by (auto simp: mem_dense_bits len)
  then have s0: "bs_sparse s \<noteq> 0" by auto
  note tz = trailing_zeros_bit [OF s0]
  have r: "?r < rows" and dr: "bs_dense s ! ?r \<noteq> 0" using tz(1) unfolding sp by simp_all
  let ?c = "trailing_zeros (bs_dense s ! ?r)"
  note tc = trailing_zeros_bit [OF dr]
  define b where "b = Bit (of_nat ?r) (of_nat ?c)"
  have rc: "unat (row b) = ?r" "unat (col b) = ?c"
    using tz(2) tc(2) by (simp_all add: b_def unat_of_nat)
  have peek: "bs_peek_unchecked s = Inr b"
    using len r tz(2) tc(2) by (simp add: bs_peek_unchecked_def Let_def b_def)
  have below: "bs_dense s ! r = 0" if "r < ?r" for r
    using that trailing_zeros_below [OF that] r unfolding sp by simp
  have mem: "bit_index b \<in> bits s"
    using len r tc(1) rc by (simp add: mem_bits_bit_index)
  have "bit_index b \<le> k" if "k \<in> bits s" for k
  proof -
    from that have k: "k div 64 < rows" "bit (bs_dense s ! (k div 64)) (k mod 64)"
      by (simp_all add: mem_dense_bits len)
    then have "?r \<le> k div 64" using below [of "k div 64"] by force
    moreover have "?c \<le> k mod 64" if "k div 64 = ?r"
      using that k(2) trailing_zeros_below [of "k mod 64" "bs_dense s ! ?r"] by force
    moreover have "?c < 64" using tc(2) by simp
    moreover have "k div 64 * 64 + k mod 64 = k" by simp
    ultimately show ?thesis unfolding bit_index_def rc
      by (cases "k div 64 = ?r") linarith+
  qed
  with mem have "bit_index b = Min (bits s)" by (intro Min_eqI [symmetric]) simp_all
  then show ?thesis
    by (intro that [OF peek _ mem]) (simp_all add: rc r below)
qed

lemma bit_unset_mask:
  "bit (push_bit r (NOT (if z then 1 else 0)) :: 64 word) i \<longleftrightarrow> r \<le> i \<and> i < 64 \<and> (z \<longrightarrow> i \<noteq> r)"
  by (cases z) (auto simp: bit_push_bit_iff bit_minus_1_iff simp del: push_bit_minus_one_eq_not_mask)

definition unset_state :: "bit_addr \<Rightarrow> bitset \<Rightarrow> bitset" where
  "unset_state b s =
     (let r = unat (row b); cols' = bs_dense s ! r AND NOT (push_bit (unat (col b)) 1) in
      s\<lparr>bs_dense := (bs_dense s)[r := cols'], bs_count := bs_count s - 1,
        bs_sparse := bs_sparse s AND push_bit r (NOT (if cols' = 0 then 1 else 0))\<rparr>)"

lemma bs_unset_eq:
  assumes "bs_inv rows s" and "bit_index b \<in> bits s"
  shows "bs_unset cfg b s = andthen (bs_validate cfg (unset_state b s)) (\<lambda>_. Inr (unset_state b s))"
proof -
  have "bs_count s \<noteq> 0" using assms bs_count_not_0 by blast
  moreover have "unat (row b) < length (bs_dense s)"
    and "bit (bs_dense s ! unat (row b)) (unat (col b))"
    using assms(2) by (simp_all add: mem_bits_bit_index)
  moreover from this have "0 < bs_dense s ! unat (row b) AND push_bit (unat (col b)) 1"
    by (simp add: word_gt_0 and_shifted_one_eq_0)
  ultimately show ?thesis unfolding bs_unset_def Let_def unset_state_def
    by (simp only: require_simps andthen_simps validate_that_True dec_word_in_range not_False_eq_True)
qed

lemma bits_unset_state:
  "bit_index b \<in> bits s \<Longrightarrow> bits (unset_state b s) = bits s - {bit_index b}"
  using dense_bits_unset_bit [of b "bs_dense s"]
  by (simp add: unset_state_def Let_def mem_bits_bit_index)

lemma sparse_unset_state:
  "bit (bs_sparse (unset_state b s)) r \<longleftrightarrow>
     bit (bs_sparse s) r \<and> unat (row b) \<le> r \<and> r < 64 \<and>
     (bs_dense s ! unat (row b) AND NOT (push_bit (unat (col b)) 1) = 0 \<longrightarrow> r \<noteq> unat (row b))"
proof -
  have "bs_sparse (unset_state b s) = bs_sparse s AND push_bit (unat (row b))
      (NOT (if bs_dense s ! unat (row b) AND NOT (push_bit (unat (col b)) 1) = 0 then 1 else 0))"
    by (simp add: unset_state_def Let_def)
  then show ?thesis by (simp only: bit_and_word bit_unset_mask)
qed

lemma dense_unset_state:
  "unat (row b) < length (bs_dense s) \<Longrightarrow>
   bs_dense (unset_state b s) ! r =
     (if r = unat (row b) then bs_dense s ! r AND NOT (push_bit (unat (col b)) 1) else bs_dense s ! r)"
  by (auto simp: unset_state_def Let_def nth_list_update)

text \<open>Only the first non-empty row may lose a bit: the exact condition for \<open>unset\<close>.\<close>

lemma bs_inv_unset_state:
  assumes inv: "bs_inv rows s" and mem: "bit_index b \<in> bits s"
  shows "bs_inv rows (unset_state b s) \<longleftrightarrow> (\<forall>r < unat (row b). bs_dense s ! r = 0)"
proof
  let ?r = "unat (row b)"
  note i = bs_invD(1,2) [OF inv] and sp = bs_inv_sparse [OF inv]
  have len: "?r < length (bs_dense s)" and b: "bit (bs_dense s ! ?r) (unat (col b))"
    using mem by (simp_all add: mem_bits_bit_index)
  note dense = dense_unset_state [OF len] and sparse = sparse_unset_state [of b s]
  show "\<forall>r < ?r. bs_dense s ! r = 0" if "bs_inv rows (unset_state b s)"
  proof (intro allI impI)
    fix r assume "r < ?r"
    then have "\<not> bit (bs_sparse (unset_state b s)) r" unfolding sparse by simp
    moreover have "r < rows" using \<open>r < ?r\<close> len i by simp
    ultimately have "bs_dense (unset_state b s) ! r = 0" using bs_inv_sparse [OF that] by blast
    then show "bs_dense s ! r = 0" using \<open>r < ?r\<close> by (simp add: dense)
  qed
  show "bs_inv rows (unset_state b s)" if first: "\<forall>r < ?r. bs_dense s ! r = 0"
    unfolding bs_inv_iff
  proof (intro conjI allI)
    show "length (bs_dense (unset_state b s)) = rows" and "rows \<le> 64"
      using i by (simp_all add: unset_state_def Let_def)
    have "0 < card (bits s)" using mem by (auto simp: card_gt_0_iff)
    moreover have "bs_count (unset_state b s) = bs_count s - 1" by (simp add: unset_state_def Let_def)
    ultimately show "bs_count (unset_state b s) = of_nat (card (bits (unset_state b s)))"
      using inv mem unfolding bits_unset_state [OF mem] bs_inv_iff by (simp add: of_nat_diff)
    show "bit (bs_sparse (unset_state b s)) r \<longleftrightarrow> r < rows \<and> bs_dense (unset_state b s) ! r \<noteq> 0" for r
    proof -
      have "bs_dense s ! ?r \<noteq> 0" using b by auto
      moreover have "bs_dense s ! r = 0" if "\<not> ?r \<le> r" using that first by simp
      ultimately show ?thesis using i len unfolding sp sparse dense by (cases "r = ?r") auto
    qed
  qed
qed

lemma bs_unset_spec:
  assumes "bs_inv rows s" and "bit_index b \<in> bits s"
    and "\<And>r. r < unat (row b) \<Longrightarrow> bs_dense s ! r = 0"
  shows "\<exists>s'. bs_unset cfg b s = Inr s' \<and> bs_inv rows s' \<and> bits s' = bits s - {bit_index b}"
  using assms bs_inv_unset_state [OF assms(1,2)]
  by (simp add: bs_unset_eq [OF assms(1,2)] bits_unset_state)

lemma bs_peek_unset_spec:
  assumes "bs_inv rows s" and "bs_peek_unchecked s = Inr b" and "bits s \<noteq> {}"
  shows "\<exists>s'. bs_unset cfg b s = Inr s' \<and> bs_inv rows s' \<and> bits s' = bits s - {bit_index b} \<and>
    bit_index b = Min (bits s)"
proof -
  obtain b' where b': "bs_peek_unchecked s = Inr b'" "bit_index b' = Min (bits s)"
    "bit_index b' \<in> bits s" "\<And>r. r < unat (row b') \<Longrightarrow> bs_dense s ! r = 0"
    using bs_peek_spec [OF assms(1,3)] by blast
  with assms(2) have "b' = b" by simp
  with b' bs_unset_spec [OF assms(1), of b cfg] show ?thesis by blast
qed

subsection \<open>Filling\<close>

lemma fill_full_eq:
  assumes "i \<le> rows" and "rows \<le> length d"
  shows "fill_full d i rows = Inr (take i d @ replicate (rows - i) (-1) @ drop rows d, rows)"
  using assms
proof (induction d i rows rule: fill_full.induct)
  case (1 d i rows)
  show ?case
  proof (cases "i < rows")
    case True
    then have "fill_full d i rows = fill_full (d[i := -1]) (i + 1) rows"
      using 1(3) by (simp add: fill_full.simps [of d i rows])
    also have "\<dots> = Inr (take (i + 1) (d[i := -1]) @ replicate (rows - (i + 1)) (-1)
        @ drop rows (d[i := -1]), rows)"
      using 1 True by simp
    also have "\<dots> = Inr (take i d @ replicate (rows - i) (-1) @ drop rows d, rows)"
      using True 1(3) by (simp add: take_Suc_conv_app_nth Suc_diff_Suc flip: replicate_Suc)
    finally show ?thesis .
  next
    case False
    then show ?thesis using 1(2) by (subst fill_full.simps) simp
  qed
qed

lemma fill_zero_eq:
  assumes "j \<le> length d"
  shows "fill_zero d j = take j d @ replicate (length d - j) 0"
  using assms
proof (induction d j rule: fill_zero.induct)
  case (1 d j)
  show ?case
  proof (cases "j < length d")
    case True
    then have "fill_zero d j = take (Suc j) (d[j := 0]) @ replicate (length d - Suc j) 0"
      using 1 by (simp add: fill_zero.simps [of d j])
    also have "\<dots> = take j d @ replicate (length d - j) 0"
      using True by (simp add: take_Suc_conv_app_nth Suc_diff_Suc
        flip: replicate_Suc)
    finally show ?thesis .
  next
    case False
    then show ?thesis using 1(2) by (subst fill_zero.simps) simp
  qed
qed

lemma bit_ones_below: "bit (2 ^ c - 1 :: 64 word) i \<longleftrightarrow> i < 64 \<and> i < c"
proof -
  have "bit (mask c :: 64 word) i \<longleftrightarrow> i < 64 \<and> i < c" by (simp add: bit_mask_iff)
  then show ?thesis by (simp add: mask_eq_exp_minus_1)
qed

lemma bit_all_ones: "bit (-1 :: 64 word) i \<longleftrightarrow> i < 64"
  by (simp add: bit_minus_1_iff)

lemma bs_invI:
  assumes "length (bs_dense s) = rows" and "rows \<le> 64"
    and "bits s = {0..<n}" and "bs_count s = of_nat n"
    and "\<And>r. bit (bs_sparse s) r \<longleftrightarrow> r < rows \<and> bs_dense s ! r \<noteq> 0"
  shows "bs_inv rows s"
  using assms by (simp add: bs_inv_iff)

lemma fill_rows_bits:
  assumes "length d = rows" and "n \<le> 64 * rows"
    and "\<And>r. r < rows \<Longrightarrow> d ! r = (if r < n div 64 then -1 else if r = n div 64 then 2 ^ (n mod 64) - 1 else 0)"
  shows "dense_bits d = {0..<n}"
proof (rule set_eqI)
  fix k :: nat
  have k: "k div 64 * 64 + k mod 64 = k" and n: "n div 64 * 64 + n mod 64 = n" by simp_all
  have m: "k mod 64 < 64" "n mod 64 < 64" by simp_all
  show "k \<in> dense_bits d \<longleftrightarrow> k \<in> {0..<n}"
  proof (cases "k div 64 < rows")
    case True
    then have "k \<in> dense_bits d \<longleftrightarrow>
        k div 64 < n div 64 \<or> k div 64 = n div 64 \<and> k mod 64 < n mod 64"
      using m assms by (auto simp: mem_dense_bits bit_all_ones bit_ones_below)
    also have "\<dots> \<longleftrightarrow> k < n" using k n m by linarith
    finally show ?thesis by simp
  next
    case False
    then have "n \<le> k" using assms(2) by linarith
    with False show ?thesis using assms(1) by (simp add: mem_dense_bits)
  qed
qed

lemma fill_word_neq_0: "2 ^ c - 1 \<noteq> (0 :: 64 word) \<longleftrightarrow> 0 < c" if "c < 64"
proof
  assume "0 < c"
  then have "bit (2 ^ c - 1 :: 64 word) 0" by (simp add: bit_ones_below)
  then show "2 ^ c - 1 \<noteq> (0 :: 64 word)" by auto
qed (cases c, auto)

lemma bs_fill_spec:
  assumes len: "length (bs_dense s) = rows" and r64: "rows \<le> 64" and n: "n \<le> 64 * rows"
  shows "\<exists>s'. bs_fill n s = Inr s' \<and> bs_inv rows s' \<and> bits s' = {0..<n}"
proof -
  let ?r = "n div 64" and ?c = "n mod 64"
  let ?sp = "if ?r < 64 then 2 ^ ?r - 1 else -1 :: 64 word"
  define d1 where "d1 = replicate ?r (-1 :: 64 word) @ drop ?r (bs_dense s)"
  define d2 where "d2 = (if ?c = 0 then d1 else d1[?r := 2 ^ ?c - 1])"
  define j where "j = ?r + (if ?c = 0 then 0 else 1)"
  define s' where "s' = \<lparr>bs_count = of_nat n, bs_sparse = (if ?c = 0 then ?sp else ?sp OR 2 ^ ?r),
    bs_dense = fill_zero d2 j\<rparr>"
  have r: "?r \<le> rows" using n by simp
  have c: "?r < rows" if "?c \<noteq> 0"
  proof (rule ccontr)
    assume "\<not> ?r < rows"
    then have "64 * rows \<le> 64 * ?r" by simp
    moreover have "n = 64 * ?r + ?c" by simp
    ultimately show False using n that by linarith
  qed
  have ld: "length d1 = rows" "length d2 = rows" using len r by (auto simp: d1_def d2_def)
  have j: "j \<le> rows" using r c by (auto simp: j_def)
  have fill: "bs_fill n s = Inr s'"
    using len r c ld by (simp add: bs_fill_def Let_def fill_full_eq d1_def [symmetric] s'_def d2_def j_def)
  have dense: "bs_dense s' ! k = (if k < ?r then -1 else if k = ?r then 2 ^ ?c - 1 else 0)" if "k < rows" for k
  proof -
    have "bs_dense s' ! k = (if k < j then d2 ! k else 0)"
      using that j ld by (simp add: s'_def fill_zero_eq nth_append)
    then show ?thesis using that ld r by (auto simp: j_def d2_def d1_def nth_append)
  qed
  have len': "length (bs_dense s') = rows" using j ld by (simp add: s'_def fill_zero_eq)
  have bits': "bits s' = {0..<n}" using len' n dense by (rule fill_rows_bits)
  have "bs_inv rows s'"
  proof (rule bs_invI [OF len' r64 bits'])
    show "bs_count s' = of_nat n" by (simp add: s'_def)
    show "bit (bs_sparse s') k \<longleftrightarrow> k < rows \<and> bs_dense s' ! k \<noteq> 0" for k
    proof -
      have "bit (bs_sparse s') k \<longleftrightarrow> k < 64 \<and> (k < ?r \<or> k = ?r \<and> ?c \<noteq> 0)"
        using r r64 c by (auto simp: s'_def bit_ones_below bit_all_ones)
      then show ?thesis using dense [of k] r r64 c fill_word_neq_0 [of ?c] by (auto split: if_splits)
    qed
  qed
  with fill bits' show ?thesis by blast
qed

subsection \<open>The interface\<close>

text \<open>
  The contract of the \<open>Interface\<close> trait as its client uses it: \<open>take\<close> is
  \<open>peek_unchecked\<close> followed by \<open>unset\<close> of the bit it returned, \<open>put\<close> is
  \<open>set\<close>. A client that only takes and puts never sees the row structure.
\<close>

definition bs_take :: "config \<Rightarrow> bitset \<Rightarrow> (nat \<times> bitset) res" where
  "bs_take cfg s = andthen (bs_peek_unchecked s) (\<lambda>b.
     andthen (bs_unset cfg b s) (\<lambda>s'. Inr (bit_index b, s')))"

locale free_set =
  fixes inv :: "'s \<Rightarrow> bool" and elems :: "'s \<Rightarrow> nat set"
    and take :: "'s \<Rightarrow> (nat \<times> 's) res" and put :: "'b \<Rightarrow> 's \<Rightarrow> 's res"
    and num :: "'b \<Rightarrow> nat" and bound :: nat
  assumes finite_elems: "finite (elems s)"
    and take_min: "inv s \<Longrightarrow> elems s \<noteq> {} \<Longrightarrow>
      \<exists>s'. take s = Inr (Min (elems s), s') \<and> inv s' \<and> elems s' = elems s - {Min (elems s)}"
    and put_new: "inv s \<Longrightarrow> num b < bound \<Longrightarrow> num b \<notin> elems s \<Longrightarrow>
      \<exists>s'. put b s = Inr s' \<and> inv s' \<and> elems s' = insert (num b) (elems s)"
begin

lemma takes_sorted:
  assumes "inv s" and "n \<le> card (elems s)"
  shows "\<exists>s'. repeat_op take n s = Inr (List.take n (sorted_list_of_set (elems s)), s') \<and> inv s' \<and>
    elems s' = elems s - set (List.take n (sorted_list_of_set (elems s)))"
  using assms
proof (induction n arbitrary: s)
  case (Suc n)
  let ?m = "Min (elems s)"
  have ne: "elems s \<noteq> {}" using Suc.prems by auto
  then obtain s1 where s1: "take s = Inr (?m, s1)" "inv s1" "elems s1 = elems s - {?m}"
    using take_min Suc.prems(1) by blast
  have "n \<le> card (elems s1)" using Suc.prems ne finite_elems by (simp add: s1(3))
  then obtain s2 where s2: "repeat_op take n s1 = Inr (List.take n (sorted_list_of_set (elems s1)), s2)"
    "inv s2" "elems s2 = elems s1 - set (List.take n (sorted_list_of_set (elems s1)))"
    using Suc.IH s1(2) by blast
  have "sorted_list_of_set (elems s) = ?m # sorted_list_of_set (elems s1)"
    using ne finite_elems by (simp add: s1(3) sorted_list_of_set_nonempty)
  then show ?case using s1 s2 by auto
qed simp

lemma put_then_take:
  assumes "inv s" and "num b < bound" and "num b \<notin> elems s" and "\<forall>k \<in> elems s. num b < k"
  shows "\<exists>s1 s2. put b s = Inr s1 \<and> take s1 = Inr (num b, s2) \<and> inv s2 \<and> elems s2 = elems s"
proof -
  obtain s1 where s1: "put b s = Inr s1" "inv s1" "elems s1 = insert (num b) (elems s)"
    using put_new assms by blast
  have "Min (elems s1) = num b"
    using assms(4) finite_elems by (simp add: s1(3) Min_insert2 less_imp_le)
  then show ?thesis using take_min [OF s1(2)] s1 assms(3) by auto
qed

end

interpretation bs: free_set "bs_inv rows" bits "bs_take cfg" "bs_set cfg" bit_index "64 * rows"
proof
  fix s :: bitset and b :: bit_addr
  show "finite (bits s)" by simp
  show "\<exists>s'. bs_take cfg s = Inr (Min (bits s), s') \<and> bs_inv rows s' \<and> bits s' = bits s - {Min (bits s)}"
    if inv: "bs_inv rows s" and ne: "bits s \<noteq> {}"
  proof -
    obtain b where b: "bs_peek_unchecked s = Inr b" using bs_peek_spec [OF inv ne] by blast
    with bs_peek_unset_spec [OF inv b ne, of cfg] show ?thesis
      by (auto simp: bs_take_def)
  qed
  show "\<exists>s'. bs_set cfg b s = Inr s' \<and> bs_inv rows s' \<and> bits s' = insert (bit_index b) (bits s)"
    if "bs_inv rows s" and "bit_index b < 64 * rows" and "bit_index b \<notin> bits s"
    using that bs_set_spec [of rows s b cfg] by (metis bit_index_div_mod(1) less_mult_imp_div_less mult.commute)
qed

subsection \<open>Properties\<close>

text \<open>
  C26: filling a bitset with \<open>n\<close> blocks and then taking them one at a time (peek, then
  unset what was peeked) yields the block numbers 0, 1, ..., n - 1, each once and in order,
  with no failure under any build configuration, and leaves the bitset empty.
\<close>

theorem fill_then_drain:
  assumes "length (bs_dense s) \<le> 64" and "n \<le> 64 * length (bs_dense s)"
  shows "\<exists>s0 s1. bs_fill n s = Inr s0 \<and> bs_len s0 = n \<and>
    repeat_op (bs_take cfg) n s0 = Inr ([0..<n], s1) \<and> bs_is_empty s1"
proof -
  let ?rows = "length (bs_dense s)"
  obtain s0 where s0: "bs_fill n s = Inr s0" "bs_inv ?rows s0" "bits s0 = {0..<n}"
    using bs_fill_spec [OF refl assms] by blast
  obtain s1 where "repeat_op (bs_take cfg) n s0 = Inr ([0..<n], s1)" "bs_inv ?rows s1" "bits s1 = {}"
    using bs.takes_sorted [OF s0(2), of n cfg] by (auto simp: s0(3))
  with s0 show ?thesis by (simp add: bs_len_card bs_is_empty_iff)
qed

theorem fill_then_drain_witness:
  "\<exists>s0 s1. bs_fill 70 (bs_new 2) = Inr s0 \<and> bs_len s0 = 70 \<and>
    repeat_op (bs_take cfg_debug)
      70 s0 = Inr ([0..<70], s1) \<and> bs_is_empty s1"
  by (rule fill_then_drain) (simp_all add: bs_new_def)

text \<open>
  Freeing a block that is not free (\<open>set\<close>) adds exactly that block to the set,
  keeps the row summary and the count consistent, and freeing a block that is already free
  fails with "Double free" in validating builds.
\<close>

theorem set_adds_or_double_free:
  assumes "bs_inv rows s" and "unat (row b) < rows"
  shows "if bit_index b \<in> bits s
    then validate cfg \<longrightarrow> bs_set cfg b s = Inl (Assertion ''Double free'')
    else \<exists>s'. bs_set cfg b s = Inr s' \<and> bs_inv rows s' \<and>
      bits s' = insert (bit_index b) (bits s) \<and> bs_len s' = bs_len s + 1"
proof (cases "bit_index b \<in> bits s")
  case True
  then show ?thesis
    by (simp add: bs_set_def Let_def mem_bits_bit_index and_shifted_one_eq_0 validate_that_def)
next
  case False
  then obtain s' where s': "bs_set cfg b s = Inr s'" "bs_inv rows s'" "bits s' = insert (bit_index b) (bits s)"
    using bs_set_spec [OF assms False] by blast
  then have "bs_len s' = bs_len s + 1" using False assms(1) by (simp add: bs_len_card)
  with s' False show ?thesis by simp
qed

lemma bs_new_inv: "rows \<le> 64 \<Longrightarrow> bs_inv rows (bs_new rows)"
  by (simp add: bs_inv_def bs_new_def bs_consistent_def dense_ones_def sum_list_replicate
    iffD2 [OF count_ones_0 refl] del: count_ones_0)

lemma bits_bs_new [simp]: "bits (bs_new rows) = {}"
  by (auto simp: bs_new_def mem_dense_bits)

theorem set_adds_or_double_free_witness:
  "\<exists>s'. bs_set cfg_debug (Bit 1 5) (bs_new 2) = Inr s' \<and> bs_inv 2 s' \<and> bits s' = {69} \<and>
     bs_set cfg_debug (Bit 1 5) s' = Inl (Assertion ''Double free'')"
proof -
  have b: "bit_index (Bit 1 5) = 69" by (simp add: bit_index_def)
  obtain s' where s': "bs_set cfg_debug (Bit 1 5) (bs_new 2) = Inr s'" "bs_inv 2 s'" "bits s' = {69}"
    using set_adds_or_double_free [OF bs_new_inv, of 2 "Bit 1 5" cfg_debug] by (auto simp: b)
  moreover have "bs_set cfg_debug (Bit 1 5) s' = Inl (Assertion ''Double free'')"
    using set_adds_or_double_free [OF s'(2), of "Bit 1 5" cfg_debug] by (simp add: b s'(3) cfg_debug_def)
  ultimately show ?thesis by blast
qed

text \<open>
  C30: \<open>unset\<close> of a set bit keeps the bitset consistent exactly when no lower row holds a
  set bit. The mask shifts the complement instead of complementing the shifted bit, so it clears
  the summary of every lower row; the callers are safe because they only unset what
  \<open>peek_unchecked\<close> returned.
\<close>

theorem unset_consistent_iff_first_row:
  assumes "bs_inv rows s" and "bit_index b \<in> bits s"
  shows "(\<exists>s'. bs_unset cfg b s = Inr s' \<and> bs_inv rows s') \<longleftrightarrow> (\<forall>r < unat (row b). bs_dense s ! r = 0)"
  using bs_inv_unset_state [OF assms] by (auto simp: bs_unset_eq [OF assms] andthen_Inr_conv)

theorem unset_consistent_iff_first_row_witness:
  "\<exists>s. bs_inv 2 s \<and> bits s = {0, 69} \<and>
     \<not> (\<exists>s'. bs_unset cfg_debug (Bit 1 5) s = Inr s' \<and> bs_inv 2 s')"
proof -
  let ?s = "\<lparr>bs_count = 2, bs_sparse = 3, bs_dense = [1, 32]\<rparr>"
  have inv: "bs_inv 2 ?s" by code_simp
  have "x \<in> bits ?s \<longleftrightarrow> x \<in> {0, 69}" for x
  proof -
    have b5: "bit (32 :: 64 word) (x mod 64) \<longleftrightarrow> x mod 64 = 5"
      using bit_shifted_one [of 5 "x mod 64", where 'a = 64] by simp
    have "x \<in> bits ?s \<longleftrightarrow> x div 64 = 0 \<and> x mod 64 = 0 \<or> x div 64 = 1 \<and> x mod 64 = 5"
    proof -
      consider "x div 64 = 0" | "x div 64 = 1" | "2 \<le> x div 64" by linarith
      then show ?thesis
      proof cases
        case 2
        then show ?thesis unfolding mem_dense_bits using b5 by simp
      qed (simp_all add: mem_dense_bits bit_1_word)
    qed
    also have "\<dots> \<longleftrightarrow> x = 0 \<or> x = 69"
    proof -
      have "x = x div 64 * 64 + x mod 64" by simp
      then show ?thesis by (intro iffI; elim disjE conjE) (linarith, linarith, simp_all)
    qed
    finally show ?thesis by simp
  qed
  then have bits: "bits ?s = {0, 69}" by blast
  have "bit_index (Bit 1 5) \<in> bits ?s" unfolding bits by (simp add: bit_index_def)
  from unset_consistent_iff_first_row [OF inv this, of cfg_debug]
  have "\<not> (\<exists>s'. bs_unset cfg_debug (Bit 1 5) ?s = Inr s' \<and> bs_inv 2 s')" by simp
  with inv bits show ?thesis by blast
qed

end
