(* ===== verification/Size.thy ===== *)
theory Size
  imports Bitset
begin

text \<open>
  The size classes (\<open>cxlalloc/src/size.rs\<close> and \<open>size/\<close>): \<open>Small\<close> bins a
  request into multiples of eight bytes, \<open>Large\<close> into powers of two. The lemmas show that
  a class holds the request it was chosen for and wastes a bounded amount, that the blocks of
  a class fit their slab and the slab's free bitset, and which requests a bracket refuses.
\<close>

subsection \<open>Small\<close>

datatype small = Small "7 word"

definition small_size_min :: nat where "small_size_min = 8"
definition small_size_max :: nat where "small_size_max = 1016"
definition small_count :: nat where "small_count = 128"

definition small_size_slab :: nat where
  "small_size_slab = (SIZE_CACHE_LINE * 8) * 8 * small_size_min"

text \<open>\<open>bitset::SIZE_METADATA\<close>, \<open>slab::local::SIZE_METADATA\<close> and the rows left.\<close>

definition bitset_metadata :: nat where "bitset_metadata = 8 * 2"
definition local_metadata :: nat where "local_metadata = 8"

definition small_rows :: nat where
  "small_rows = (SIZE_CACHE_LINE * 8 - bitset_metadata - local_metadata) div 8"

definition u7_new :: "nat \<Rightarrow> 7 word res" where
  "u7_new n = (if n < 128 then Inr (of_nat n) else Inl (Assertion ''u7''))"

definition small_new :: "nat \<Rightarrow> small option res" where
  "small_new sz =
     (if sz \<le> small_size_max
      then andthen (u7_new (next_multiple_of sz 8 div 8)) (\<lambda>v. Inr (Some (Small v)))
      else Inr None)"

definition small_from_index :: "nat \<Rightarrow> small option" where
  "small_from_index index = (if index < 2 ^ 8 \<and> index < 2 ^ 7 then Some (Small (of_nat index)) else None)"

fun small_index :: "small \<Rightarrow> nat" where
  "small_index (Small v) = unat v"

definition small_is_zero :: "small \<Rightarrow> bool" where
  "small_is_zero c \<longleftrightarrow> small_index c = 0"

definition small_size :: "small \<Rightarrow> nat" where
  "small_size c = small_index c * 8"

text \<open>The table \<open>counts()\<close>: 0 for the zero class, the bits of the bitset for class 1.\<close>

definition small_counts :: "nat list" where
  "small_counts = map (\<lambda>i. if i = 0 then 0
      else if i = 1 then (8 * small_rows * 8) mod 2 ^ 16
      else (small_size_slab div (i * 8)) mod 2 ^ 16) [0..<small_count]"

definition small_blocks :: "small \<Rightarrow> nat" where
  "small_blocks c = small_counts ! small_index c"

subsection \<open>Large\<close>

datatype large = Large "4 word"

definition large_size_min_log2 :: nat where "large_size_min_log2 = 10"
definition large_size_max_log2 :: nat where "large_size_max_log2 = 19"
definition large_size_min :: nat where "large_size_min = 2 ^ large_size_min_log2"
definition large_size_max :: nat where "large_size_max = 2 ^ large_size_max_log2"
definition large_count :: nat where "large_count = large_size_max_log2 - large_size_min_log2 + 1"

definition large_size_slab :: nat where
  "large_size_slab = (SIZE_CACHE_LINE * 1) * 8 * large_size_min"

definition large_rows :: nat where
  "large_rows = (SIZE_CACHE_LINE * 2 - bitset_metadata - local_metadata) div 8"

fun next_power_of_two :: "nat \<Rightarrow> nat" where
  "next_power_of_two n = (if n \<le> 1 then 1 else 2 * next_power_of_two ((n + 1) div 2))"

declare next_power_of_two.simps [simp del]

definition u4_new :: "nat \<Rightarrow> 4 word res" where
  "u4_new n = (if n < 16 then Inr (of_nat n) else Inl (Assertion ''u4''))"

definition large_new :: "nat \<Rightarrow> large option res" where
  "large_new sz =
     (if sz \<le> large_size_max
      then andthen
        (u4_new (trailing_zeros (of_nat (next_power_of_two sz div 2 ^ large_size_min_log2) :: 64 word)))
        (\<lambda>v. Inr (Some (Large v)))
      else Inr None)"

definition large_from_index :: "nat \<Rightarrow> large option" where
  "large_from_index index = (if index < 2 ^ 8 \<and> index < 2 ^ 4 then Some (Large (of_nat index)) else None)"

fun large_index :: "large \<Rightarrow> nat" where
  "large_index (Large v) = unat v"

definition large_is_zero :: "large \<Rightarrow> bool" where
  "large_is_zero c \<longleftrightarrow> False"

definition large_size :: "large \<Rightarrow> nat" where
  "large_size c = large_size_min * 2 ^ large_index c"

definition large_blocks :: "large \<Rightarrow> nat" where
  "large_blocks c = large_size_slab div 2 ^ large_size_min_log2 div 2 ^ large_index c"

subsection \<open>Huge\<close>

definition huge_size_slab :: nat where "huge_size_slab = 2 ^ 30"

lemmas size_consts =
  small_size_min_def small_size_max_def small_count_def small_size_slab_def small_rows_def
  bitset_metadata_def local_metadata_def SIZE_CACHE_LINE_def large_size_min_log2_def
  large_size_max_log2_def large_size_min_def large_size_max_def large_count_def
  large_size_slab_def large_rows_def huge_size_slab_def

lemma size_values:
  "small_size_slab = 32768" "small_rows = 61" "small_size_max = 1016" "small_count = 128"
  "large_size_slab = 524288" "large_rows = 13" "large_size_min = 1024" "large_size_max = 524288"
  "large_count = 10"
  by (simp_all add: size_consts)

subsection \<open>Class arithmetic\<close>

lemma small_index_less: "small_index c < 128"
proof (cases c)
  case (Small v)
  have "unat v < 2 ^ LENGTH(7)" by (rule unsigned_less)
  with Small show ?thesis by simp
qed

lemma large_index_less: "large_index c < 16"
proof (cases c)
  case (Large v)
  have "unat v < 2 ^ LENGTH(4)" by (rule unsigned_less)
  with Large show ?thesis by simp
qed

lemma small_index_of_nat: "n < 128 \<Longrightarrow> small_index (Small (of_nat n)) = n"
  by (simp add: unat_of_nat)

lemma large_index_of_nat: "n < 16 \<Longrightarrow> large_index (Large (of_nat n)) = n"
  by (simp add: unat_of_nat)

lemma small_from_index_index [simp]: "small_from_index (small_index c) = Some c"
  using small_index_less [of c] by (cases c) (simp add: small_from_index_def)

lemma large_from_index_index [simp]: "large_from_index (large_index c) = Some c"
  using large_index_less [of c] by (cases c) (simp add: large_from_index_def)

lemma small_blocks_eq:
  "small_blocks c = (if small_index c = 0 then 0 else if small_index c = 1 then 3904
     else 32768 div (small_index c * 8))"
proof -
  have "small_blocks c = (if small_index c = 0 then 0 else if small_index c = 1 then 3904
     else 32768 div (small_index c * 8) mod 65536)"
    using small_index_less [of c] by (simp add: small_blocks_def small_counts_def size_values)
  moreover have "32768 div (small_index c * 8) < 65536"
    by (rule le_less_trans [OF div_le_dividend]) simp
  ultimately show ?thesis by simp
qed

lemma small_fits: "small_size c * small_blocks c \<le> small_size_slab"
proof (cases "small_index c = 1")
  case False
  have "small_index c * 8 * (32768 div (small_index c * 8)) \<le> 32768" by (rule times_div_less_eq_dividend)
  with False show ?thesis by (simp add: small_blocks_eq small_size_def size_values)
qed (simp add: small_blocks_eq small_size_def size_values)

lemma small_blocks_bounds:
  assumes "\<not> small_is_zero c"
  shows "0 < small_blocks c" and "small_blocks c \<le> 64 * small_rows" and "small_blocks c \<le> 3904"
proof -
  let ?i = "small_index c"
  have i: "0 < ?i" "?i < 128" using assms small_index_less by (auto simp: small_is_zero_def)
  have "small_blocks c \<le> 3904 \<and> 0 < small_blocks c"
  proof (cases "?i = 1")
    case False
    then have "32768 div (?i * 8) \<le> 32768 div 16" using i by (intro div_le_mono2) auto
    moreover have "0 < 32768 div (?i * 8)" using i by (simp add: div_greater_zero_iff)
    ultimately show ?thesis using False i by (simp add: small_blocks_eq)
  qed (simp add: small_blocks_eq)
  then show "0 < small_blocks c" "small_blocks c \<le> 64 * small_rows" "small_blocks c \<le> 3904"
    by (simp_all add: size_values)
qed

lemma large_blocks_eq: "large_index c < 10 \<Longrightarrow> large_blocks c = 2 ^ (9 - large_index c)"
proof -
  assume "large_index c < 10"
  then have "(512 :: nat) = 2 ^ (9 - large_index c) * 2 ^ large_index c"
    by (simp flip: power_add)
  then have "512 div 2 ^ large_index c = (2 ^ (9 - large_index c) :: nat)"
    by (metis nonzero_mult_div_cancel_right power_not_zero zero_neq_numeral)
  then show ?thesis by (simp add: large_blocks_def size_consts)
qed

lemma large_fits: "large_index c < 10 \<Longrightarrow> large_size c * large_blocks c = large_size_slab"
  by (simp add: large_blocks_eq large_size_def size_consts mult.assoc flip: power_add)

subsection \<open>Choosing a class\<close>

lemma small_new_Some:
  assumes "sz \<le> 1016"
  obtains c where "small_new sz = Inr (Some c)" and "small_size c = next_multiple_of sz 8"
proof -
  have m: "next_multiple_of sz 8 \<le> 1016"
    using assms by (intro next_multiple_of_least) simp_all
  then have i: "next_multiple_of sz 8 div 8 < 128" by simp
  have "8 dvd next_multiple_of sz 8" by simp
  then have "next_multiple_of sz 8 div 8 * 8 = next_multiple_of sz 8" by simp
  with i have "small_size (Small (of_nat (next_multiple_of sz 8 div 8))) = next_multiple_of sz 8"
    by (simp only: small_size_def small_index_of_nat)
  moreover have "small_new sz = Inr (Some (Small (of_nat (next_multiple_of sz 8 div 8))))"
    using assms i by (simp add: small_new_def size_values u7_new_def)
  ultimately show ?thesis using that by blast
qed

lemma next_power_of_two_spec:
  "\<exists>k. next_power_of_two n = 2 ^ k \<and> n \<le> 2 ^ k \<and> (1 < n \<longrightarrow> 0 < k \<and> 2 ^ (k - 1) < n)"
proof (induction n rule: next_power_of_two.induct)
  case (1 n)
  show ?case
  proof (cases "n \<le> 1")
    case True
    then show ?thesis by (intro exI [of _ 0]) (simp add: next_power_of_two.simps)
  next
    case False
    then obtain k where k: "next_power_of_two ((n + 1) div 2) = 2 ^ k" "(n + 1) div 2 \<le> 2 ^ k"
      "1 < (n + 1) div 2 \<longrightarrow> 0 < k \<and> 2 ^ (k - 1) < (n + 1) div 2"
      using 1 by blast
    have "2 ^ k < n"
    proof (cases "1 < (n + 1) div 2")
      case True
      then have "2 * 2 ^ (k - 1) < n" and "0 < k" using k(3) by auto
      then show ?thesis by (cases k) simp_all
    next
      case F: False
      then have "n = 2" using False by linarith
      then have "next_power_of_two ((n + 1) div 2) = 1" by (simp add: next_power_of_two.simps)
      then show ?thesis using k(1) \<open>n = 2\<close> by simp
    qed
    then show ?thesis using k(1,2) False
      by (intro exI [of _ "Suc k"]) (simp add: next_power_of_two.simps [of n])
  qed
qed

lemma trailing_zeros_power: "k < 64 \<Longrightarrow> trailing_zeros (2 ^ k :: 64 word) = k"
  by (rule trailing_zeros_eqI) simp_all

lemma trailing_zeros_0: "trailing_zeros (0 :: 64 word) = 64"
proof -
  have "takeWhile (\<lambda>i. \<not> bit (0 :: 64 word) i) [0..<64] = [0..<64]" by (simp add: takeWhile_eq_all_conv)
  then have "length (takeWhile (\<lambda>i. \<not> bit (0 :: 64 word) i) [0..<64]) = 64" by (simp only: length_upt)
  then show ?thesis unfolding trailing_zeros_def by simp
qed

lemma large_new_Some:
  assumes "512 < sz" and "sz \<le> 524288"
  obtains c where "large_new sz = Inr (Some c)" and "large_index c < 10"
    and "large_size c = next_power_of_two sz"
proof -
  obtain k where k: "next_power_of_two sz = 2 ^ k" "sz \<le> 2 ^ k" "2 ^ (k - 1) < sz" "0 < k"
    using next_power_of_two_spec [of sz] assms by auto
  have "(2 :: nat) ^ 9 < 2 ^ k" using k(2) assms(1) by simp
  then have "9 < k" by (rule power_less_imp_less_exp [rotated]) simp
  then have k10: "10 \<le> k" by simp
  have "(2 :: nat) ^ (k - 1) < 2 ^ 19" using k(3) assms(2) by simp
  then have "k - 1 < 19" by (rule power_less_imp_less_exp [rotated]) simp
  then have k19: "k \<le> 19" by simp
  have "(2 :: nat) ^ k = 2 ^ (k - 10) * 2 ^ 10"
    using k10 by (simp only: power_add [symmetric] le_add_diff_inverse2)
  then have "(2 :: nat) ^ k div 2 ^ 10 = 2 ^ (k - 10)" by simp
  then have "trailing_zeros (of_nat (next_power_of_two sz div 2 ^ 10) :: 64 word) = k - 10"
    using k19 by (simp add: k(1) trailing_zeros_power)
  then have "large_new sz = Inr (Some (Large (of_nat (k - 10))))"
    using assms k19 by (simp add: large_new_def size_values large_size_min_log2_def u4_new_def)
  moreover have i: "large_index (Large (of_nat (k - 10))) = k - 10"
    using k19 by (intro large_index_of_nat) simp
  moreover have "large_size (Large (of_nat (k - 10))) = next_power_of_two sz"
    unfolding large_size_def i k(1) size_values using \<open>(2 :: nat) ^ k = 2 ^ (k - 10) * 2 ^ 10\<close> by simp
  ultimately show ?thesis using that k19 by simp
qed

lemma large_new_panics: "sz \<le> 512 \<Longrightarrow> large_new sz = Inl (Assertion ''u4'')"
proof -
  assume "sz \<le> 512"
  obtain k where k: "next_power_of_two sz = 2 ^ k" "1 < sz \<longrightarrow> 0 < k \<and> 2 ^ (k - 1) < sz"
    using next_power_of_two_spec [of sz] by blast
  have "2 ^ k < (1024 :: nat)"
  proof (cases "1 < sz")
    case True
    then have "(2 :: nat) * 2 ^ (k - 1) < 1024" and "0 < k" using k(2) \<open>sz \<le> 512\<close> by simp_all
    then show ?thesis by (cases k) simp_all
  next
    case False
    then have "next_power_of_two sz = 1" by (simp add: next_power_of_two.simps)
    then show ?thesis using k(1) by simp
  qed
  then have "next_power_of_two sz div 2 ^ large_size_min_log2 = 0"
    by (simp add: k(1) large_size_min_log2_def)
  then show ?thesis using \<open>sz \<le> 512\<close>
    by (simp add: large_new_def size_values u4_new_def trailing_zeros_0)
qed

subsection \<open>The class of a request\<close>

text \<open>
  The small class of a request of at most 1016 bytes is the tightest multiple of eight
  bytes that holds it, so it wastes at most seven bytes; larger requests have no small class.
\<close>

lemma small_new_tight:
  "if sz \<le> small_size_max
   then \<exists>c. small_new sz = Inr (Some c) \<and> sz \<le> small_size c \<and> small_size c < sz + 8 \<and>
     (\<forall>c'. sz \<le> small_size c' \<longrightarrow> small_size c \<le> small_size c')
   else small_new sz = Inr None"
proof (cases "sz \<le> 1016")
  case True
  then obtain c where c: "small_new sz = Inr (Some c)" "small_size c = next_multiple_of sz 8"
    by (rule small_new_Some)
  have "small_size c \<le> small_size c'" if "sz \<le> small_size c'" for c'
  proof -
    have "8 dvd small_size c'" by (simp add: small_size_def)
    with that show ?thesis unfolding c(2) by (intro next_multiple_of_least) simp_all
  qed
  with c True next_multiple_of_ge [of 8 sz] next_multiple_of_less [of 8 sz] show ?thesis
    by (auto simp: size_values)
qed (simp add: small_new_def size_values)

text \<open>
  The large class of a request is the least power of two that holds it, less than twice the
  request; a request above 512 KiB has none, and one of 512 bytes or less (which the allocator
  never routes here) fails the four-bit bound of the class number.
\<close>

lemma large_new_cases:
  "if sz \<le> 512 then large_new sz = Inl (Assertion ''u4'')
   else if sz \<le> large_size_max
   then \<exists>c k. large_new sz = Inr (Some c) \<and> large_index c < large_count \<and>
     large_size c = 2 ^ k \<and> sz \<le> large_size c \<and> large_size c < 2 * sz
   else large_new sz = Inr None"
proof -
  consider "sz \<le> 512" | "512 < sz" "sz \<le> 524288" | "524288 < sz" by linarith
  then show ?thesis
  proof cases
    case 1
    then show ?thesis by (simp add: large_new_panics)
  next
    case 2
    then obtain c where c: "large_new sz = Inr (Some c)" "large_index c < 10" "large_size c = next_power_of_two sz"
      by (rule large_new_Some)
    obtain k where k: "next_power_of_two sz = 2 ^ k" "sz \<le> 2 ^ k" "0 < k" "2 ^ (k - 1) < sz"
      using next_power_of_two_spec [of sz] 2 by auto
    from k(3,4) have "2 ^ k < 2 * sz" by (cases k) simp_all
    with c k 2 show ?thesis by (auto simp: size_values)
  qed (simp add: size_values large_new_def)
qed

subsection \<open>Properties\<close>

text \<open>
  Every request has the right class. Up to 1016 bytes it is the small class with the tightest multiple
  of eight bytes; above, up to 512 KiB, the large class with the least power of two, less than twice
  the request; larger requests have neither. A request of 512 bytes or less has no large class: it fails
  the four-bit bound of the class number, which the order of the two tests in the allocator prevents.
\<close>

theorem request_class:
  "(if sz \<le> small_size_max
    then \<exists>c. small_new sz = Inr (Some c) \<and> sz \<le> small_size c \<and> small_size c < sz + 8 \<and>
      (\<forall>c'. sz \<le> small_size c' \<longrightarrow> small_size c \<le> small_size c')
    else small_new sz = Inr None) \<and>
   (if sz \<le> 512 then large_new sz = Inl (Assertion ''u4'')
    else if sz \<le> large_size_max
    then \<exists>c k. large_new sz = Inr (Some c) \<and> large_index c < large_count \<and>
      large_size c = 2 ^ k \<and> sz \<le> large_size c \<and> large_size c < 2 * sz
    else large_new sz = Inr None)"
  using small_new_tight [of sz] large_new_cases [of sz] by (rule conjI)

theorem request_class_witness:
  "(\<exists>c. small_new 100 = Inr (Some c) \<and> 100 \<le> small_size c \<and> small_size c < 108) \<and> small_new 1017 = Inr None \<and>
   (\<exists>c k. large_new 1017 = Inr (Some c) \<and> large_size c = 2 ^ k \<and> 1017 \<le> large_size c \<and> large_size c < 2034)"
  using request_class [of 100] request_class [of 1017] by (auto simp: size_values)

end
