(* ===== verification/Bracket.thy ===== *)
theory Bracket
  imports Size
begin

text \<open>
  The recovery log's states (\<open>cxlalloc/src/recover.rs\<close>) and the \<open>Bracket\<close> trait
  (\<open>cxlalloc/src/size.rs\<close>) as a record of its constants and methods, with the laws the heap
  relies on as a locale and both brackets as interpretations of it.
\<close>

subsection \<open>Recovery states\<close>

text \<open>
  A slab index is the \<open>NonZeroU32\<close> of the code (so 0 stands for no slab and is never an
  index); a version is the 16-bit word of \<open>cas::Version\<close>.
\<close>

datatype 'c heap_state =
    UnsizedToSized "nat option" 'c
  | GlobalToUnsized nat "16 word"
  | BumpToUnsized "nat option" "16 word"
  | UnsizedToGlobalSave nat
  | UnsizedToGlobal nat "16 word"
  | SizedToApplication nat bit_addr
  | ApplicationToSized nat bit_addr
  | Remote nat "16 word" bool
  | Detach nat "16 word"

datatype state = SmallState "small heap_state" | LargeState "large heap_state"

subsection \<open>Brackets\<close>

record 'c bracket =
  b_name :: string
  SIZE_SLAB :: nat
  COUNT :: nat
  ROWS :: nat
  b_new :: "nat \<Rightarrow> 'c option res"
  b_is_zero :: "'c \<Rightarrow> bool"
  b_size :: "'c \<Rightarrow> nat"
  b_blocks :: "'c \<Rightarrow> nat"
  b_from_index :: "nat \<Rightarrow> 'c option"
  b_index :: "'c \<Rightarrow> nat"
  into_state :: "'c heap_state \<Rightarrow> state"

definition small_bracket :: "small bracket" where
  "small_bracket = \<lparr>b_name = ''small'', SIZE_SLAB = small_size_slab, COUNT = small_count, ROWS = small_rows,
     b_new = small_new, b_is_zero = small_is_zero, b_size = small_size, b_blocks = small_blocks,
     b_from_index = small_from_index, b_index = small_index, into_state = SmallState\<rparr>"

definition large_bracket :: "large bracket" where
  "large_bracket = \<lparr>b_name = ''large'', SIZE_SLAB = large_size_slab, COUNT = large_count, ROWS = large_rows,
     b_new = large_new, b_is_zero = large_is_zero, b_size = large_size, b_blocks = large_blocks,
     b_from_index = large_from_index, b_index = large_index, into_state = LargeState\<rparr>"

text \<open>A class blocks can be allocated from: in the bracket's array and not the zero class.\<close>

definition class_ok :: "'c bracket \<Rightarrow> 'c \<Rightarrow> bool" where
  "class_ok B c \<longleftrightarrow> b_index B c < COUNT B \<and> \<not> b_is_zero B c"

locale bracket_laws =
  fixes B :: "'c bracket"
  assumes slab_pos: "0 < SIZE_SLAB B"
    and slab_max: "SIZE_SLAB B \<le> 2 ^ 30"
    and rows_max: "ROWS B \<le> 64"
    and size_pos: "class_ok B c \<Longrightarrow> 0 < b_size B c"
    and blocks_pos: "class_ok B c \<Longrightarrow> 0 < b_blocks B c"
    and blocks_rows: "class_ok B c \<Longrightarrow> b_blocks B c \<le> 64 * ROWS B"
    and blocks_fit: "class_ok B c \<Longrightarrow> b_size B c * b_blocks B c \<le> SIZE_SLAB B"
    and from_index: "b_from_index B (b_index B c) = Some c"
    and index_onto: "i < COUNT B \<Longrightarrow> \<exists>c. b_from_index B i = Some c \<and> b_index B c = i"
begin

lemma index_inj: "b_index B c = b_index B c' \<longleftrightarrow> c = c'"
  by (metis from_index option.inject)

lemma blocks_u16: "class_ok B c \<Longrightarrow> b_blocks B c < 2 ^ 16"
  using blocks_rows [of c] rows_max by simp

lemma block_in_slab:
  assumes "class_ok B c" and "k < b_blocks B c"
  shows "k * b_size B c + b_size B c \<le> SIZE_SLAB B"
proof -
  have "(k + 1) * b_size B c \<le> b_blocks B c * b_size B c" using assms(2) by (intro mult_right_mono) simp_all
  with blocks_fit [OF assms(1)] show ?thesis by (simp add: mult.commute)
qed

end

lemma small_class_ok: "class_ok small_bracket c \<longleftrightarrow> \<not> small_is_zero c"
  using small_index_less [of c] by (simp add: class_ok_def small_bracket_def size_values)

lemma large_class_ok: "class_ok large_bracket c \<longleftrightarrow> large_index c < 10"
  by (simp add: class_ok_def large_bracket_def size_values large_is_zero_def)

interpretation small: bracket_laws small_bracket
proof
  fix c i
  show "0 < b_size small_bracket c" if "class_ok small_bracket c"
    using that by (simp add: small_class_ok small_is_zero_def) (simp add: small_bracket_def small_size_def)
  show "0 < b_blocks small_bracket c" "b_blocks small_bracket c \<le> 64 * ROWS small_bracket"
    if "class_ok small_bracket c"
    using small_blocks_bounds [of c] that by (simp_all add: small_class_ok) (simp_all add: small_bracket_def)
  show "b_size small_bracket c * b_blocks small_bracket c \<le> SIZE_SLAB small_bracket"
    using small_fits [of c] by (simp add: small_bracket_def)
  show "\<exists>c. b_from_index small_bracket i = Some c \<and> b_index small_bracket c = i" if "i < COUNT small_bracket"
    using that by (intro exI [of _ "Small (of_nat i)"])
      (simp add: small_bracket_def size_values small_from_index_def unat_of_nat)
qed (simp_all add: small_bracket_def size_values)

interpretation large: bracket_laws large_bracket
proof
  fix c i
  show "0 < b_size large_bracket c"
    by (simp add: large_bracket_def large_size_def size_values)
  show "0 < b_blocks large_bracket c" "b_blocks large_bracket c \<le> 64 * ROWS large_bracket"
    "b_size large_bracket c * b_blocks large_bracket c \<le> SIZE_SLAB large_bracket"
    if "class_ok large_bracket c"
  proof -
    have i: "large_index c < 10" using that by (simp add: large_class_ok)
    have "(2 :: nat) ^ (9 - large_index c) \<le> 2 ^ 9" by (intro power_increasing) simp_all
    then show "0 < b_blocks large_bracket c" "b_blocks large_bracket c \<le> 64 * ROWS large_bracket"
      using i by (simp_all add: large_bracket_def large_blocks_eq size_values)
    show "b_size large_bracket c * b_blocks large_bracket c \<le> SIZE_SLAB large_bracket"
      using large_fits [OF i] by (simp add: large_bracket_def)
  qed
  show "\<exists>c. b_from_index large_bracket i = Some c \<and> b_index large_bracket c = i" if "i < COUNT large_bracket"
    using that by (intro exI [of _ "Large (of_nat i)"])
      (simp add: large_bracket_def size_values large_from_index_def unat_of_nat)
qed (simp_all add: large_bracket_def size_values)

end
