(* ===== verification/Cas.thy ===== *)
theory Cas
  imports Bracket
begin

text \<open>
  The detectable compare-and-swap cell (\<open>cxlalloc/src/cas.rs\<close>), the per-thread context it
  logs through (\<open>cxlalloc/src/allocator.rs\<close>, \<open>Context\<close>) and thread identities
  (\<open>cxlalloc/src/thread.rs\<close>). This theory runs one operation at a time; the interleaving of
  the memory accesses inside an update is in \<open>Cas_Steps\<close>.

  A cell can live anywhere in a larger state, so each operation takes the functions that read
  and write it. Cache-line flushes and fences do not change the value of any location and have
  no counterpart.
\<close>

subsection \<open>Threads and context\<close>

text \<open>
  A thread id is the \<open>NonZeroU16\<close> of the code: 1 to 512. \<open>help_arr\<close> is indexed by the
  observing thread and then by the observed one, \<open>log_state\<close> by thread.
\<close>

definition thread_new :: "nat \<Rightarrow> nat res" where
  "thread_new n = andthen (require (n < COUNT_THREAD) (Assertion ''thread id'')) (\<lambda>_. Inr (n + 1))"

definition thread_to_u16 :: "nat \<Rightarrow> nat" where
  "thread_to_u16 t = t - 1"

record ctx =
  help_arr :: "nat \<Rightarrow> nat \<Rightarrow> 16 word"
  log_state :: "nat \<Rightarrow> state option"

definition log_unsync :: "config \<Rightarrow> nat \<Rightarrow> state \<Rightarrow> 'z ctx_scheme \<Rightarrow> 'z ctx_scheme" where
  "log_unsync cfg t st s =
     (if recover_log cfg then s\<lparr>log_state := (log_state s)(t := Some st)\<rparr> else s)"

definition ctx_log :: "config \<Rightarrow> nat \<Rightarrow> state \<Rightarrow> 'z ctx_scheme \<Rightarrow> 'z ctx_scheme" where
  "ctx_log cfg t st s = (if recover_log cfg then log_unsync cfg t st s else s)"

subsection \<open>Cells\<close>

record 'v cell =
  c_id :: "nat option"
  c_version :: "16 word"
  c_inner :: 'v

definition version_next :: "16 word \<Rightarrow> 16 word" where
  "version_next v = v + 1"

definition help_load :: "nat \<Rightarrow> nat \<Rightarrow> 'z ctx_scheme \<Rightarrow> 16 word" where
  "help_load i j s = help_arr s i j"

definition help_store :: "nat \<Rightarrow> nat \<Rightarrow> 16 word \<Rightarrow> 'z ctx_scheme \<Rightarrow> 'z ctx_scheme" where
  "help_store i j v s = s\<lparr>help_arr := (help_arr s)(i := (help_arr s i)(j := v))\<rparr>"

definition det_help :: "config \<Rightarrow> nat \<Rightarrow> 'v cell \<Rightarrow> 'z ctx_scheme \<Rightarrow> 'z ctx_scheme" where
  "det_help cfg t c s =
     (if \<not> recover_cas cfg then s
      else case c_id c of None \<Rightarrow> s | Some j \<Rightarrow> help_store t j (c_version c) s)"

definition det_load ::
  "config \<Rightarrow> ('z ctx_scheme \<Rightarrow> 'v cell) \<Rightarrow> nat \<Rightarrow> 'z ctx_scheme \<Rightarrow> 'v \<times> 'z ctx_scheme" where
  "det_load cfg get t s = (let old = get s in (c_inner old, det_help cfg t old s))"

definition det_store ::
  "config \<Rightarrow> ('z ctx_scheme \<Rightarrow> 'v cell) \<Rightarrow> ('v cell \<Rightarrow> 'z ctx_scheme \<Rightarrow> 'z ctx_scheme) \<Rightarrow>
   nat \<Rightarrow> 'v \<Rightarrow> 'z ctx_scheme \<Rightarrow> 'z ctx_scheme" where
  "det_store cfg get put t v s =
     (let old = get s in put \<lparr>c_id = Some t, c_version = 0, c_inner = v\<rparr> (det_help cfg t old s))"

text \<open>
  \<open>update\<close> with no other thread between the load and the compare-exchange, which then
  succeeds at once (the loop with interference is \<open>Cas_Steps.step\<close>). The closure may panic,
  may write other parts of the state, and may refuse (\<open>None\<close>).
\<close>

definition det_update ::
  "config \<Rightarrow> ('z ctx_scheme \<Rightarrow> 'v cell) \<Rightarrow> ('v cell \<Rightarrow> 'z ctx_scheme \<Rightarrow> 'z ctx_scheme) \<Rightarrow>
   nat \<Rightarrow> ('v \<Rightarrow> 16 word \<Rightarrow> 'z ctx_scheme \<Rightarrow> ('z ctx_scheme \<times> ('v \<times> state) option) res) \<Rightarrow>
   'z ctx_scheme \<Rightarrow> ('v option \<times> 'z ctx_scheme) res" where
  "det_update cfg get put t next s =
     (let version = version_next (help_load t t s);
          s1 = (if recover_cas cfg then help_store t t version s else s);
          old = get s1;
          s2 = det_help cfg t old s1 in
      andthen (next (c_inner old) version s2) (\<lambda>(s3, r).
      case r of
        None \<Rightarrow> Inr (None, s3)
      | Some (new, st) \<Rightarrow>
          let s4 = log_unsync cfg t st s3 in
          Inr (Some (c_inner old), put \<lparr>c_id = Some t, c_version = version, c_inner = new\<rparr> s4)))"

definition det_detect ::
  "('z ctx_scheme \<Rightarrow> 'v cell) \<Rightarrow> nat \<Rightarrow> 16 word \<Rightarrow> 'z ctx_scheme \<Rightarrow> bool res" where
  "det_detect get t version s =
     andthen (require (help_load t t s = version) (Assertion ''help'')) (\<lambda>_.
     let c = get s in
     Inr (c_id c = Some t \<and> c_version c = version \<or>
       1 < length (filter (\<lambda>i. help_arr s i t = version) [1..<COUNT_THREAD + 1])))"

subsection \<open>What helping and logging touch\<close>

lemma help_store_simps [simp]:
  "help_arr (help_store i j v s) = (help_arr s)(i := (help_arr s i)(j := v))"
  "log_state (help_store i j v s) = log_state s"
  "ctx.more (help_store i j v s) = ctx.more s"
  by (simp_all add: help_store_def)

lemma log_unsync_simps [simp]:
  "help_arr (log_unsync cfg t st s) = help_arr s"
  "ctx.more (log_unsync cfg t st s) = ctx.more s"
  by (simp_all add: log_unsync_def)

lemma ctx_log_eq: "ctx_log cfg t st s = log_unsync cfg t st s"
  by (simp add: ctx_log_def log_unsync_def)

lemma det_help_simps [simp]:
  "log_state (det_help cfg t c s) = log_state s"
  "ctx.more (det_help cfg t c s) = ctx.more s"
  by (simp_all add: det_help_def split: option.splits)

lemma help_det_help:
  "help_arr (det_help cfg t c s) i j =
     (if recover_cas cfg \<and> i = t \<and> c_id c = Some j then c_version c else help_arr s i j)"
  by (auto simp: det_help_def split: option.splits)

text \<open>
  A function of the state depends only on what the record extension holds when helping and
  logging do not change it.
\<close>

definition ctx_free :: "('z ctx_scheme \<Rightarrow> 'a) \<Rightarrow> bool" where
  "ctx_free f \<longleftrightarrow> (\<forall>s s'. ctx.more s = ctx.more s' \<longrightarrow> f s = f s')"

definition thread_ok :: "nat \<Rightarrow> bool" where
  "thread_ok t \<longleftrightarrow> 1 \<le> t \<and> t \<le> COUNT_THREAD"

lemma thread_ok_12 [simp]: "thread_ok 1" "thread_ok (Suc 0)" "thread_ok 2"
  by (simp_all add: thread_ok_def COUNT_THREAD_def)

lemma length_filter_upt_gt_1:
  assumes "P t" and "a \<le> t" and "t < n"
  shows "1 < length (filter P [a..<n]) \<longleftrightarrow> (\<exists>w. w \<noteq> t \<and> a \<le> w \<and> w < n \<and> P w)"
proof -
  let ?A = "set (filter P [a..<n])"
  have "length (filter P [a..<n]) = card ?A" by (subst distinct_card) auto
  moreover have "card ?A = 1 + card (?A - {t})"
    using assms by (subst card.remove [of _ t]) auto
  moreover have "0 < card (?A - {t}) \<longleftrightarrow> (\<exists>w. w \<noteq> t \<and> a \<le> w \<and> w < n \<and> P w)"
    by (auto simp: card_gt_0_iff)
  ultimately show ?thesis by simp
qed

text \<open>When its assertion holds, \<open>detect\<close> asks the cell and every other observer.\<close>

lemma det_detect_eq:
  assumes "thread_ok t"
  shows "det_detect get t v s =
    (if help_arr s t t = v
     then Inr (c_id (get s) = Some t \<and> c_version (get s) = v \<or>
       (\<exists>w. w \<noteq> t \<and> thread_ok w \<and> help_arr s w t = v))
     else Inl (Assertion ''help''))"
proof (cases "help_arr s t t = v")
  case True
  have "1 < length (filter (\<lambda>i. help_arr s i t = v) [1..<COUNT_THREAD + 1]) \<longleftrightarrow>
      (\<exists>w. w \<noteq> t \<and> 1 \<le> w \<and> w < COUNT_THREAD + 1 \<and> help_arr s w t = v)"
    using assms True by (intro length_filter_upt_gt_1) (auto simp: thread_ok_def)
  then have "1 < length (filter (\<lambda>i. help_arr s i t = v) [1..<COUNT_THREAD + 1]) \<longleftrightarrow>
      (\<exists>w. w \<noteq> t \<and> thread_ok w \<and> help_arr s w t = v)"
    by (auto simp: thread_ok_def less_Suc_eq_le)
  with True show ?thesis by (simp add: det_detect_def help_load_def Let_def del: upt_Suc)
qed (simp add: det_detect_def help_load_def)

subsection \<open>Memory of cells\<close>

text \<open>The smallest state with more than one cell: an array of cells sharing one help array.\<close>

record 'v mem = ctx + cells :: "nat \<Rightarrow> 'v cell"

definition cell_at :: "nat \<Rightarrow> 'v mem \<Rightarrow> 'v cell" where
  "cell_at a s = cells s a"

definition set_cell :: "nat \<Rightarrow> 'v cell \<Rightarrow> 'v mem \<Rightarrow> 'v mem" where
  "set_cell a c s = s\<lparr>cells := (cells s)(a := c)\<rparr>"

definition mem_load :: "config \<Rightarrow> nat \<Rightarrow> nat \<Rightarrow> 'v mem \<Rightarrow> 'v \<times> 'v mem" where
  "mem_load cfg a t s = det_load cfg (cell_at a) t s"

definition mem_update ::
  "config \<Rightarrow> nat \<Rightarrow> nat \<Rightarrow> ('v \<Rightarrow> 16 word \<Rightarrow> ('v \<times> state) option) \<Rightarrow> 'v mem \<Rightarrow> 'v option \<times> 'v mem" where
  "mem_update cfg a t f s =
     (case det_update cfg (cell_at a) (set_cell a) t (\<lambda>v ver s. Inr (s, f v ver)) s of
        Inl e \<Rightarrow> (None, s) | Inr r \<Rightarrow> r)"

definition mem_detect :: "nat \<Rightarrow> nat \<Rightarrow> 16 word \<Rightarrow> 'v mem \<Rightarrow> bool res" where
  "mem_detect a t version s = det_detect (cell_at a) t version s"

lemma mem_more [simp]:
  "cells (help_store i j v s) = cells s"
  "cells (log_unsync cfg t st s) = cells s"
  "cells (det_help cfg t c s) = cells s"
  by (simp_all add: help_store_def log_unsync_def det_help_def split: option.splits)

lemma mem_update_eq:
  "mem_update cfg a t f s =
     (let version = version_next (help_arr s t t);
          s2 = det_help cfg t (cells s a) (if recover_cas cfg then help_store t t version s else s) in
      case f (c_inner (cells s a)) version of
        None \<Rightarrow> (None, s2)
      | Some (new, st) \<Rightarrow> (Some (c_inner (cells s a)),
          set_cell a \<lparr>c_id = Some t, c_version = version, c_inner = new\<rparr> (log_unsync cfg t st s2)))"
  by (simp add: mem_update_def det_update_def cell_at_def help_load_def Let_def split: option.splits)

subsection \<open>Properties\<close>

text \<open>
  A thread that updates a cell it was the last to update overwrites its own help entry with
  the older version it found there, so asking whether the second update took effect fails the
  assertion of \<open>detect\<close> although the update is in the cell.
\<close>

theorem detect_fails_after_own_update:
  assumes "recover_cas cfg" and "c_id (cells s a) = Some t"
    and "c_version (cells s a) \<noteq> version_next (help_arr s t t)"
    and "mem_update cfg a t f s = (Some old, s')"
  shows "c_id (cells s' a) = Some t \<and> c_version (cells s' a) = version_next (help_arr s t t) \<and>
    mem_detect a t (version_next (help_arr s t t)) s' = Inl (Assertion ''help'')"
  using assms
  by (auto simp: mem_update_eq Let_def mem_detect_def det_detect_def help_load_def help_det_help
    set_cell_def cell_at_def split: option.splits)

definition mem_init :: "'v \<Rightarrow> 'v mem" where
  "mem_init v = \<lparr>help_arr = (\<lambda>_ _. 0), log_state = (\<lambda>_. None),
     cells = (\<lambda>_. \<lparr>c_id = None, c_version = 0, c_inner = v\<rparr>)\<rparr>"

definition push_state :: "nat \<Rightarrow> 16 word \<Rightarrow> (nat \<times> state) option" where
  "push_state v ver = Some (v + 1, SmallState (UnsizedToGlobal (v + 1) ver))"

lemmas mem_run =
  mem_update_eq mem_load_def det_load_def mem_init_def push_state_def set_cell_def version_next_def
  cfg_debug_def det_help_def cell_at_def Let_def

theorem detect_fails_after_own_update_witness:
  "\<exists>s1 s2. mem_update cfg_debug 0 1 push_state (mem_init 0) = (Some 0, s1) \<and>
     mem_detect 0 1 1 s1 = Inr True \<and>
     mem_update cfg_debug 0 1 push_state s1 = (Some 1, s2) \<and>
     c_inner (cells s2 0) = 2 \<and> mem_detect 0 1 2 s2 = Inl (Assertion ''help'')"
proof -
  obtain s1 where up1: "mem_update cfg_debug 0 1 push_state (mem_init 0) = (Some 0, s1)"
    and s1: "help_arr s1 1 1 = 1" "cells s1 0 = \<lparr>c_id = Some 1, c_version = 1, c_inner = 1\<rparr>"
    by (simp add: mem_run)
  obtain s2 where up2: "mem_update cfg_debug 0 1 push_state s1 = (Some 1, s2)" "c_inner (cells s2 0) = 2"
    using s1 by (simp add: mem_update_eq Let_def push_state_def set_cell_def)
  have "mem_detect 0 1 (version_next (help_arr s1 1 1)) s2 = Inl (Assertion ''help'')"
    using detect_fails_after_own_update [OF _ _ _ up2(1)] s1 by (simp add: cfg_debug_def version_next_def)
  moreover have "mem_detect 0 1 1 s1 = Inr True"
    using s1 by (simp add: mem_detect_def det_detect_eq cell_at_def)
  ultimately show ?thesis using up1 up2 s1 by (simp add: version_next_def)
qed

text \<open>
  C31: the help array is shared by all cells, and an observer keeps only the version it saw last.
  Thread 1 updates cell 0, then cell 1; thread 2 replaces thread 1's value in cell 1 (recording its
  version) and then reads cell 0, which replaces that record by the older version. The update of
  cell 1 took effect and was observed, yet \<open>detect\<close> answers no.
\<close>

theorem detect_misses_observed_update:
  "let s1 = snd (mem_update cfg_debug 0 1 push_state (mem_init 0));
       s2 = snd (mem_update cfg_debug 1 1 push_state s1);
       s3 = snd (mem_update cfg_debug 1 2 push_state s2);
       s4 = snd (mem_load cfg_debug 0 2 s3) in
   c_inner (cells s4 1) = 2 \<and> mem_detect 1 1 2 s3 = Inr True \<and> mem_detect 1 1 2 s4 = Inr False"
proof -
  define s1 where "s1 = snd (mem_update cfg_debug 0 1 push_state (mem_init 0))"
  define s2 where "s2 = snd (mem_update cfg_debug 1 1 push_state s1)"
  define s3 where "s3 = snd (mem_update cfg_debug 1 2 push_state s2)"
  define s4 where "s4 = snd (mem_load cfg_debug 0 2 s3)"
  have h1: "help_arr s1 = (\<lambda>_ _. 0)(1 := (\<lambda>_. 0)(1 := 1))"
    "cells s1 = (\<lambda>_. \<lparr>c_id = None, c_version = 0, c_inner = 0\<rparr>)(0 := \<lparr>c_id = Some 1, c_version = 1, c_inner = 1\<rparr>)"
    by (simp_all add: s1_def mem_run fun_eq_iff)
  have h2: "help_arr s2 = (\<lambda>_ _. 0)(1 := (\<lambda>_. 0)(1 := 2))"
    "cells s2 = (cells s1)(1 := \<lparr>c_id = Some 1, c_version = 2, c_inner = 1\<rparr>)"
    by (simp_all add: s2_def mem_run h1)
  have h3: "help_arr s3 = (\<lambda>_ _. 0)(1 := (\<lambda>_. 0)(1 := 2), 2 := (\<lambda>_. 0)(1 := 2, 2 := 1))"
    "cells s3 = (cells s2)(1 := \<lparr>c_id = Some 2, c_version = 1, c_inner = 2\<rparr>)"
    by (simp_all add: s3_def mem_run h2 fun_eq_iff)
  have h4: "help_arr s4 = (help_arr s3)(2 := (help_arr s3 2)(1 := 1))" "cells s4 = cells s3"
    by (simp_all add: s4_def mem_run h3 h2 h1)
  have "help_arr s3 1 1 = 2" "help_arr s3 2 1 = 2" unfolding h3 by simp_all
  then have "\<exists>w. w \<noteq> 1 \<and> thread_ok w \<and> help_arr s3 w 1 = 2" by (intro exI [of _ 2]) simp
  with \<open>help_arr s3 1 1 = 2\<close> have "mem_detect 1 1 2 s3 = Inr True"
    unfolding mem_detect_def by (simp only: det_detect_eq thread_ok_12 if_True simp_thms)
  moreover have "mem_detect 1 1 2 s4 = Inr False"
  proof -
    have "help_arr s4 1 1 = 2" and "c_id (cells s4 1) = Some 2" unfolding h4 h3 by simp_all
    moreover have "help_arr s4 w 1 \<noteq> 2" if "w \<noteq> 1" for w
      using that unfolding h4 h3 by simp
    ultimately show ?thesis
      unfolding mem_detect_def det_detect_eq [OF thread_ok_12(1)] cell_at_def by (simp, blast)
  qed
  moreover have "c_inner (cells s4 1) = 2" by (simp add: h4 h3)
  ultimately show ?thesis by (simp add: s1_def s2_def s3_def s4_def Let_def)
qed

end
