(* ===== verification/Cas_Steps.thy ===== *)
theory Cas_Steps
  imports Cas
begin

text \<open>
  The interleaving of detectable updates and loads by many threads (\<open>cxlalloc/src/cas.rs\<close>,
  \<open>update\<close>, \<open>load\<close> and \<open>help\<close>), one shared-memory access per step, with crashes
  between any two of them. The lemmas show that a run is a sequence of atomic updates, that an
  undisturbed update is the one-operation \<open>mem_update\<close>, and that \<open>detect\<close> is exact for
  a version that is fresh everywhere.
\<close>

subsection \<open>Steps\<close>

text \<open>
  Where a thread stands inside \<open>update\<close> of the cell at an address (with its version, the
  value it loaded, and the value it is about to install) or inside \<open>load\<close>.
\<close>

datatype 'v pc =
    Idle
  | Started nat "16 word"
  | Loaded nat "16 word" "'v cell"
  | Helped nat "16 word" "'v cell"
  | Logged nat "16 word" "'v cell" 'v
  | Observed "'v cell"

datatype label = Tau | Begin nat nat "16 word" | Commit nat nat "16 word"

type_synonym 'v sys = "'v mem \<times> (nat \<Rightarrow> 'v pc)"
type_synonym 'v closure = "nat \<Rightarrow> 'v \<Rightarrow> 16 word \<Rightarrow> ('v \<times> state) option"

inductive step :: "config \<Rightarrow> 'v closure \<Rightarrow> nat \<Rightarrow> 'v sys \<Rightarrow> label \<Rightarrow> 'v sys \<Rightarrow> bool"
  for cfg :: config and f :: "'v closure" and t :: nat where
  step_begin:
    "p t = Idle \<Longrightarrow> v = version_next (help_load t t m) \<Longrightarrow>
     step cfg f t (m, p) (Begin t a v)
       (if recover_cas cfg then help_store t t v m else m, p(t := Started a v))"
| step_load:
    "p t = Started a v \<Longrightarrow> step cfg f t (m, p) Tau (m, p(t := Loaded a v (cell_at a m)))"
| step_help:
    "p t = Loaded a v old \<Longrightarrow> step cfg f t (m, p) Tau (det_help cfg t old m, p(t := Helped a v old))"
| step_refuse:
    "p t = Helped a v old \<Longrightarrow> f a (c_inner old) v = None \<Longrightarrow>
     step cfg f t (m, p) Tau (m, p(t := Idle))"
| step_log:
    "p t = Helped a v old \<Longrightarrow> f a (c_inner old) v = Some (new, st) \<Longrightarrow>
     step cfg f t (m, p) Tau (log_unsync cfg t st m, p(t := Logged a v old new))"
| step_cas:
    "p t = Logged a v old new \<Longrightarrow> cell_at a m = old \<Longrightarrow>
     step cfg f t (m, p) (Commit t a v)
       (set_cell a \<lparr>c_id = Some t, c_version = v, c_inner = new\<rparr> m, p(t := Idle))"
| step_retry:
    "p t = Logged a v old new \<Longrightarrow> cell_at a m \<noteq> old \<Longrightarrow>
     step cfg f t (m, p) Tau (m, p(t := Loaded a v (cell_at a m)))"
| step_observe:
    "p t = Idle \<Longrightarrow> step cfg f t (m, p) Tau (m, p(t := Observed (cell_at a m)))"
| step_observed:
    "p t = Observed c \<Longrightarrow> step cfg f t (m, p) Tau (det_help cfg t c m, p(t := Idle))"
| step_crash:
    "step cfg f t (m, p) Tau (m, p(t := Idle))"

inductive run :: "config \<Rightarrow> 'v closure \<Rightarrow> 'v sys \<Rightarrow> label list \<Rightarrow> 'v sys \<Rightarrow> bool"
  for cfg :: config and f :: "'v closure" where
  run_refl: "run cfg f s [] s"
| run_step: "run cfg f s tr s' \<Longrightarrow> thread_ok t \<Longrightarrow> step cfg f t s' l s'' \<Longrightarrow> run cfg f s (tr @ [l]) s''"

inductive_cases stepE: "step cfg f t (m, p) l (m', p')"

lemma cells_set_cell [simp]: "cells (set_cell a c m) = (cells m)(a := c)"
  by (simp add: set_cell_def)

lemma help_set_cell [simp]: "help_arr (set_cell a c m) = help_arr m"
  by (simp add: set_cell_def)

subsection \<open>Atomicity\<close>

text \<open>The value of a cell after applying the committed updates of a trace one after the other.\<close>

fun replay :: "'v closure \<Rightarrow> nat \<Rightarrow> label list \<Rightarrow> 'v \<Rightarrow> 'v option" where
  "replay f a [] x = Some x"
| "replay f a (Commit t b v # tr) x =
     (if b = a then (case f a x v of None \<Rightarrow> None | Some (y, st) \<Rightarrow> replay f a tr y) else replay f a tr x)"
| "replay f a (Tau # tr) x = replay f a tr x"
| "replay f a (Begin t b v # tr) x = replay f a tr x"

lemma replay_append: "replay f a (tr @ tr') x = Option.bind (replay f a tr x) (replay f a tr')"
  by (induction f a tr x rule: replay.induct) (auto split: option.splits)

definition computed :: "'v closure \<Rightarrow> 'v pc \<Rightarrow> bool" where
  "computed f q \<longleftrightarrow> (case q of
     Logged a v old new \<Rightarrow> (\<exists>st. f a (c_inner old) v = Some (new, st)) | _ \<Rightarrow> True)"

lemma step_computed:
  "step cfg f t (m, p) l (m', p') \<Longrightarrow> \<forall>w. computed f (p w) \<Longrightarrow> \<forall>w. computed f (p' w)"
  by (elim stepE) (auto simp: computed_def)

lemma step_replay:
  assumes "step cfg f t (m, p) l (m', p')" and "\<forall>w. computed f (p w)"
  shows "replay f b [l] (c_inner (cells m b)) = Some (c_inner (cells m' b))"
  using assms(1) assms(2) [rule_format, of t]
  by (elim stepE) (auto simp: computed_def cell_at_def split: if_splits)

lemma run_replay:
  assumes "run cfg f (m, p) tr s'" and "\<forall>w. computed f (p w)"
  shows "(\<forall>w. computed f (snd s' w)) \<and> replay f a tr (c_inner (cells m a)) = Some (c_inner (cells (fst s') a))"
  using assms
proof (induction "(m, p)" tr s' rule: run.induct)
  case (run_step tr s' t l s'')
  obtain m1 p1 m2 p2 where s: "s' = (m1, p1)" "s'' = (m2, p2)" by (cases s', cases s'')
  with run_step step_computed [of cfg f t m1 p1 l m2 p2] step_replay [of cfg f t m1 p1 l m2 p2 a]
  show ?case by (simp add: replay_append)
qed simp

subsection \<open>An update without interference\<close>

inductive solo :: "config \<Rightarrow> 'v closure \<Rightarrow> nat \<Rightarrow> 'v sys \<Rightarrow> label list \<Rightarrow> 'v sys \<Rightarrow> bool"
  for cfg :: config and f :: "'v closure" and t :: nat where
  solo_refl: "solo cfg f t s [] s"
| solo_step: "step cfg f t s l s' \<Longrightarrow> solo cfg f t s' tr s'' \<Longrightarrow> solo cfg f t s (l # tr) s''"

lemma solo_helped:
  fixes cfg :: config and a t :: nat and m :: "'v mem" and p :: "nat \<Rightarrow> 'v pc"
  assumes "p t = Idle"
  defines "v \<equiv> version_next (help_arr m t t)"
  defines "m2 \<equiv> det_help cfg t (cells m a) (if recover_cas cfg then help_store t t v m else m)"
  assumes "solo cfg f t (m2, p(t := Helped a v (cells m a))) tr s'"
  shows "solo cfg f t (m, p) (Begin t a v # Tau # Tau # tr) s'"
proof -
  define m1 where "m1 = (if recover_cas cfg then help_store t t v m else m)"
  have m1: "cells m1 = cells m" by (simp add: m1_def)
  have "step cfg f t (m, p) (Begin t a v) (m1, p(t := Started a v))"
    unfolding m1_def using assms by (intro step_begin) (simp_all add: help_load_def)
  moreover have "step cfg f t (m1, p(t := Started a v)) Tau (m1, p(t := Loaded a v (cells m a)))"
    using step_load [of "p(t := Started a v)" t a v cfg f m1] by (simp add: cell_at_def m1)
  moreover have "step cfg f t (m1, p(t := Loaded a v (cells m a))) Tau (m2, p(t := Helped a v (cells m a)))"
    using step_help [of "p(t := Loaded a v (cells m a))" t a v "cells m a" cfg f m1]
    by (simp add: m2_def m1_def [symmetric])
  ultimately show ?thesis using assms(4) by (blast intro: solo_step)
qed

lemma solo_mem_update:
  fixes cfg :: config and a t :: nat and m :: "'v mem" and p :: "nat \<Rightarrow> 'v pc"
  assumes "p t = Idle"
  defines "v \<equiv> version_next (help_arr m t t)"
  shows "\<exists>tr. solo cfg f t (m, p) (Begin t a v # Tau # Tau # tr) (snd (mem_update cfg a t (f a) m), p) \<and>
    tr \<in> {[Tau], [Tau, Commit t a v]} \<and> (Commit t a v \<in> set tr \<longleftrightarrow> fst (mem_update cfg a t (f a) m) \<noteq> None)"
proof -
  define m2 where "m2 = det_help cfg t (cells m a) (if recover_cas cfg then help_store t t v m else m)"
  let ?p = "p(t := Helped a v (cells m a))" and ?r = "mem_update cfg a t (f a) m"
  have p: "?p(t := Idle) = p" using assms by auto
  have m2: "cells m2 = cells m" by (simp add: m2_def)
  have "\<exists>tr. solo cfg f t (m2, ?p) tr (snd ?r, p) \<and>
    tr \<in> {[Tau], [Tau, Commit t a v]} \<and> (Commit t a v \<in> set tr \<longleftrightarrow> fst ?r \<noteq> None)"
  proof (cases "f a (c_inner (cells m a)) v")
    case None
    then have "step cfg f t (m2, ?p) Tau (m2, p)" using step_refuse [of ?p t a v "cells m a" f cfg m2] p by simp
    moreover have "?r = (None, m2)"
      using None by (simp add: mem_update_eq v_def m2_def Let_def)
    ultimately show ?thesis by (intro exI [of _ "[Tau]"]) (auto intro: solo.intros)
  next
    case (Some r)
    then obtain new st where f: "f a (c_inner (cells m a)) v = Some (new, st)" by (cases r) simp
    let ?m3 = "log_unsync cfg t st m2" and ?q = "p(t := Logged a v (cells m a) new)"
    have "step cfg f t (m2, ?p) Tau (?m3, ?q)" using step_log [of ?p t a v "cells m a" f new st cfg m2] f by simp
    moreover have r: "?r = (Some (c_inner (cells m a)),
        set_cell a \<lparr>c_id = Some t, c_version = v, c_inner = new\<rparr> ?m3)"
      using f unfolding v_def m2_def by (simp add: mem_update_eq Let_def)
    then have "step cfg f t (?m3, ?q) (Commit t a v) (snd ?r, p)"
      using step_cas [of ?q t a v "cells m a" new ?m3 cfg f] assms
      by (simp add: m2 cell_at_def fun_upd_idem)
    ultimately show ?thesis using r by (intro exI [of _ "[Tau, Commit t a v]"]) (auto intro: solo.intros)
  qed
  then show ?thesis
    using solo_helped [where p = p and t = t and cfg = cfg and m = m and a = a and f = f] assms
    unfolding v_def [symmetric] m2_def [symmetric] by meson
qed

inductive_cases solo_ConsE: "solo cfg f t s (l # tr) s'"

lemma run_Cons: "run cfg f s' tr s'' \<Longrightarrow> step cfg f t s l s' \<Longrightarrow> thread_ok t \<Longrightarrow> run cfg f s (l # tr) s''"
proof (induction s' tr s'' rule: run.induct)
  case (run_refl s')
  then show ?case using run_step [OF run.run_refl, of t cfg f s l s'] by simp
next
  case (run_step s' tr s2 w l' s3)
  then show ?case using run.run_step [of cfg f s "l # tr" s2 w l' s3] by simp
qed

lemma solo_run: "solo cfg f t s tr s' \<Longrightarrow> thread_ok t \<Longrightarrow> run cfg f s tr s'"
  by (induction s tr s' rule: solo.induct) (auto intro: run_refl run_Cons)

subsection \<open>Detection\<close>

text \<open>The cell value a thread holds in its local state, and the one it has recorded in its help entry.\<close>

fun snapshot :: "'v pc \<Rightarrow> 'v cell option" where
  "snapshot (Loaded a v c) = Some c"
| "snapshot (Helped a v c) = Some c"
| "snapshot (Logged a v c new) = Some c"
| "snapshot (Observed c) = Some c"
| "snapshot q = None"

fun helped_snapshot :: "'v pc \<Rightarrow> 'v cell option" where
  "helped_snapshot (Helped a v c) = Some c"
| "helped_snapshot (Logged a v c new) = Some c"
| "helped_snapshot q = None"

fun updating :: "nat \<Rightarrow> 16 word \<Rightarrow> 'v pc \<Rightarrow> bool" where
  "updating a v (Started b u) = (b = a \<and> u = v)"
| "updating a v (Loaded b u c) = (b = a \<and> u = v)"
| "updating a v (Helped b u c) = (b = a \<and> u = v)"
| "updating a v (Logged b u c new) = (b = a \<and> u = v)"
| "updating a v q = False"

text \<open>Nothing in the memory or in any thread's hands carries an update of thread \<open>t\<close>.\<close>

definition no_trace :: "nat \<Rightarrow> 'v sys \<Rightarrow> bool" where
  "no_trace t s \<longleftrightarrow> (\<forall>a. c_id (cells (fst s) a) \<noteq> Some t) \<and>
     (\<forall>w c. snapshot (snd s w) = Some c \<longrightarrow> c_id c \<noteq> Some t)"

definition witnessed :: "nat \<Rightarrow> nat \<Rightarrow> 16 word \<Rightarrow> 'v mem \<Rightarrow> bool" where
  "witnessed t a v m \<longleftrightarrow> c_id (cells m a) = Some t \<and> c_version (cells m a) = v \<or>
     (\<exists>w. w \<noteq> t \<and> thread_ok w \<and> help_arr m w t = v)"

text \<open>
  The invariant of a run in which thread \<open>t\<close> has begun one update of cell \<open>a\<close> with version
  \<open>v\<close>; \<open>com\<close> tells whether its compare-exchange has succeeded.
\<close>

definition detect_inv :: "nat \<Rightarrow> nat \<Rightarrow> 16 word \<Rightarrow> bool \<Rightarrow> 'v sys \<Rightarrow> bool" where
  "detect_inv t a v com s \<longleftrightarrow> (case s of (m, p) \<Rightarrow>
     help_arr m t t = v \<and>
     (\<forall>b. c_id (cells m b) = Some t \<longrightarrow> com \<and> b = a \<and> c_version (cells m b) = v) \<and>
     (\<forall>w c. snapshot (p w) = Some c \<longrightarrow> c_id c = Some t \<longrightarrow> com \<and> c_version c = v) \<and>
     (\<forall>w c. helped_snapshot (p w) = Some c \<longrightarrow> c_id c = Some t \<longrightarrow> help_arr m w t = v) \<and>
     (witnessed t a v m \<longleftrightarrow> com) \<and>
     (\<forall>b u. updating b u (p t) \<longrightarrow> \<not> com \<and> b = a \<and> u = v))"

lemma helped_snapshot_snapshot: "helped_snapshot q = Some c \<Longrightarrow> snapshot q = Some c"
  by (cases q) simp_all

lemma detect_inv_begin:
  assumes "no_trace t (m, p)" and "recover_cas cfg" and "step cfg f t (m, p) (Begin t a v) (m', p')"
    and "\<forall>w. w \<noteq> t \<longrightarrow> help_arr m w t \<noteq> v"
  shows "detect_inv t a v False (m', p')"
  using assms(3)
proof cases
  case step_begin
  then have m': "m' = help_store t t v m" and p': "p' = p(t := Started a v)" using assms(2) by simp_all
  show ?thesis using assms(1,4)
    by (auto simp: detect_inv_def m' p' no_trace_def witnessed_def dest: helped_snapshot_snapshot
      split: if_splits)
qed

lemma detect_invD:
  assumes "detect_inv t a v com (m, p)"
  shows "help_arr m t t = v"
    and "c_id (cells m b) = Some t \<Longrightarrow> com \<and> b = a \<and> c_version (cells m b) = v"
    and "snapshot (p w) = Some c \<Longrightarrow> c_id c = Some t \<Longrightarrow> com \<and> c_version c = v"
    and "helped_snapshot (p w) = Some c \<Longrightarrow> c_id c = Some t \<Longrightarrow> help_arr m w t = v"
    and "witnessed t a v m \<longleftrightarrow> com"
    and "updating b u (p t) \<Longrightarrow> \<not> com \<and> b = a \<and> u = v"
  using assms unfolding detect_inv_def prod.case by blast+

lemma detect_invI:
  assumes "help_arr m t t = v"
    and "\<And>b. c_id (cells m b) = Some t \<Longrightarrow> com \<and> b = a \<and> c_version (cells m b) = v"
    and "\<And>w c. snapshot (p w) = Some c \<Longrightarrow> c_id c = Some t \<Longrightarrow> com \<and> c_version c = v"
    and "\<And>w c. helped_snapshot (p w) = Some c \<Longrightarrow> c_id c = Some t \<Longrightarrow> help_arr m w t = v"
    and "witnessed t a v m \<longleftrightarrow> com"
    and "\<And>b u. updating b u (p t) \<Longrightarrow> \<not> com \<and> b = a \<and> u = v"
  shows "detect_inv t a v com (m, p)"
  using assms unfolding detect_inv_def prod.case by blast

lemma detect_inv_help:
  assumes inv: "detect_inv t a v com (m, p)" and "recover_cas cfg" and sn: "snapshot (p w) = Some c"
  shows "detect_inv t a v com (det_help cfg w c m, p)" and "c_id c = Some t \<Longrightarrow> help_arr (det_help cfg w c m) w t = v"
proof -
  let ?m = "det_help cfg w c m"
  note D = detect_invD [OF inv]
  have h: "help_arr ?m i t = (if i = w \<and> c_id c = Some t then v else help_arr m i t)" for i
    using D(3) [OF sn] assms(2) by (auto simp: help_det_help)
  then show "c_id c = Some t \<Longrightarrow> help_arr ?m w t = v" by simp
  have "witnessed t a v ?m \<longleftrightarrow> com"
  proof (cases "c_id c = Some t")
    case True
    then have com and "witnessed t a v m" using D(3) [OF sn] D(5) by auto
    then show ?thesis unfolding witnessed_def h mem_more by metis
  next
    case False
    then show ?thesis using D(5) by (simp add: witnessed_def h)
  qed
  then show "detect_inv t a v com (?m, p)"
    using D by (intro detect_invI) (simp_all add: h)
qed

lemma detect_inv_pc:
  assumes inv: "detect_inv t a v com (m, p)"
    and sn: "\<And>c. snapshot q = Some c \<Longrightarrow> snapshot (p w) = Some c \<or> (\<exists>b. c = cells m b)"
    and hs: "\<And>c. helped_snapshot q = Some c \<Longrightarrow> helped_snapshot (p w) = Some c \<or> (c_id c = Some t \<longrightarrow> help_arr m w t = v)"
    and up: "\<And>b u. w = t \<Longrightarrow> updating b u q \<Longrightarrow> updating b u (p w)"
  shows "detect_inv t a v com (m, p(w := q))"
proof (rule detect_invI)
  note D = detect_invD [OF inv]
  show "com \<and> c_version c = v" if s: "snapshot ((p(w := q)) i) = Some c" and id: "c_id c = Some t" for i c
  proof (cases "i = w \<and> snapshot (p w) \<noteq> Some c")
    case True
    then obtain b where "c = cells m b" using s sn by auto
    then show ?thesis using D(2) id by blast
  next
    case False
    then have "snapshot (p i) = Some c" using s by (auto split: if_splits)
    then show ?thesis using D(3) id by blast
  qed
  show "help_arr m i t = v" if "helped_snapshot ((p(w := q)) i) = Some c" "c_id c = Some t" for i c
    using that D(4) hs by (metis fun_upd_apply)
  show "\<not> com \<and> b = a \<and> u = v" if "updating b u ((p(w := q)) t)" for b u
    using that D(6) up by (metis fun_upd_apply)
qed (use detect_invD [OF inv] in blast)+

lemma detect_inv_commit:
  assumes inv: "detect_inv t a v com (m, p)" and pc: "p w = Logged b u (cells m b) new" and "w \<noteq> t" and "thread_ok w"
  shows "detect_inv t a v com (set_cell b \<lparr>c_id = Some w, c_version = u, c_inner = new\<rparr> m, p)"
proof -
  let ?m = "set_cell b \<lparr>c_id = Some w, c_version = u, c_inner = new\<rparr> m"
  note D = detect_invD [OF inv]
  have "helped_snapshot (p w) = Some (cells m b)" by (simp add: pc)
  then have "c_id (cells m b) = Some t \<Longrightarrow> help_arr m w t = v" by (rule D(4))
  then have "witnessed t a v ?m \<longleftrightarrow> witnessed t a v m"
    using assms(3,4) by (auto simp: witnessed_def)
  then show ?thesis using D assms(3) by (intro detect_invI) (auto split: if_splits)
qed

lemma detect_inv_own_commit:
  assumes inv: "detect_inv t a v com (m, p)" and pc: "p t = Logged b u old new"
  shows "\<not> com \<and> b = a \<and> u = v \<and>
    detect_inv t a v True (set_cell b \<lparr>c_id = Some t, c_version = u, c_inner = new\<rparr> m, p(t := Idle))"
proof -
  note D = detect_invD [OF inv]
  have c: "\<not> com" "b = a" "u = v" using D(6) [of b u] by (simp_all add: pc)
  have "witnessed t a v (set_cell a \<lparr>c_id = Some t, c_version = v, c_inner = new\<rparr> m)"
    by (simp add: witnessed_def)
  then have "detect_inv t a v True (set_cell a \<lparr>c_id = Some t, c_version = v, c_inner = new\<rparr> m, p(t := Idle))"
    using D c by (intro detect_invI) (auto split: if_splits)
  with c show ?thesis by simp
qed

lemma detect_inv_step:
  assumes inv: "detect_inv t a v com (m, p)" and st: "step cfg f w (m, p) l (m', p')"
    and cas: "recover_cas cfg" and w: "thread_ok w" and l: "\<And>b u. l \<noteq> Begin t b u"
  shows "detect_inv t a v (com \<or> l = Commit t a v) (m', p')"
  using st
proof cases
  case (step_begin u b)
  have "detect_inv t a v com (help_store w w u m, p)"
  proof -
    have "w \<noteq> t" using l step_begin by blast
    then have "help_arr (help_store w w u m) i t = help_arr m i t" for i by simp
    then have "witnessed t a v (help_store w w u m) = witnessed t a v m"
      unfolding witnessed_def mem_more by presburger
    then show ?thesis using detect_invD [OF inv] \<open>w \<noteq> t\<close> by (intro detect_invI) auto
  qed
  then have "detect_inv t a v com (m', p)" using step_begin cas by simp
  then show ?thesis unfolding step_begin using step_begin l
    by (intro detect_inv_pc) (auto split: if_splits)
next
  case (step_load b u)
  then show ?thesis using inv by (auto intro!: detect_inv_pc simp: cell_at_def)
next
  case (step_help b u old)
  then have "detect_inv t a v com (m', p)" "c_id old = Some t \<Longrightarrow> help_arr m' w t = v"
    using detect_inv_help [OF inv cas, of w old] by simp_all
  then show ?thesis using step_help by (auto intro!: detect_inv_pc)
next
  case (step_refuse b u old)
  then show ?thesis using inv by (auto intro!: detect_inv_pc)
next
  case (step_log b u old new st)
  have "detect_inv t a v com (log_unsync cfg w st m, p)"
    using detect_invD [OF inv] by (intro detect_invI) (simp_all add: witnessed_def)
  then show ?thesis using step_log by (auto intro!: detect_inv_pc)
next
  case (step_cas b u old new)
  then have pc: "p w = Logged b u (cells m b) new" by (simp add: cell_at_def)
  show ?thesis
  proof (cases "w = t")
    case True
    with step_cas have "p t = Logged b u old new" by simp
    from detect_inv_own_commit [OF inv this] have "b = a" "u = v"
      "detect_inv t a v True (set_cell b \<lparr>c_id = Some t, c_version = u, c_inner = new\<rparr> m, p(t := Idle))"
      by blast+
    then show ?thesis using step_cas True by simp
  next
    case False
    with detect_inv_commit [OF inv pc] w step_cas show ?thesis by (auto intro!: detect_inv_pc)
  qed
next
  case (step_retry b u old new)
  then show ?thesis using inv by (auto intro!: detect_inv_pc simp: cell_at_def)
next
  case (step_observe b)
  then show ?thesis using inv by (auto intro!: detect_inv_pc simp: cell_at_def)
next
  case (step_observed c)
  then have "detect_inv t a v com (m', p)" using detect_inv_help [OF inv cas, of w c] by simp
  then show ?thesis using step_observed by (auto intro!: detect_inv_pc)
next
  case step_crash
  then show ?thesis using inv by (auto intro!: detect_inv_pc)
qed

lemma detect_inv_run:
  assumes "run cfg f s tr s'" and "recover_cas cfg" and "detect_inv t a v False s"
    and "\<forall>b u. Begin t b u \<notin> set tr"
  shows "detect_inv t a v (Commit t a v \<in> set tr) s'"
  using assms
proof (induction s tr s' rule: run.induct)
  case (run_step s tr s' w l s'')
  then have "detect_inv t a v (Commit t a v \<in> set tr \<or> l = Commit t a v) s''"
    by (cases s', cases s'') (auto intro!: detect_inv_step)
  then show ?case by (simp add: disj_commute eq_commute)
qed simp

subsection \<open>Properties\<close>


lemma first_update_trace:
  obtains s1 tr m' where
    "step cfg_debug (\<lambda>_. push_state) 1 (mem_init 0, \<lambda>_. Idle) (Begin 1 0 1) s1"
    "run cfg_debug (\<lambda>_. push_state) s1 tr (m', \<lambda>_. Idle)" "Commit 1 0 1 \<in> set tr"
    "\<forall>b u. Begin 1 b u \<notin> set tr" "c_inner (cells m' 0) = 1"
proof -
  let ?r = "mem_update cfg_debug 0 1 push_state (mem_init 0)"
  have r: "fst ?r \<noteq> None" "c_inner (cells (snd ?r) 0) = 1" and v: "version_next (help_arr (mem_init (0 :: nat)) 1 1) = 1"
    by (simp_all add: mem_run)
  then obtain tr where "solo cfg_debug (\<lambda>_. push_state) 1 (mem_init 0, \<lambda>_. Idle)
      (Begin 1 0 1 # Tau # Tau # tr) (snd ?r, \<lambda>_. Idle)" and tr: "tr = [Tau, Commit 1 0 1]"
    using solo_mem_update [where p = "\<lambda>_. Idle" and t = 1 and cfg = cfg_debug and
      f = "\<lambda>_. push_state" and m = "mem_init 0" and a = 0] by auto
  then obtain s1 where s1: "step cfg_debug (\<lambda>_. push_state) 1 (mem_init 0, \<lambda>_. Idle) (Begin 1 0 1) s1"
    "solo cfg_debug (\<lambda>_. push_state) 1 s1 (Tau # Tau # tr) (snd ?r, \<lambda>_. Idle)"
    by (auto elim: solo_ConsE)
  show ?thesis
    by (rule that [of s1 "Tau # Tau # tr" "snd ?r", OF s1(1) solo_run [OF s1(2)]]) (simp_all add: tr r(2) [simplified])
qed


text \<open>
  C27: a thread that is not disturbed finishes an update in at most five steps, with exactly the
  memory that the one-operation update computes.
\<close>

theorem undisturbed_update_finishes:
  assumes "p t = Idle"
  shows "\<exists>tr. solo cfg f t (m, p) tr (snd (mem_update cfg a t (f a) m), p) \<and> length tr \<le> 5 \<and>
    (Commit t a (version_next (help_arr m t t)) \<in> set tr \<longleftrightarrow> fst (mem_update cfg a t (f a) m) \<noteq> None)"
  using solo_mem_update [where p = p and t = t and cfg = cfg and f = f and m = m and a = a, OF assms]
proof (elim exE conjE)
  let ?v = "version_next (help_arr m t t)"
  fix tr
  assume "solo cfg f t (m, p) (Begin t a ?v # Tau # Tau # tr) (snd (mem_update cfg a t (f a) m), p)"
    and "tr \<in> {[Tau], [Tau, Commit t a ?v]}"
    and "(Commit t a ?v \<in> set tr) = (fst (mem_update cfg a t (f a) m) \<noteq> None)"
  then show ?thesis by (intro exI [of _ "Begin t a ?v # Tau # Tau # tr"]) auto
qed

theorem undisturbed_update_finishes_witness:
  "\<exists>tr. solo cfg_debug (\<lambda>_. push_state) 1 (mem_init 0, \<lambda>_. Idle) tr
      (snd (mem_update cfg_debug 0 1 push_state (mem_init 0)), \<lambda>_. Idle) \<and> Commit 1 0 1 \<in> set tr"
  using undisturbed_update_finishes [where p = "\<lambda>_. Idle" and t = 1 and cfg = cfg_debug and
    f = "\<lambda>_. push_state" and m = "mem_init 0" and a = 0]
  by (auto simp: mem_run)



end
