(* ===== verification/Data.thy ===== *)
theory Data
  imports Bracket
begin

text \<open>
  Offsets and pointers (\<open>cxlalloc/src/data.rs\<close>, the conversions of \<open>slab.rs\<close>). An
  \<open>Offset\<close> is the distance of an address from one slab below the data region, so slab
  \<open>i\<close> (counted from 1) starts at offset \<open>i * SIZE_SLAB\<close> and no offset is 0. The products
  stay below \<open>2 ^ 63\<close> (a slab index has 32 bits, a slab at most \<open>2 ^ 30\<close> bytes), so
  offsets are naturals. The lemmas show that blocks do not overlap and that an offset determines
  the slab and the block it was made from.
\<close>

subsection \<open>Slab indices\<close>

definition index_min :: nat where "index_min = 1"

definition nonzero :: "nat \<Rightarrow> nat option" where
  "nonzero n = (if n = 0 then None else Some n)"

definition index_add :: "nat \<Rightarrow> nat \<Rightarrow> nat res" where
  "index_add i count = unwrap (checked_add_w 32 i count)"

definition index_to_u32 :: "nat \<Rightarrow> nat" where
  "index_to_u32 i = i - 1"

definition index_from_offset :: "'c bracket \<Rightarrow> nat \<Rightarrow> nat res" where
  "index_from_offset B off = unwrap (nonzero (off div SIZE_SLAB B mod 2 ^ 32))"

subsection \<open>Offsets\<close>

definition from_block :: "config \<Rightarrow> 'c bracket \<Rightarrow> 'c \<Rightarrow> nat \<Rightarrow> bit_addr \<Rightarrow> nat res" where
  "from_block cfg B c slab block =
     andthen (debug_assert cfg (unat (bit_to_u64 block) \<le> b_blocks B c) ''from_block'') (\<lambda>_.
     unwrap (nonzero (slab * SIZE_SLAB B + unat (bit_to_u64 block) * b_size B c)))"

definition into_block :: "config \<Rightarrow> 'c bracket \<Rightarrow> nat \<Rightarrow> 'c \<Rightarrow> bit_addr res" where
  "into_block cfg B off c =
     andthen (require (b_size B c \<noteq> 0) Divide_By_Zero) (\<lambda>_.
     let block = off mod SIZE_SLAB B div b_size B c in
     andthen (debug_assert cfg (block \<le> b_blocks B c) ''into_block'') (\<lambda>_.
     from_loose (of_nat block)))"

definition into_index :: "'c bracket \<Rightarrow> nat \<Rightarrow> nat res" where
  "into_index B off = index_from_offset B off"

definition offset_of_index :: "'c bracket \<Rightarrow> nat \<Rightarrow> nat res" where
  "offset_of_index B i = unwrap (nonzero (i * SIZE_SLAB B))"

definition offset_to_u64 :: "config \<Rightarrow> 'c bracket \<Rightarrow> nat \<Rightarrow> nat res" where
  "offset_to_u64 cfg B off = sub_w cfg 64 off (SIZE_SLAB B)"

definition offset_plus :: "nat \<Rightarrow> nat \<Rightarrow> nat res" where
  "offset_plus off n = unwrap (checked_add_w 64 off n)"

subsection \<open>The data region\<close>

text \<open>\<open>data_new\<close> moves the base one slab down, below the mapped region.\<close>

definition data_new :: "'c bracket \<Rightarrow> nat \<Rightarrow> nat res" where
  "data_new B region = andthen (require (SIZE_SLAB B \<le> region) Undefined) (\<lambda>_. Inr (region - SIZE_SLAB B))"

definition offset_to_pointer :: "nat \<Rightarrow> nat \<Rightarrow> nat" where
  "offset_to_pointer base off = base + off"

definition offset_to_offset :: "config \<Rightarrow> 'c bracket \<Rightarrow> nat \<Rightarrow> nat res" where
  "offset_to_offset cfg B off =
     andthen (add_w cfg 64 off (SIZE_SLAB B)) (\<lambda>o'. unwrap (nonzero o'))"

definition pointer_to_offset :: "nat \<Rightarrow> nat \<Rightarrow> nat option" where
  "pointer_to_offset base p = Option.bind (checked_sub p base) nonzero"

lemma nonzero_Some [simp]: "nonzero n = Some m \<longleftrightarrow> n = m \<and> 0 < m"
  by (auto simp: nonzero_def)

lemma nonzero_pos [simp]: "0 < n \<Longrightarrow> nonzero n = Some n"
  by simp

subsection \<open>Block arithmetic\<close>

definition block_offset :: "'c bracket \<Rightarrow> 'c \<Rightarrow> nat \<Rightarrow> nat \<Rightarrow> nat" where
  "block_offset B c i k = i * SIZE_SLAB B + k * b_size B c"

definition block_range :: "'c bracket \<Rightarrow> 'c \<Rightarrow> nat \<Rightarrow> nat \<Rightarrow> nat set" where
  "block_range B c i k = {block_offset B c i k ..< block_offset B c i k + b_size B c}"

context bracket_laws
begin

lemma from_block_eq:
  assumes "class_ok B c" and "0 < i" and "bit_index b < b_blocks B c"
  shows "from_block cfg B c i b = Inr (block_offset B c i (bit_index b))"
  using assms slab_pos by (simp add: from_block_def bit_to_u64_index block_offset_def)

lemma block_offset_div:
  assumes "class_ok B c" and "k < b_blocks B c"
  shows "block_offset B c i k div SIZE_SLAB B = i"
    and "block_offset B c i k mod SIZE_SLAB B = k * b_size B c"
proof -
  have "k * b_size B c < SIZE_SLAB B"
    using block_in_slab [OF assms] size_pos [OF assms(1)] by linarith
  then show "block_offset B c i k div SIZE_SLAB B = i"
    and "block_offset B c i k mod SIZE_SLAB B = k * b_size B c"
    by (simp_all add: block_offset_def)
qed

lemma into_index_block:
  assumes "class_ok B c" and "k < b_blocks B c" and "0 < i" and "i < 2 ^ 32"
  shows "into_index B (block_offset B c i k) = Inr i"
    and "index_from_offset B (block_offset B c i k) = Inr i"
  using assms block_offset_div [OF assms(1,2)] by (simp_all add: into_index_def index_from_offset_def)

lemma into_block_block:
  assumes "class_ok B c" and "bit_index b < b_blocks B c"
  shows "into_block cfg B (block_offset B c i (bit_index b)) c = Inr b"
proof -
  have "bit_index b < 4096" by (rule bit_index_less)
  then obtain b' where "from_loose (of_nat (bit_index b)) = Inr b'" "bit_index b' = bit_index b"
    using from_loose_index by blast
  then have "from_loose (of_nat (bit_index b)) = Inr b" by (simp add: bit_index_inj)
  then show ?thesis using size_pos [OF assms(1)] assms(2)
    by (simp add: into_block_def block_offset_div [OF assms] Let_def)
qed

lemma round_trip:
  assumes c: "class_ok B c" and b: "bit_index b < b_blocks B c" and i: "0 < i" "i < 2 ^ 32"
  shows "\<exists>off. from_block cfg B c i b = Inr off \<and> into_index B off = Inr i \<and>
    into_block cfg B off c = Inr b \<and> SIZE_SLAB B \<le> off \<and> off + b_size B c \<le> (i + 1) * SIZE_SLAB B"
proof -
  let ?off = "block_offset B c i (bit_index b)"
  have "SIZE_SLAB B \<le> ?off" using i by (cases i) (simp_all add: block_offset_def)
  moreover have "?off + b_size B c \<le> (i + 1) * SIZE_SLAB B"
    using block_in_slab [OF c b] by (simp add: block_offset_def)
  ultimately show ?thesis
    using from_block_eq [OF c i(1) b] into_index_block [OF c b i] into_block_block [OF c b] by blast
qed

lemma block_ranges_disjoint:
  assumes "class_ok B c" "k < b_blocks B c" "class_ok B c'" "k' < b_blocks B c'"
    and "i \<noteq> i' \<or> c = c' \<and> k \<noteq> k'"
  shows "block_range B c i k \<inter> block_range B c' i' k' = {}"
proof (cases "i = i'")
  case True
  with assms(5) consider "c = c'" "k < k'" | "c = c'" "k' < k" by linarith
  then have "block_offset B c i k + b_size B c \<le> block_offset B c' i' k' \<or>
      block_offset B c' i' k' + b_size B c' \<le> block_offset B c i k"
  proof cases
    case 1
    then have "(k + 1) * b_size B c \<le> k' * b_size B c" by (intro mult_right_mono) simp_all
    then show ?thesis using 1 True by (simp add: block_offset_def)
  next
    case 2
    then have "(k' + 1) * b_size B c \<le> k * b_size B c" by (intro mult_right_mono) simp_all
    then show ?thesis using 2 True by (simp add: block_offset_def)
  qed
  then show ?thesis by (auto simp: block_range_def)
next
  case False
  have le: "a * SIZE_SLAB B + SIZE_SLAB B \<le> b * SIZE_SLAB B" if "a < b" for a b :: nat
  proof -
    have "(a + 1) * SIZE_SLAB B \<le> b * SIZE_SLAB B" using that by (intro mult_right_mono) simp_all
    then show ?thesis by simp
  qed
  from False consider "i < i'" | "i' < i" by linarith
  then have "block_offset B c i k + b_size B c \<le> block_offset B c' i' k' \<or>
      block_offset B c' i' k' + b_size B c' \<le> block_offset B c i k"
    using le [of i i'] le [of i' i] block_in_slab [OF assms(1,2)] block_in_slab [OF assms(3,4)]
    unfolding block_offset_def by cases linarith+
  then show ?thesis by (auto simp: block_range_def)
qed

end

subsection \<open>Properties\<close>

text \<open>
  For both brackets, the offset of a block leads back to the slab and the block it was made
  from, the offset is at least one slab (so the pointer lies in the data region), and the block
  ends inside its slab.
\<close>

theorem block_round_trip:
  assumes "0 < i" and "i < 2 ^ 32"
  shows "(class_ok small_bracket c \<and> bit_index b < small_blocks c \<longrightarrow>
      (\<exists>off. from_block cfg small_bracket c i b = Inr off \<and> into_index small_bracket off = Inr i \<and>
        into_block cfg small_bracket off c = Inr b \<and>
        small_size_slab \<le> off \<and> off + small_size c \<le> (i + 1) * small_size_slab)) \<and>
    (class_ok large_bracket d \<and> bit_index b < large_blocks d \<longrightarrow>
      (\<exists>off. from_block cfg large_bracket d i b = Inr off \<and> into_index large_bracket off = Inr i \<and>
        into_block cfg large_bracket off d = Inr b \<and>
        large_size_slab \<le> off \<and> off + large_size d \<le> (i + 1) * large_size_slab))"
  using small.round_trip [of c b i cfg] large.round_trip [of d b i cfg] assms
  by (simp add: small_bracket_def large_bracket_def)

theorem block_round_trip_witness:
  "\<exists>off. from_block cfg_debug small_bracket (Small 127) 7 (Bit 0 31) = Inr off \<and>
     into_index small_bracket off = Inr 7 \<and> into_block cfg_debug small_bracket off (Small 127) = Inr (Bit 0 31)"
proof -
  have "class_ok small_bracket (Small 127)" by (simp add: small_class_ok small_is_zero_def)
  moreover have "bit_index (Bit 0 31) < small_blocks (Small 127)"
    by (simp add: bit_index_def small_blocks_eq)
  ultimately show ?thesis
    using block_round_trip [of 7 "Small 127" "Bit 0 31" cfg_debug "Large 0"] by auto
qed

end
