(* ===== verification/Slab.thy ===== *)
theory Slab
  imports Data Cas
begin

text \<open>
  Slab descriptors and the stacks that link them (\<open>cxlalloc/src/slab.rs\<close> and
  \<open>slab/\<close>), over the state of one heap. The stacks are linked through the \<open>next\<close> field
  of the descriptors: the lemmas here represent them as lists and show what pushing, popping,
  removing and splicing do to every list that shares the field.
\<close>

subsection \<open>The state of a heap\<close>

record 'c local =
  l_next :: "nat option"
  l_owner :: "nat option"
  l_class :: 'c
  l_free :: bitset

record stack =
  st_head :: "nat option"
  st_len :: nat

text \<open>The events a heap reports to its statistics recorder (\<open>cxlalloc/src/stat.rs\<close>).\<close>

datatype 'c event =
    Ev_Bump
  | Ev_GlobalToUnsized
  | Ev_Allocate nat
  | Ev_UnsizedToSized 'c
  | Ev_Free nat
  | Ev_SizedToUnsized 'c
  | Ev_UnsizedToGlobal
  | Ev_Detach 'c
  | Ev_Disown 'c
  | Ev_Attach 'c
  | Ev_Claim 'c

text \<open>
  One heap as all threads see it: the slab descriptors (\<open>locals\<close>, \<open>remotes\<close>), the
  shared stack and bump cell (\<open>heap::Shared\<close>) and, per thread, the stacks of
  \<open>heap::Owned\<close>. \<open>events\<close> is the sequence of calls to the recorder.
\<close>

record 'c heap = ctx +
  locals :: "nat \<Rightarrow> 'c local"
  remotes :: "nat \<Rightarrow> 16 word cell"
  gfree :: "nat option cell"
  gbump :: "nat option cell"
  unsized :: "nat \<Rightarrow> stack"
  sized :: "nat \<Rightarrow> 'c \<Rightarrow> stack"
  events :: "(nat \<times> 'c event) list"

definition nxt :: "'c heap \<Rightarrow> nat \<Rightarrow> nat option" where
  "nxt h i = l_next (locals h i)"

definition set_next :: "nat \<Rightarrow> nat option \<Rightarrow> 'c heap \<Rightarrow> 'c heap" where
  "set_next i v h = h\<lparr>locals := (locals h)(i := (locals h i)\<lparr>l_next := v\<rparr>)\<rparr>"

definition set_owner :: "nat \<Rightarrow> nat option \<Rightarrow> 'c heap \<Rightarrow> 'c heap" where
  "set_owner i v h = h\<lparr>locals := (locals h)(i := (locals h i)\<lparr>l_owner := v\<rparr>)\<rparr>"

definition set_class :: "nat \<Rightarrow> 'c \<Rightarrow> 'c heap \<Rightarrow> 'c heap" where
  "set_class i v h = h\<lparr>locals := (locals h)(i := (locals h i)\<lparr>l_class := v\<rparr>)\<rparr>"

definition set_free :: "nat \<Rightarrow> bitset \<Rightarrow> 'c heap \<Rightarrow> 'c heap" where
  "set_free i v h = h\<lparr>locals := (locals h)(i := (locals h i)\<lparr>l_free := v\<rparr>)\<rparr>"

definition set_remote :: "nat \<Rightarrow> 16 word cell \<Rightarrow> 'c heap \<Rightarrow> 'c heap" where
  "set_remote i c h = h\<lparr>remotes := (remotes h)(i := c)\<rparr>"

definition get_remote :: "nat \<Rightarrow> 'c heap \<Rightarrow> 16 word cell" where
  "get_remote i h = remotes h i"

definition set_gfree :: "nat option cell \<Rightarrow> 'c heap \<Rightarrow> 'c heap" where
  "set_gfree c h = h\<lparr>gfree := c\<rparr>"

definition set_gbump :: "nat option cell \<Rightarrow> 'c heap \<Rightarrow> 'c heap" where
  "set_gbump c h = h\<lparr>gbump := c\<rparr>"

definition set_unsized :: "nat \<Rightarrow> stack \<Rightarrow> 'c heap \<Rightarrow> 'c heap" where
  "set_unsized t s h = h\<lparr>unsized := (unsized h)(t := s)\<rparr>"

definition set_sized :: "nat \<Rightarrow> 'c \<Rightarrow> stack \<Rightarrow> 'c heap \<Rightarrow> 'c heap" where
  "set_sized t c s h = h\<lparr>sized := (sized h)(t := (sized h t)(c := s))\<rparr>"

subsection \<open>Descriptors\<close>

definition local_own :: "config \<Rightarrow> nat \<Rightarrow> nat \<Rightarrow> 'c heap \<Rightarrow> 'c heap res" where
  "local_own cfg t i h =
     andthen (validate_that cfg (l_owner (locals h i) = None) ''own'') (\<lambda>_. Inr (set_owner i (Some t) h))"

definition local_steal :: "nat \<Rightarrow> nat \<Rightarrow> 'c heap \<Rightarrow> 'c heap" where
  "local_steal t i h = set_owner i (Some t) h"

definition local_disown :: "config \<Rightarrow> nat \<Rightarrow> nat \<Rightarrow> 'c heap \<Rightarrow> 'c heap res" where
  "local_disown cfg t i h =
     andthen (validate_that cfg (l_owner (locals h i) = Some t) ''disown'') (\<lambda>_. Inr (set_owner i None h))"

text \<open>\<open>link\<close> takes ownership of a range of slabs and chains them, the last one to \<open>head\<close>.\<close>

function slab_link :: "config \<Rightarrow> nat \<Rightarrow> nat \<Rightarrow> nat \<Rightarrow> nat option \<Rightarrow> 'c heap \<Rightarrow> 'c heap res" where
  "slab_link cfg t i end head h =
     (if i < end
      then andthen (local_own cfg t i h) (\<lambda>h1.
        slab_link cfg t (i + 1) end head (set_next i (if i + 1 < end then Some (i + 1) else head) h1))
      else Inr h)"
  by pat_completeness auto
termination
  by (relation "measure (\<lambda>(cfg, t, i, end, head, h). end - i)") auto

declare slab_link.simps [simp del]

text \<open>The first \<open>n\<close> elements of the iterator \<open>trace\<close>; it ends early where a \<open>next\<close> is None.\<close>

primrec trace_n :: "(nat \<Rightarrow> nat option) \<Rightarrow> nat \<Rightarrow> nat option \<Rightarrow> nat list" where
  "trace_n nx 0 head = []"
| "trace_n nx (Suc n) head = (case head of None \<Rightarrow> [] | Some i \<Rightarrow> i # trace_n nx n (nx i))"

text \<open>\<open>trace(..).count()\<close>, which does not return when the links form a cycle.\<close>

partial_function (option) trace_count :: "(nat \<Rightarrow> nat option) \<Rightarrow> nat option \<Rightarrow> nat option" where
  "trace_count nx head = (case head of None \<Rightarrow> Some 0
     | Some i \<Rightarrow> Option.bind (trace_count nx (nx i)) (\<lambda>n. Some (n + 1)))"

subsection \<open>Local stacks\<close>

definition stack_is_valid :: "'c heap \<Rightarrow> stack \<Rightarrow> bool" where
  "stack_is_valid h s \<longleftrightarrow> length (trace_n (nxt h) (st_len s + 1) (st_head s)) = st_len s"

definition stack_set :: "nat option \<Rightarrow> nat \<Rightarrow> stack" where
  "stack_set head len = \<lparr>st_head = head, st_len = len\<rparr>"

definition stack_pop :: "config \<Rightarrow> 'c heap \<Rightarrow> stack \<Rightarrow> (nat option \<times> stack) res" where
  "stack_pop cfg h s = (case st_head s of
     None \<Rightarrow> Inr (None, s)
   | Some i \<Rightarrow> andthen (sub_w cfg 64 (st_len s) 1) (\<lambda>len. Inr (Some i, stack_set (nxt h i) len)))"

definition stack_push :: "nat \<Rightarrow> stack \<Rightarrow> 'c heap \<Rightarrow> stack \<times> 'c heap" where
  "stack_push i s h = (stack_set (Some i) (st_len s + 1), set_next i (st_head s) h)"

definition stack_recover_len :: "'c heap \<Rightarrow> stack \<Rightarrow> stack option" where
  "stack_recover_len h s =
     Option.bind (trace_count (nxt h) (st_head s)) (\<lambda>n. Some (stack_set (st_head s) n))"

definition stack_recover_push :: "nat \<Rightarrow> stack \<Rightarrow> 'c heap \<Rightarrow> (stack \<times> 'c heap) option" where
  "stack_recover_push i s h =
     (let (s1, h1) = (if st_head s \<noteq> Some i then stack_push i s h else (s, h)) in
      Option.bind (stack_recover_len h1 s1) (\<lambda>s2. Some (s2, h1)))"

subsection \<open>The global stack\<close>

definition global_push :: "config \<Rightarrow> 'c bracket \<Rightarrow> nat \<Rightarrow> nat \<Rightarrow> nat \<Rightarrow> 'c heap \<Rightarrow> 'c heap res" where
  "global_push cfg B t head tail h =
     andthen
       (det_update cfg gfree set_gfree t
          (\<lambda>old version h1. Inr (set_next tail old h1, Some (Some head, into_state B (UnsizedToGlobal head version)))) h)
       (\<lambda>(r, h1). andthen (unwrap r) (\<lambda>_. Inr h1))"

definition global_pop :: "config \<Rightarrow> 'c bracket \<Rightarrow> nat \<Rightarrow> 'c heap \<Rightarrow> (nat option \<times> 'c heap) res" where
  "global_pop cfg B t h =
     andthen
       (det_update cfg gfree set_gfree t
          (\<lambda>old version h1. Inr (h1, case old of None \<Rightarrow> None
             | Some i \<Rightarrow> Some (nxt h1 i, into_state B (GlobalToUnsized i version)))) h)
       (\<lambda>(r, h1). Inr (Option.bind r (\<lambda>x. x), h1))"

definition global_detect :: "nat \<Rightarrow> 16 word \<Rightarrow> 'c heap \<Rightarrow> bool res" where
  "global_detect t version h = det_detect gfree t version h"

definition global_is_empty :: "config \<Rightarrow> nat \<Rightarrow> 'c heap \<Rightarrow> bool \<times> 'c heap" where
  "global_is_empty cfg t h = (let (v, h1) = det_load cfg gfree t h in (v = None, h1))"

subsection \<open>Stacks as lists\<close>

primrec chain :: "(nat \<Rightarrow> nat option) \<Rightarrow> nat option \<Rightarrow> nat list \<Rightarrow> bool" where
  "chain nx head [] \<longleftrightarrow> head = None"
| "chain nx head (i # is) \<longleftrightarrow> head = Some i \<and> chain nx (nx i) is"

lemma chain_update [simp]: "i \<notin> set xs \<Longrightarrow> chain (nx(i := v)) head xs = chain nx head xs"
  by (induction xs arbitrary: head) auto

lemma chain_None [simp]: "chain nx None xs \<longleftrightarrow> xs = []"
  by (cases xs) auto

lemma chain_Some: "chain nx (Some i) xs \<longleftrightarrow> (\<exists>ys. xs = i # ys \<and> chain nx (nx i) ys)"
  by (cases xs) auto

lemma chain_unique: "chain nx head xs \<Longrightarrow> chain nx head ys \<Longrightarrow> xs = ys"
  by (induction xs arbitrary: head ys) (auto simp: chain_Some)

text \<open>A list segment: the links lead from \<open>head\<close> through \<open>xs\<close> to \<open>m\<close>.\<close>

primrec seg :: "(nat \<Rightarrow> nat option) \<Rightarrow> nat option \<Rightarrow> nat list \<Rightarrow> nat option \<Rightarrow> bool" where
  "seg nx head [] m \<longleftrightarrow> head = m"
| "seg nx head (i # is) m \<longleftrightarrow> head = Some i \<and> seg nx (nx i) is m"

lemma chain_append: "chain nx head (xs @ ys) \<longleftrightarrow> (\<exists>m. seg nx head xs m \<and> chain nx m ys)"
  by (induction xs arbitrary: head) auto

lemma seg_update [simp]: "i \<notin> set xs \<Longrightarrow> seg (nx(i := v)) head xs m = seg nx head xs m"
  by (induction xs arbitrary: head) auto

lemma seg_end: "seg nx head xs m \<Longrightarrow> xs \<noteq> [] \<Longrightarrow> head = Some (hd xs) \<and> nx (last xs) = m"
  by (induction xs arbitrary: head) (auto split: if_splits)

lemma seg_redirect:
  assumes "seg nx head xs m" and "xs \<noteq> []" and "distinct xs"
  shows "seg (nx(last xs := v)) head xs v"
  using assms
proof (induction xs arbitrary: head)
  case (Cons x xs)
  show ?case
  proof (cases "xs = []")
    case False
    then have "x \<noteq> last xs" using Cons.prems(3) by auto
    then show ?thesis using Cons False by simp
  qed (use Cons.prems in simp)
qed simp

lemma trace_n_chain: "chain nx head xs \<Longrightarrow> trace_n nx n head = take n xs"
proof (induction n arbitrary: head xs)
  case (Suc n)
  then show ?case by (cases xs) auto
qed simp

lemma trace_count_chain: "chain nx head xs \<Longrightarrow> trace_count nx head = Some (length xs)"
proof (induction xs arbitrary: head)
  case Nil
  then show ?case by (simp add: trace_count.simps)
next
  case (Cons x xs)
  then have "trace_count nx (nx x) = Some (length xs)" by simp
  then show ?case using Cons.prems by (simp add: trace_count.simps [of nx "Some x"])
qed

text \<open>
  All stacks of a heap at once: a slot names a stack, a place tells where a slab is. The lists
  are disjoint because each slab has one place.
\<close>

datatype 'c slot = SUnsized nat | SSized nat 'c | SGlobal

datatype 'c place = Unbumped | At "'c slot" | Detached

definition lists_ok ::
  "(nat \<Rightarrow> nat option) \<Rightarrow> ('c slot \<Rightarrow> nat option) \<Rightarrow> ('c slot \<Rightarrow> nat list) \<Rightarrow> (nat \<Rightarrow> 'c place) \<Rightarrow> bool" where
  "lists_ok nx head lst pl \<longleftrightarrow>
     (\<forall>s. chain nx (head s) (lst s) \<and> distinct (lst s) \<and> (\<forall>i. i \<in> set (lst s) \<longleftrightarrow> pl i = At s))"

lemma lists_okD:
  assumes "lists_ok nx head lst pl"
  shows "chain nx (head s) (lst s)" and "distinct (lst s)" and "i \<in> set (lst s) \<longleftrightarrow> pl i = At s"
  using assms by (auto simp: lists_ok_def)

lemma lists_ok_head:
  assumes "lists_ok nx head lst pl" and "head s = Some i"
  shows "pl i = At s" and "lst s = i # tl (lst s)" and "chain nx (nx i) (tl (lst s))"
  using lists_okD(1) [OF assms(1), of s] lists_okD(3) [OF assms(1), of i s] assms(2)
  by (auto simp: chain_Some)

lemma lists_ok_empty: "lists_ok nx head lst pl \<Longrightarrow> head s = None \<Longrightarrow> lst s = []"
  using lists_okD(1) [of nx head lst pl s] by simp

lemma lists_ok_pop:
  assumes ok: "lists_ok nx head lst pl" and "head s = Some i"
  shows "lists_ok nx (head(s := nx i)) (lst(s := tl (lst s))) (pl(i := Detached))"
  unfolding lists_ok_def
proof (intro allI conjI)
  note hd = lists_ok_head [OF ok assms(2)] and D = lists_okD [OF ok]
  fix r j
  show "chain nx ((head(s := nx i)) r) ((lst(s := tl (lst s))) r)" using hd D(1) by simp
  show "distinct ((lst(s := tl (lst s))) r)" using D(2) by (simp add: distinct_tl)
  have "i \<notin> set (tl (lst s))" and "set (lst s) = insert i (set (tl (lst s)))"
    using hd(2) D(2) [of s] by (metis distinct.simps(2), metis list.set(2))
  then show "j \<in> set ((lst(s := tl (lst s))) r) \<longleftrightarrow> (pl(i := Detached)) j = At r"
    using D(3) [of j r] D(3) [of j s] hd(1) by (cases "r = s") auto
qed

lemma lists_ok_push:
  assumes ok: "lists_ok nx head lst pl" and i: "\<And>r. pl i \<noteq> At r"
  shows "lists_ok (nx(i := head s)) (head(s := Some i)) (lst(s := i # lst s)) (pl(i := At s))"
proof -
  note D = lists_okD [OF ok]
  have ni: "i \<notin> set (lst r)" for r using i D(3) by simp
  show ?thesis unfolding lists_ok_def
  proof (intro allI conjI)
    fix r j
    show "chain (nx(i := head s)) ((head(s := Some i)) r) ((lst(s := i # lst s)) r)"
      using D(1) ni by simp
    show "distinct ((lst(s := i # lst s)) r)" using D(2) ni by simp
    show "j \<in> set ((lst(s := i # lst s)) r) \<longleftrightarrow> (pl(i := At s)) j = At r"
      using D(3) i ni by auto
  qed
qed

lemma lists_ok_remove:
  assumes ok: "lists_ok nx head lst pl" and s: "lst s = xs @ p # i # ys"
  shows "lists_ok (nx(p := nx i)) head (lst(s := xs @ p # ys)) (pl(i := Detached))"
  unfolding lists_ok_def
proof (intro allI conjI)
  note D = lists_okD [OF ok]
  fix r j
  have ps: "pl p = At s" and pi: "pl i = At s" using D(3) [of p s] D(3) [of i s] s by simp_all
  have d: "distinct (xs @ p # i # ys)" using D(2) [of s] s by simp
  have "chain nx (head s) ((xs @ [p]) @ i # ys)" using D(1) [of s] s by simp
  then obtain m where m: "seg nx (head s) (xs @ [p]) m" "chain nx m (i # ys)" unfolding chain_append by blast
  then have "seg (nx(p := nx i)) (head s) (xs @ [p]) (nx i)"
    using seg_redirect [of nx "head s" "xs @ [p]" m "nx i"] d by simp
  moreover have "chain (nx(p := nx i)) (nx i) ys" using m(2) d by simp
  ultimately have "chain (nx(p := nx i)) (head s) ((xs @ [p]) @ ys)" unfolding chain_append by blast
  moreover have "chain (nx(p := nx i)) (head r) (lst r)" if "r \<noteq> s"
  proof -
    have "p \<notin> set (lst r)" using that ps D(3) [of p r] by simp
    then show ?thesis using D(1) by simp
  qed
  ultimately show "chain (nx(p := nx i)) (head r) ((lst(s := xs @ p # ys)) r)" by simp
  show "distinct ((lst(s := xs @ p # ys)) r)" using D(2) d by simp
  show "j \<in> set ((lst(s := xs @ p # ys)) r) \<longleftrightarrow> (pl(i := Detached)) j = At r"
    using D(3) [of j r] s d pi by (cases "r = s") auto
qed

text \<open>The first \<open>xs\<close> of one list become the front of another.\<close>

lemma lists_ok_splice:
  assumes ok: "lists_ok nx head lst pl" and s: "lst s = xs @ ys" and xs: "xs \<noteq> []" and "s \<noteq> r"
  shows "lists_ok (nx(last xs := head r)) (head(s := nx (last xs), r := Some (hd xs)))
    (lst(s := ys, r := xs @ lst r)) (\<lambda>i. if i \<in> set xs then At r else pl i)"
  unfolding lists_ok_def
proof (intro allI conjI)
  note D = lists_okD [OF ok]
  let ?nx = "nx(last xs := head r)"
  fix q j
  have d: "distinct (xs @ ys)" using D(2) [of s] s by simp
  have lx: "last xs \<in> set xs" using xs by simp
  have px: "pl k = At s" if "k \<in> set xs" for k using that D(3) [of k s] s by simp
  have "chain nx (head s) (xs @ ys)" using D(1) [of s] s by simp
  then obtain m where m: "seg nx (head s) xs m" "chain nx m ys" unfolding chain_append by blast
  have h: "head s = Some (hd xs)" "nx (last xs) = m" using seg_end [OF m(1) xs] by simp_all
  have nl: "last xs \<notin> set (lst q)" if "q \<noteq> s" for q using that px [OF lx] D(3) by simp
  have "last xs \<notin> set ys" using d lx by auto
  then have "chain ?nx (nx (last xs)) ys" using m(2) h by simp
  moreover have "seg ?nx (Some (hd xs)) xs (head r)" using seg_redirect [OF m(1) xs] d h by simp
  then have "chain ?nx (Some (hd xs)) (xs @ lst r)"
    using D(1) [of r] nl [of r] assms(4) unfolding chain_append by auto
  ultimately show "chain ?nx ((head(s := nx (last xs), r := Some (hd xs))) q) ((lst(s := ys, r := xs @ lst r)) q)"
    using D(1) nl by simp
  have disj: "set xs \<inter> set (lst r) = {}" using px D(3) assms(4) by auto
  then show "distinct ((lst(s := ys, r := xs @ lst r)) q)" using D(2) d by simp
  show "j \<in> set ((lst(s := ys, r := xs @ lst r)) q) \<longleftrightarrow> (if j \<in> set xs then At r else pl j) = At q"
    using D(3) [of j q] D(3) [of j s] d s px [of j] assms(4) by auto
qed

lemma lists_ok_frame:
  assumes "lists_ok nx head lst pl" and "\<And>i r. pl i = At r \<Longrightarrow> nx' i = nx i"
    and "\<And>i r. pl i = At r \<longleftrightarrow> pl' i = At r"
  shows "lists_ok nx' head lst pl'"
proof -
  have "chain nx' hd xs" if "chain nx hd xs" "\<forall>i \<in> set xs. nx' i = nx i" for hd xs
    using that by (induction xs arbitrary: hd) auto
  then show ?thesis using assms unfolding lists_ok_def by blast
qed

lemma lists_ok_install:
  assumes ok: "lists_ok nx head ls pl" and "ls s = []" and ch: "chain nx h0 xs" and d: "distinct xs"
    and fresh: "\<And>i r. i \<in> set xs \<Longrightarrow> pl i \<noteq> At r"
  shows "lists_ok nx (head(s := h0)) (ls(s := xs)) (\<lambda>i. if i \<in> set xs then At s else pl i)"
  unfolding lists_ok_def
proof (intro allI conjI)
  note D = lists_okD [OF ok]
  fix r j
  show "chain nx ((head(s := h0)) r) ((ls(s := xs)) r)" "distinct ((ls(s := xs)) r)" using D(1,2) ch d by simp_all
  show "j \<in> set ((ls(s := xs)) r) \<longleftrightarrow> (if j \<in> set xs then At s else pl j) = At r"
    using D(3) [of j r] D(3) [of j s] fresh [of j] assms(2) by auto
qed

end
