(* ===== verification/Heap.thy ===== *)
theory Heap
  imports Slab
begin

text \<open>
  One heap (\<open>cxlalloc/src/heap.rs\<close>): the operations of \<open>Heap\<close>, \<open>Shared\<close> and
  \<open>Owned\<close>, one definition per method, each a whole operation of one thread. Log messages,
  cache flushes and fences have no counterpart; every call of the statistics recorder appends to
  \<open>events\<close>.
\<close>

definition record_event :: "nat \<Rightarrow> 'c event \<Rightarrow> 'c heap \<Rightarrow> 'c heap" where
  "record_event t e h = h\<lparr>events := events h @ [(t, e)]\<rparr>"

text \<open>Access to \<open>sized[class]\<close>, an unchecked array access.\<close>

definition class_index_ok :: "'c bracket \<Rightarrow> 'c \<Rightarrow> unit res" where
  "class_index_ok B c = require (b_index B c < COUNT B) Undefined"

subsection \<open>Shared\<close>

definition shared_len :: "config \<Rightarrow> nat \<Rightarrow> 'c heap \<Rightarrow> nat option \<times> 'c heap" where
  "shared_len cfg t h = det_load cfg gbump t h"

definition or_min :: "nat option \<Rightarrow> nat" where
  "or_min x = (case x of None \<Rightarrow> index_min | Some i \<Rightarrow> i)"

definition shared_bump :: "config \<Rightarrow> 'c bracket \<Rightarrow> nat \<Rightarrow> 'c heap \<Rightarrow> ((nat \<times> nat) \<times> 'c heap) res" where
  "shared_bump cfg B t h =
     (let batch = batch_bump_pop cfg mod 2 ^ 32 in
      andthen
        (det_update cfg gbump set_gbump t
           (\<lambda>old version h1. andthen (index_add (or_min old) batch) (\<lambda>new.
              Inr (h1, Some (Some new, into_state B (BumpToUnsized old version))))) h)
        (\<lambda>(r, h1). andthen (unwrap r) (\<lambda>start.
         andthen (index_add (or_min start) batch) (\<lambda>end.
         Inr ((or_min start, end), h1)))))"

definition shared_detect_bump :: "nat \<Rightarrow> 16 word \<Rightarrow> 'c heap \<Rightarrow> bool res" where
  "shared_detect_bump t version h = det_detect gbump t version h"

definition shared_push :: "config \<Rightarrow> 'c bracket \<Rightarrow> nat \<Rightarrow> nat \<Rightarrow> nat \<Rightarrow> 'c heap \<Rightarrow> 'c heap res" where
  "shared_push cfg B t head tail h = global_push cfg B t head tail h"

definition shared_pop :: "config \<Rightarrow> 'c bracket \<Rightarrow> nat \<Rightarrow> 'c heap \<Rightarrow> (nat option \<times> 'c heap) res" where
  "shared_pop cfg B t h =
     (let (empty, h1) = global_is_empty cfg t h in
      if empty then Inr (None, h1) else global_pop cfg B t h1)"

definition shared_detect_global :: "nat \<Rightarrow> 16 word \<Rightarrow> 'c heap \<Rightarrow> bool res" where
  "shared_detect_global t version h = global_detect t version h"

subsection \<open>Owned\<close>

definition stack_trace :: "'c heap \<Rightarrow> stack \<Rightarrow> nat list" where
  "stack_trace h s = trace_n (nxt h) (st_len s) (st_head s)"

definition owned_is_valid :: "'c bracket \<Rightarrow> nat \<Rightarrow> 'c heap \<Rightarrow> bool" where
  "owned_is_valid B t h \<longleftrightarrow>
     (let classes = List.map_filter (b_from_index B) [0..<COUNT B];
          us = stack_trace h (unsized h t) in
      stack_is_valid h (unsized h t) \<and>
      (\<forall>i \<in> set us. l_owner (locals h i) = Some t) \<and>
      (\<forall>c \<in> set classes. stack_is_valid h (sized h t c) \<and>
         (\<forall>i \<in> set (stack_trace h (sized h t c)).
            0 < bs_len (l_free (locals h i)) \<and> l_class (locals h i) = c \<and> l_owner (locals h i) = Some t)) \<and>
      distinct (us @ concat (map (\<lambda>c. stack_trace h (sized h t c)) classes)))"

definition unsized_to_sized :: "config \<Rightarrow> 'c bracket \<Rightarrow> nat \<Rightarrow> 'c \<Rightarrow> 'c heap \<Rightarrow> (bool \<times> 'c heap) res" where
  "unsized_to_sized cfg B t c h = (case st_head (unsized h t) of
     None \<Rightarrow> Inr (False, h)
   | Some i \<Rightarrow>
       let next = nxt h i;
           h1 = ctx_log cfg t (into_state B (UnsizedToSized next c)) h;
           h2 = set_class i c h1 in
       andthen (bs_fill (b_blocks B c) (l_free (locals h2 i))) (\<lambda>free.
       let h3 = set_free i free h2 in
       andthen (class_index_ok B c) (\<lambda>_.
       let (s, h4) = stack_push i (sized h3 t c) h3;
           h5 = set_sized t c s h4;
           h6 = det_store cfg (get_remote i) (set_remote i) t (of_nat (b_blocks B c)) h5 in
       andthen (sub_w cfg 64 (st_len (unsized h6 t)) 1) (\<lambda>count.
       Inr (True, set_unsized t (stack_set next count) h6)))))"

text \<open>The loop of \<open>sized_to_unsized\<close>: the slab whose \<open>next\<close> is \<open>index\<close>.\<close>

partial_function (option) walk_prev :: "(nat \<Rightarrow> nat option) \<Rightarrow> nat \<Rightarrow> nat \<Rightarrow> nat res option" where
  "walk_prev nx index walk = (case nx walk of
     None \<Rightarrow> Some (Inl (Explicit ''removing non-existent slab''))
   | Some n \<Rightarrow> if n = index then Some (Inr walk) else walk_prev nx index n)"

definition sized_to_unsized :: "config \<Rightarrow> 'c bracket \<Rightarrow> nat \<Rightarrow> 'c \<Rightarrow> nat \<Rightarrow> 'c heap \<Rightarrow> 'c heap res" where
  "sized_to_unsized cfg B t c i h =
     (let next = nxt h i in
      andthen (class_index_ok B c) (\<lambda>_.
      andthen (unwrap (st_head (sized h t c))) (\<lambda>walk.
      andthen
        (if walk = i
         then andthen (sub_w cfg 64 (st_len (sized h t c)) 1) (\<lambda>count.
           Inr (set_sized t c (stack_set next count) h))
         else (case walk_prev (nxt h) i walk of
             None \<Rightarrow> Inl Diverges
           | Some r \<Rightarrow> andthen r (\<lambda>prev. Inr (set_next prev next h))))
        (\<lambda>h1. let (s, h2) = stack_push i (unsized h1 t) h1 in Inr (set_unsized t s h2)))))"

subsection \<open>Heap\<close>

definition heap_class :: "'c bracket \<Rightarrow> nat \<Rightarrow> 'c heap \<Rightarrow> 'c res" where
  "heap_class B off h = andthen (into_index B off) (\<lambda>i. Inr (l_class (locals h i)))"

definition heap_detach :: "config \<Rightarrow> 'c bracket \<Rightarrow> nat \<Rightarrow> 'c \<Rightarrow> nat \<Rightarrow> 'c heap \<Rightarrow> 'c heap res" where
  "heap_detach cfg B t c i h =
     (let h1 = record_event t (Ev_Detach c) h;
          (meta, h2) = det_load cfg (get_remote i) t h1 in
      if unat meta < b_blocks B c
      then local_disown cfg t i (record_event t (Ev_Disown c) h2)
      else Inr h2)"

definition heap_pop ::
  "config \<Rightarrow> 'c bracket \<Rightarrow> nat \<Rightarrow> nat \<Rightarrow> 'c \<Rightarrow> nat \<Rightarrow> bit_addr \<Rightarrow> 'c heap \<Rightarrow> (nat \<times> 'c heap) res" where
  "heap_pop cfg B base t c i block h =
     (let h1 = record_event t (Ev_Allocate (b_size B c)) h in
      andthen (bs_unset cfg block (l_free (locals h1 i))) (\<lambda>free.
      let h2 = set_free i free h1 in
      andthen
        (if bs_is_empty free
         then andthen (class_index_ok B c) (\<lambda>_.
           andthen (stack_pop cfg h2 (sized h2 t c)) (\<lambda>(r, s).
           andthen (unwrap r) (\<lambda>j. heap_detach cfg B t c j (set_sized t c s h2))))
         else Inr h2)
        (\<lambda>h3. andthen (from_block cfg B c i block) (\<lambda>off. Inr (offset_to_pointer base off, h3)))))"

definition validate_owned :: "config \<Rightarrow> 'c bracket \<Rightarrow> nat \<Rightarrow> 'c heap \<Rightarrow> unit res" where
  "validate_owned cfg B t h = validate_that cfg (owned_is_valid B t h) ''owned''"

text \<open>The slow path of \<open>allocate\<close>: put slabs on the empty unsized stack.\<close>

definition heap_refill :: "config \<Rightarrow> 'c bracket \<Rightarrow> nat \<Rightarrow> 'c heap \<Rightarrow> 'c heap res" where
  "heap_refill cfg B t h =
     andthen (shared_pop cfg B t h) (\<lambda>(r, h1). case r of
       Some i \<Rightarrow>
         andthen (local_own cfg t i (record_event t Ev_GlobalToUnsized h1)) (\<lambda>h2.
         let (s, h3) = stack_push i (unsized h2 t) h2 in Inr (set_unsized t s h3))
     | None \<Rightarrow>
         andthen (shared_bump cfg B t h1) (\<lambda>((start, end), h2).
         andthen (slab_link cfg t start end None (record_event t Ev_Bump h2)) (\<lambda>h3.
         Inr (set_unsized t (stack_set (Some start) (batch_bump_pop cfg)) h3))))"

definition heap_allocate :: "config \<Rightarrow> 'c bracket \<Rightarrow> nat \<Rightarrow> 'c \<Rightarrow> 'c heap \<Rightarrow> (nat option \<times> 'c heap) res" where
  "heap_allocate cfg B t c h =
     (if b_is_zero B c then Inr (None, h)
      else andthen (unsized_to_sized cfg B t c h) (\<lambda>(moved, h1).
      andthen
        (if moved then Inr h1
         else andthen (heap_refill cfg B t h1) (\<lambda>h2. andthen (unsized_to_sized cfg B t c h2) (\<lambda>(_, h3). Inr h3)))
        (\<lambda>h4. let h5 = record_event t (Ev_UnsizedToSized c) h4 in
         andthen (validate_owned cfg B t h5) (\<lambda>_.
         andthen (class_index_ok B c) (\<lambda>_. Inr (st_head (sized h5 t c), h5))))))"

definition heap_peek ::
  "config \<Rightarrow> 'c bracket \<Rightarrow> nat \<Rightarrow> 'c \<Rightarrow> 'c heap \<Rightarrow> ((nat \<times> bit_addr) option \<times> 'c heap) res" where
  "heap_peek cfg B t c h =
     andthen (class_index_ok B c) (\<lambda>_.
     andthen
       (case st_head (sized h t c) of Some i \<Rightarrow> Inr (Some i, h) | None \<Rightarrow> heap_allocate cfg B t c h)
       (\<lambda>(r, h1). case r of
          None \<Rightarrow> Inr (None, h1)
        | Some i \<Rightarrow> andthen (bs_peek_unchecked (l_free (locals h1 i))) (\<lambda>block. Inr (Some (i, block), h1))))"

definition heap_attach :: "'c bracket \<Rightarrow> nat \<Rightarrow> 'c \<Rightarrow> nat \<Rightarrow> 'c heap \<Rightarrow> 'c heap res" where
  "heap_attach B t c i h =
     (let h1 = record_event t (Ev_Attach c) h in
      andthen (class_index_ok B c) (\<lambda>_.
      let (s, h2) = stack_push i (sized h1 t c) h1 in Inr (set_sized t c s h2)))"

text \<open>
  The prefix \<open>trace(..).inspect(disown).take(batch)\<close>: each element the iterator yields is
  disowned in validating builds.
\<close>

primrec disown_all :: "config \<Rightarrow> nat \<Rightarrow> nat list \<Rightarrow> 'c heap \<Rightarrow> 'c heap res" where
  "disown_all cfg t [] h = Inr h"
| "disown_all cfg t (i # is) h =
     andthen (if validate cfg then local_disown cfg t i h else Inr h) (disown_all cfg t is)"

definition unsized_to_global :: "config \<Rightarrow> 'c bracket \<Rightarrow> nat \<Rightarrow> 'c heap \<Rightarrow> 'c heap res" where
  "unsized_to_global cfg B t h =
     (let count = st_len (unsized h t) in
      if count \<le> count_cache_slab cfg then Inr h
      else
        let h1 = record_event t Ev_UnsizedToGlobal h;
            batch = batch_global_push cfg;
            prefix = trace_n (nxt h1) batch (st_head (unsized h1 t)) in
        andthen (disown_all cfg t prefix h1) (\<lambda>h2.
        andthen (require (prefix \<noteq> []) Unwrap_None) (\<lambda>_.
        let head = hd prefix; tail = last prefix; next = nxt h2 tail;
            h3 = ctx_log cfg t (into_state B (UnsizedToGlobalSave head)) h2 in
        andthen (sub_w cfg 64 count batch) (\<lambda>len.
        shared_push cfg B t head tail (set_unsized t (stack_set next len) h3)))))"

definition heap_claim :: "config \<Rightarrow> 'c bracket \<Rightarrow> nat \<Rightarrow> 'c \<Rightarrow> nat \<Rightarrow> 'c heap \<Rightarrow> 'c heap res" where
  "heap_claim cfg B t c i h =
     (let h1 = local_steal t i (record_event t (Ev_Claim c) h);
          (s, h2) = stack_push i (unsized h1 t) h1;
          h3 = set_unsized t s h2 in
      andthen (validate_owned cfg B t h3) (\<lambda>_. unsized_to_global cfg B t h3))"

definition heap_free_remote :: "config \<Rightarrow> 'c bracket \<Rightarrow> nat \<Rightarrow> nat \<Rightarrow> 'c heap \<Rightarrow> 'c heap res" where
  "heap_free_remote cfg B t i h =
     (let c = l_class (locals h i);
          h1 = record_event t (Ev_Free (b_size B c)) h in
      andthen
        (det_update cfg (get_remote i) (set_remote i) t
           (\<lambda>meta version h2.
              andthen (validate_that cfg (0 < meta) ''remote'') (\<lambda>_.
              andthen (dec_word cfg meta) (\<lambda>free.
              Inr (h2, Some (free, into_state B (Remote i version (meta = 1))))))) h1)
        (\<lambda>(r, h2). andthen (unwrap r) (\<lambda>meta.
         if meta = 1 then heap_claim cfg B t c i h2 else Inr h2)))"

definition heap_free :: "config \<Rightarrow> 'c bracket \<Rightarrow> nat \<Rightarrow> nat \<Rightarrow> 'c heap \<Rightarrow> 'c heap res" where
  "heap_free cfg B t off h =
     andthen (index_from_offset B off) (\<lambda>i.
     if l_owner (locals h i) \<noteq> Some t then heap_free_remote cfg B t i h
     else
       let c = l_class (locals h i) in
       andthen (into_block cfg B off c) (\<lambda>block.
       let h1 = record_event t (Ev_Free (b_size B c)) h;
           h2 = ctx_log cfg t (into_state B (ApplicationToSized i block)) h1 in
       andthen (bs_set cfg block (l_free (locals h2 i))) (\<lambda>free.
       let h3 = set_free i free h2; count = bs_len free in
       andthen (if count = 1 then heap_attach B t c i h3 else Inr h3) (\<lambda>h4.
       if count < b_blocks B c then Inr h4
       else
         andthen (sized_to_unsized cfg B t c i h4) (\<lambda>h5.
         andthen (validate_owned cfg B t h5) (\<lambda>_.
         unsized_to_global cfg B t (record_event t (Ev_SizedToUnsized c) h5)))))))"

end
