(* ===== verification/Heap_View.thy ===== *)
theory Heap_View
  imports Heap
begin

text \<open>
  What the heap operations do to the part of the state their correctness depends on: the view of a
  heap leaves out the help array, the log, the event sequence and the ids and versions of the cells.
  Each lemma runs one operation of \<open>Heap\<close> and gives the view it ends in.
\<close>

record 'c view =
  v_locals :: "nat \<Rightarrow> 'c local"
  v_remote :: "nat \<Rightarrow> 16 word"
  v_gfree :: "nat option"
  v_gbump :: "nat option"
  v_unsized :: "nat \<Rightarrow> stack"
  v_sized :: "nat \<Rightarrow> 'c \<Rightarrow> stack"

definition view :: "'c heap \<Rightarrow> 'c view" where
  "view h = \<lparr>v_locals = locals h, v_remote = (\<lambda>i. c_inner (remotes h i)), v_gfree = c_inner (gfree h),
     v_gbump = c_inner (gbump h), v_unsized = unsized h, v_sized = sized h\<rparr>"

definition nxtv :: "'c view \<Rightarrow> nat \<Rightarrow> nat option" where
  "nxtv v i = l_next (v_locals v i)"

definition vnext :: "nat \<Rightarrow> nat option \<Rightarrow> 'c view \<Rightarrow> 'c view" where
  "vnext i x v = v\<lparr>v_locals := (v_locals v)(i := (v_locals v i)\<lparr>l_next := x\<rparr>)\<rparr>"

definition vowner :: "nat \<Rightarrow> nat option \<Rightarrow> 'c view \<Rightarrow> 'c view" where
  "vowner i x v = v\<lparr>v_locals := (v_locals v)(i := (v_locals v i)\<lparr>l_owner := x\<rparr>)\<rparr>"

definition vclass :: "nat \<Rightarrow> 'c \<Rightarrow> 'c view \<Rightarrow> 'c view" where
  "vclass i x v = v\<lparr>v_locals := (v_locals v)(i := (v_locals v i)\<lparr>l_class := x\<rparr>)\<rparr>"

definition vfree :: "nat \<Rightarrow> bitset \<Rightarrow> 'c view \<Rightarrow> 'c view" where
  "vfree i x v = v\<lparr>v_locals := (v_locals v)(i := (v_locals v i)\<lparr>l_free := x\<rparr>)\<rparr>"

definition vremote :: "nat \<Rightarrow> 16 word \<Rightarrow> 'c view \<Rightarrow> 'c view" where
  "vremote i x v = v\<lparr>v_remote := (v_remote v)(i := x)\<rparr>"

definition vunsized :: "nat \<Rightarrow> stack \<Rightarrow> 'c view \<Rightarrow> 'c view" where
  "vunsized t s v = v\<lparr>v_unsized := (v_unsized v)(t := s)\<rparr>"

definition vsized :: "nat \<Rightarrow> 'c \<Rightarrow> stack \<Rightarrow> 'c view \<Rightarrow> 'c view" where
  "vsized t c s v = v\<lparr>v_sized := (v_sized v)(t := (v_sized v t)(c := s))\<rparr>"

lemmas view_setters = vnext_def vowner_def vclass_def vfree_def vremote_def vunsized_def vsized_def
lemmas heap_setters = set_next_def set_owner_def set_class_def set_free_def set_remote_def
  set_gfree_def set_gbump_def set_unsized_def set_sized_def record_event_def

lemma nxt_view: "nxt h = nxtv (view h)"
  by (simp add: fun_eq_iff nxt_def nxtv_def view_def)

subsection \<open>The view of each update\<close>

lemma view_ctx [simp]:
  "view (help_store i j v h) = view h"
  "view (log_unsync cfg t st h) = view h"
  "view (ctx_log cfg t st h) = view h"
  "view (det_help cfg t c h) = view h"
  "view (record_event t e h) = view h"
  by (simp_all add: view_def help_store_def log_unsync_def ctx_log_def det_help_def record_event_def
    split: option.splits)

lemma ctx_fields [simp]:
  "locals (help_store i j v h) = locals h" "remotes (help_store i j v h) = remotes h"
  "gfree (help_store i j v h) = gfree h" "gbump (help_store i j v h) = gbump h"
  "unsized (help_store i j v h) = unsized h" "sized (help_store i j v h) = sized h"
  "locals (log_unsync cfg t st h) = locals h" "remotes (log_unsync cfg t st h) = remotes h"
  "gfree (log_unsync cfg t st h) = gfree h" "gbump (log_unsync cfg t st h) = gbump h"
  "unsized (log_unsync cfg t st h) = unsized h" "sized (log_unsync cfg t st h) = sized h"
  "locals (ctx_log cfg t st h) = locals h" "remotes (ctx_log cfg t st h) = remotes h"
  "unsized (ctx_log cfg t st h) = unsized h" "sized (ctx_log cfg t st h) = sized h"
  "locals (det_help cfg t c h) = locals h" "remotes (det_help cfg t c h) = remotes h"
  "gfree (det_help cfg t c h) = gfree h" "gbump (det_help cfg t c h) = gbump h"
  "unsized (det_help cfg t c h) = unsized h" "sized (det_help cfg t c h) = sized h"
  "locals (record_event t e h) = locals h" "remotes (record_event t e h) = remotes h"
  "gfree (record_event t e h) = gfree h" "gbump (record_event t e h) = gbump h"
  "unsized (record_event t e h) = unsized h" "sized (record_event t e h) = sized h"
  by (simp_all add: help_store_def log_unsync_def ctx_log_def det_help_def record_event_def
    split: option.splits)

lemma nxt_ctx [simp]:
  "nxt (help_store i j v h) = nxt h" "nxt (log_unsync cfg t st h) = nxt h"
  "nxt (ctx_log cfg t st h) = nxt h" "nxt (det_help cfg t c h) = nxt h"
  "nxt (record_event t e h) = nxt h"
  by (simp_all add: nxt_view)

lemma view_set [simp]:
  "view (set_next i x h) = vnext i x (view h)"
  "view (set_owner i x h) = vowner i x (view h)"
  "view (set_class i c h) = vclass i c (view h)"
  "view (set_free i b h) = vfree i b (view h)"
  "view (set_remote i r h) = vremote i (c_inner r) (view h)"
  "view (set_gfree g h) = (view h)\<lparr>v_gfree := c_inner g\<rparr>"
  "view (set_gbump g h) = (view h)\<lparr>v_gbump := c_inner g\<rparr>"
  "view (set_unsized t s h) = vunsized t s (view h)"
  "view (set_sized t c s h) = vsized t c s (view h)"
  by (simp_all add: view_def heap_setters view_setters fun_eq_iff)

lemma view_sel:
  "locals h = v_locals (view h)" "c_inner (remotes h i) = v_remote (view h) i"
  "c_inner (gfree h) = v_gfree (view h)" "c_inner (gbump h) = v_gbump (view h)"
  "unsized h = v_unsized (view h)" "sized h = v_sized (view h)"
  by (simp_all add: view_def)

lemma nxt_set [simp]:
  "nxt (set_next i x h) = (nxt h)(i := x)"
  "nxt (set_owner i v h) = nxt h" "nxt (set_class i c h) = nxt h" "nxt (set_free i b h) = nxt h"
  "nxt (set_remote i r h) = nxt h" "nxt (set_gfree g h) = nxt h" "nxt (set_gbump g h) = nxt h"
  "nxt (set_unsized t s h) = nxt h" "nxt (set_sized t c s h) = nxt h"
  by (simp_all add: fun_eq_iff nxt_def heap_setters)

subsection \<open>Cells\<close>

lemma view_det_store:
  "view (det_store cfg (get_remote i) (set_remote i) t r h) = vremote i r (view h)"
  by (simp add: det_store_def Let_def)

lemma det_load_remote: "det_load cfg (get_remote i) t h = (v_remote (view h) i, det_help cfg t (remotes h i) h)"
  by (simp add: det_load_def Let_def get_remote_def view_def)

lemma global_push_exec:
  "\<exists>h'. global_push cfg B t head tail h = Inr h' \<and>
    view h' = (vnext tail (v_gfree (view h)) (view h))\<lparr>v_gfree := Some head\<rparr>"
  by (auto simp: global_push_def det_update_def Let_def view_sel(3))

lemma shared_pop_exec:
  "\<exists>h'. shared_pop cfg B t h = Inr (v_gfree (view h), h') \<and>
    view h' = (case v_gfree (view h) of None \<Rightarrow> view h
      | Some i \<Rightarrow> (view h)\<lparr>v_gfree := nxtv (view h) i\<rparr>)"
  by (auto simp: shared_pop_def global_is_empty_def det_load_def global_pop_def det_update_def Let_def
    view_sel(3) nxt_view split: option.splits)

lemma shared_bump_exec:
  assumes "or_min (v_gbump (view h)) + batch_bump_pop cfg < 2 ^ 32"
  shows "\<exists>h'. shared_bump cfg B t h =
      Inr ((or_min (v_gbump (view h)), or_min (v_gbump (view h)) + batch_bump_pop cfg), h') \<and>
    view h' = (view h)\<lparr>v_gbump := Some (or_min (v_gbump (view h)) + batch_bump_pop cfg)\<rparr>"
proof -
  have "batch_bump_pop cfg mod 2 ^ 32 = batch_bump_pop cfg" using assms by (intro mod_less) simp
  moreover have "index_add (or_min (v_gbump (view h))) (batch_bump_pop cfg)
      = Inr (or_min (v_gbump (view h)) + batch_bump_pop cfg)"
    using assms by (simp add: index_add_def checked_add_w_def)
  ultimately show ?thesis unfolding shared_bump_def Let_def det_update_def
    by (auto simp: view_sel(4) Let_def)
qed

lemma shared_bump_overflow:
  assumes "2 ^ 32 \<le> or_min (v_gbump (view h)) + batch_bump_pop cfg" and "batch_bump_pop cfg < 2 ^ 32"
  shows "shared_bump cfg B t h = Inl Unwrap_None"
proof -
  have "index_add (or_min (v_gbump (view h))) (batch_bump_pop cfg) = Inl Unwrap_None"
    using assms(1) by (simp add: index_add_def checked_add_w_def)
  then show ?thesis using assms(2) unfolding shared_bump_def Let_def det_update_def
    by (simp add: view_sel(4) Let_def)
qed

end
