(* ===== verification/Heap_Inv.thy ===== *)
theory Heap_Inv
  imports Heap_View
begin

text \<open>
  The invariant of a heap and its preservation by each move of a slab or a block. A ghost state says
  which list every stack holds, where every slab is, and which blocks of it are live (allocated and
  not yet freed). The free blocks and the live blocks of a slab are disjoint and together as many as
  its remote counter, which is what makes the last remote free the one that may claim the slab.
\<close>

record 'c ghost =
  lst :: "'c slot \<Rightarrow> nat list"
  pl :: "nat \<Rightarrow> 'c place"
  live :: "nat \<Rightarrow> nat set"

definition heads :: "'c view \<Rightarrow> 'c slot \<Rightarrow> nat option" where
  "heads v s = (case s of SUnsized t \<Rightarrow> st_head (v_unsized v t) | SSized t c \<Rightarrow> st_head (v_sized v t c)
     | SGlobal \<Rightarrow> v_gfree v)"

definition lens :: "'c view \<Rightarrow> 'c slot \<Rightarrow> nat" where
  "lens v s = (case s of SUnsized t \<Rightarrow> st_len (v_unsized v t) | SSized t c \<Rightarrow> st_len (v_sized v t c)
     | SGlobal \<Rightarrow> 0)"

definition frontier :: "'c view \<Rightarrow> nat" where
  "frontier v = or_min (v_gbump v)"

definition classes :: "'c view \<Rightarrow> nat \<Rightarrow> 'c" where
  "classes v i = l_class (v_locals v i)"

definition counts_ok :: "'c bracket \<Rightarrow> 'c local \<Rightarrow> 16 word \<Rightarrow> nat set \<Rightarrow> bool" where
  "counts_ok B l r A \<longleftrightarrow>
     class_ok B (l_class l) \<and> bs_inv (ROWS B) (l_free l) \<and>
     bits (l_free l) \<subseteq> {0..<b_blocks B (l_class l)} \<and> A \<subseteq> {0..<b_blocks B (l_class l)} \<and>
     bits (l_free l) \<inter> A = {} \<and> card (bits (l_free l)) + card A = unat r \<and>
     unat r \<le> b_blocks B (l_class l)"

definition slab_ok :: "config \<Rightarrow> 'c bracket \<Rightarrow> 'c place \<Rightarrow> 'c local \<Rightarrow> 16 word \<Rightarrow> nat set \<Rightarrow> bool" where
  "slab_ok cfg B p l r A \<longleftrightarrow>
     length (bs_dense (l_free l)) = ROWS B \<and>
     (case p of
        Unbumped \<Rightarrow> l_owner l = None \<and> A = {}
      | Detached \<Rightarrow> bits (l_free l) = {} \<and> A \<noteq> {} \<and> counts_ok B l r A
      | At s \<Rightarrow> (case s of
          SUnsized t \<Rightarrow> l_owner l = Some t \<and> A = {}
        | SGlobal \<Rightarrow> (validate cfg \<longrightarrow> l_owner l = None) \<and> A = {}
        | SSized t c \<Rightarrow> l_owner l = Some t \<and> l_class l = c \<and> bits (l_free l) \<noteq> {} \<and> counts_ok B l r A))"

text \<open>
  The recorded length of a stack: exact for the unsized stacks. \<open>sized_to_unsized\<close> does not
  decrement the length of a sized stack when it removes a slab from its middle, so there the
  recorded length may be too large; a validating build stops at that point, so in such a build
  the lengths of all reachable states are exact.
\<close>

definition len_ok :: "config \<Rightarrow> 'c slot \<Rightarrow> nat \<Rightarrow> nat \<Rightarrow> bool" where
  "len_ok cfg s n m \<longleftrightarrow> m \<le> n \<and> (validate cfg \<or> (\<exists>t. s = SUnsized t) \<longrightarrow> n = m)"

lemma len_ok_simps [simp]:
  "len_ok cfg (SUnsized t) n m \<longleftrightarrow> n = m"
  "len_ok cfg (SSized t c) n m \<longleftrightarrow> m \<le> n \<and> (validate cfg \<longrightarrow> n = m)"
  by (auto simp: len_ok_def)

lemma len_ok_Suc: "len_ok cfg s n m \<Longrightarrow> len_ok cfg s (Suc n) (Suc m)"
  by (auto simp: len_ok_def)

lemma len_ok_pred: "len_ok cfg s n (Suc m) \<Longrightarrow> len_ok cfg s (n - 1) m"
  by (auto simp: len_ok_def)

definition vinv :: "config \<Rightarrow> 'c bracket \<Rightarrow> 'c view \<Rightarrow> 'c ghost \<Rightarrow> bool" where
  "vinv cfg B v g \<longleftrightarrow>
     lists_ok (nxtv v) (heads v) (lst g) (pl g) \<and>
     (\<forall>s. s \<noteq> SGlobal \<longrightarrow> len_ok cfg s (lens v s) (length (lst g s))) \<and>
     (\<forall>i. slab_ok cfg B (pl g i) (v_locals v i) (v_remote v i) (live g i)) \<and>
     (\<forall>i. pl g i = Unbumped \<longleftrightarrow> i = 0 \<or> frontier v \<le> i) \<and>
     frontier v < 2 ^ 32 \<and> 0 < frontier v"

definition heap_inv :: "config \<Rightarrow> 'c bracket \<Rightarrow> 'c heap \<Rightarrow> 'c ghost \<Rightarrow> bool" where
  "heap_inv cfg B h g \<longleftrightarrow> vinv cfg B (view h) g"

text \<open>The configurations under which the batch transfers stay inside the stacks.\<close>

definition config_ok :: "config \<Rightarrow> bool" where
  "config_ok cfg \<longleftrightarrow> 1 \<le> batch_global_push cfg \<and> batch_global_push cfg \<le> count_cache_slab cfg + 1 \<and>
     1 \<le> batch_bump_pop cfg \<and> batch_bump_pop cfg < 2 ^ 32"

subsection \<open>Reading the view\<close>

lemma nxtv_set [simp]:
  "nxtv (vnext i x v) = (nxtv v)(i := x)" "nxtv (vowner i o' v) = nxtv v" "nxtv (vclass i c v) = nxtv v"
  "nxtv (vfree i b v) = nxtv v" "nxtv (vremote i r v) = nxtv v" "nxtv (vunsized t s v) = nxtv v"
  "nxtv (vsized t c s v) = nxtv v" "nxtv (v\<lparr>v_gfree := x\<rparr>) = nxtv v" "nxtv (v\<lparr>v_gbump := x\<rparr>) = nxtv v"
  by (simp_all add: fun_eq_iff nxtv_def view_setters)

lemma heads_set [simp]:
  "heads (vnext i x v) = heads v" "heads (vowner i o' v) = heads v" "heads (vclass i c v) = heads v"
  "heads (vfree i b v) = heads v" "heads (vremote i r v) = heads v"
  "heads (vunsized t s v) = (heads v)(SUnsized t := st_head s)"
  "heads (vsized t c s v) = (heads v)(SSized t c := st_head s)"
  "heads (v\<lparr>v_gfree := x\<rparr>) = (heads v)(SGlobal := x)" "heads (v\<lparr>v_gbump := x\<rparr>) = heads v"
  by (auto simp: fun_eq_iff heads_def view_setters split: slot.splits)

lemma lens_set [simp]:
  "lens (vnext i x v) = lens v" "lens (vowner i o' v) = lens v" "lens (vclass i c v) = lens v"
  "lens (vfree i b v) = lens v" "lens (vremote i r v) = lens v"
  "lens (vunsized t s v) = (lens v)(SUnsized t := st_len s)"
  "lens (vsized t c s v) = (lens v)(SSized t c := st_len s)"
  "lens (v\<lparr>v_gfree := x\<rparr>) = lens v" "lens (v\<lparr>v_gbump := x\<rparr>) = lens v"
  by (auto simp: fun_eq_iff lens_def view_setters split: slot.splits)

lemma frontier_set [simp]:
  "frontier (vnext i x v) = frontier v" "frontier (vowner i o' v) = frontier v" "frontier (vclass i c v) = frontier v"
  "frontier (vfree i b v) = frontier v" "frontier (vremote i r v) = frontier v"
  "frontier (vunsized t s v) = frontier v" "frontier (vsized t c s v) = frontier v"
  "frontier (v\<lparr>v_gfree := x\<rparr>) = frontier v" "frontier (v\<lparr>v_gbump := x\<rparr>) = or_min x"
  by (simp_all add: frontier_def view_setters)

lemma v_remote_set [simp]:
  "v_remote (vnext i x v) = v_remote v" "v_remote (vowner i o' v) = v_remote v" "v_remote (vclass i c v) = v_remote v"
  "v_remote (vfree i b v) = v_remote v" "v_remote (vremote i r v) = (v_remote v)(i := r)"
  "v_remote (vunsized t s v) = v_remote v" "v_remote (vsized t c s v) = v_remote v"
  by (simp_all add: view_setters)

lemma v_locals_set [simp]:
  "v_locals (vnext i x v) = (v_locals v)(i := (v_locals v i)\<lparr>l_next := x\<rparr>)"
  "v_locals (vowner i o' v) = (v_locals v)(i := (v_locals v i)\<lparr>l_owner := o'\<rparr>)"
  "v_locals (vclass i c v) = (v_locals v)(i := (v_locals v i)\<lparr>l_class := c\<rparr>)"
  "v_locals (vfree i b v) = (v_locals v)(i := (v_locals v i)\<lparr>l_free := b\<rparr>)"
  "v_locals (vremote i r v) = v_locals v"
  "v_locals (vunsized t s v) = v_locals v" "v_locals (vsized t c s v) = v_locals v"
  by (simp_all add: view_setters)

lemma classes_set [simp]:
  "classes (vnext i x v) = classes v" "classes (vowner i o' v) = classes v"
  "classes (vclass i c v) = (classes v)(i := c)" "classes (vfree i b v) = classes v"
  "classes (vremote i r v) = classes v" "classes (vunsized t s v) = classes v"
  "classes (vsized t c' s v) = classes v" "classes (v\<lparr>v_gfree := x\<rparr>) = classes v"
  "classes (v\<lparr>v_gbump := x\<rparr>) = classes v"
  by (simp_all add: fun_eq_iff classes_def view_setters)

lemma v_stacks_set [simp]:
  "v_unsized (vnext i x v) = v_unsized v" "v_unsized (vowner i o' v) = v_unsized v" "v_unsized (vclass i c v) = v_unsized v"
  "v_unsized (vfree i b v) = v_unsized v" "v_unsized (vremote i r v) = v_unsized v"
  "v_unsized (vunsized t s v) = (v_unsized v)(t := s)" "v_unsized (vsized t c s v) = v_unsized v"
  "v_sized (vnext i x v) = v_sized v" "v_sized (vowner i o' v) = v_sized v" "v_sized (vclass i c v) = v_sized v"
  "v_sized (vfree i b v) = v_sized v" "v_sized (vremote i r v) = v_sized v"
  "v_sized (vunsized t s v) = v_sized v" "v_sized (vsized t c s v) = (v_sized v)(t := (v_sized v t)(c := s))"
  by (simp_all add: view_setters)

lemma v_locals_update_frame [simp]:
  "heads (v\<lparr>v_locals := x\<rparr>) = heads v" "lens (v\<lparr>v_locals := x\<rparr>) = lens v"
  "frontier (v\<lparr>v_locals := x\<rparr>) = frontier v"
  by (simp_all add: fun_eq_iff heads_def lens_def frontier_def split: slot.splits)

lemma counts_ok_next [simp]:
  "counts_ok B (l\<lparr>l_next := x\<rparr>) r A = counts_ok B l r A"
  "counts_ok B (l\<lparr>l_owner := y\<rparr>) r A = counts_ok B l r A"
  by (simp_all add: counts_ok_def)

lemma slab_ok_next [simp]: "slab_ok cfg B p (l\<lparr>l_next := x\<rparr>) r A = slab_ok cfg B p l r A"
  by (simp add: slab_ok_def counts_ok_def cong: place.case_cong slot.case_cong)

lemma heads_stack: "st_head (v_unsized v t) = heads v (SUnsized t)" "st_head (v_sized v t c) = heads v (SSized t c)"
  "v_gfree v = heads v SGlobal"
  by (simp_all add: heads_def)

lemma lens_stack: "st_len (v_unsized v t) = lens v (SUnsized t)" "st_len (v_sized v t c) = lens v (SSized t c)"
  by (simp_all add: lens_def)

text \<open>Running an operation: every read is normalised to a read of the view.\<close>

lemmas exec = view_sel nxt_view heads_stack lens_stack Let_def class_index_ok_def stack_push_def
  view_det_store arith_w

subsection \<open>Using the invariant\<close>

lemma vinvD:
  assumes "vinv cfg B v g"
  shows "lists_ok (nxtv v) (heads v) (lst g) (pl g)"
    and "s \<noteq> SGlobal \<Longrightarrow> len_ok cfg s (lens v s) (length (lst g s))"
    and "slab_ok cfg B (pl g i) (v_locals v i) (v_remote v i) (live g i)"
    and "pl g i = Unbumped \<longleftrightarrow> i = 0 \<or> frontier v \<le> i"
    and "frontier v < 2 ^ 32" and "0 < frontier v"
  using assms by (auto simp: vinv_def)

lemma vinvI:
  assumes "lists_ok (nxtv v) (heads v) (lst g) (pl g)"
    and "\<And>s. s \<noteq> SGlobal \<Longrightarrow> len_ok cfg s (lens v s) (length (lst g s))"
    and "\<And>i. slab_ok cfg B (pl g i) (v_locals v i) (v_remote v i) (live g i)"
    and "\<And>i. pl g i = Unbumped \<longleftrightarrow> i = 0 \<or> frontier v \<le> i"
    and "frontier v < 2 ^ 32" and "0 < frontier v"
  shows "vinv cfg B v g"
  using assms by (simp add: vinv_def)

lemma vinv_lens:
  assumes "vinv cfg B v g"
  shows "length (lst g (SSized t c)) \<le> lens v (SSized t c)"
    and "validate cfg \<Longrightarrow> lens v (SSized t c) = length (lst g (SSized t c))"
    and "lens v (SUnsized t) = length (lst g (SUnsized t))"
  using vinvD(2) [OF assms, of "SSized t c"] vinvD(2) [OF assms, of "SUnsized t"] by simp_all

lemma vinv_head:
  assumes "vinv cfg B v g" and "heads v s = Some i"
  shows "pl g i = At s" and "lst g s = i # tl (lst g s)" and "s \<noteq> SGlobal \<Longrightarrow> len_ok cfg s (lens v s) (Suc (length (tl (lst g s))))"
    and "0 < i"
proof -
  show p: "pl g i = At s" and l: "lst g s = i # tl (lst g s)"
    using lists_ok_head [OF vinvD(1) [OF assms(1)] assms(2)] by blast+
  show "len_ok cfg s (lens v s) (Suc (length (tl (lst g s))))" if "s \<noteq> SGlobal"
    using vinvD(2) [OF assms(1) that] l by (metis length_Cons)
  show "0 < i" using p vinvD(4) [OF assms(1), of i] by (auto intro: Nat.gr0I)
qed

lemma vinv_slab_length: "vinv cfg B v g \<Longrightarrow> length (bs_dense (l_free (v_locals v i))) = ROWS B"
  using vinvD(3) [of cfg B v g i] by (simp add: slab_ok_def)

subsection \<open>Changing one slab\<close>

definition g_set :: "nat \<Rightarrow> 'c place \<Rightarrow> nat set \<Rightarrow> ('c slot \<Rightarrow> nat list) \<Rightarrow> 'c ghost \<Rightarrow> 'c ghost" where
  "g_set i p A ls g = \<lparr>lst = ls, pl = (pl g)(i := p), live = (live g)(i := A)\<rparr>"

lemma g_set_simps [simp]:
  "lst (g_set i p A ls g) = ls" "pl (g_set i p A ls g) = (pl g)(i := p)"
  "live (g_set i p A ls g) = (live g)(i := A)"
  by (simp_all add: g_set_def)

lemma vinv_change_one:
  assumes inv: "vinv cfg B v g"
    and lists: "lists_ok (nxtv v') (heads v') ls ((pl g)(i := p))"
    and len: "\<And>s. s \<noteq> SGlobal \<Longrightarrow> len_ok cfg s (lens v' s) (length (ls s))"
    and slab: "slab_ok cfg B p (v_locals v' i) (v_remote v' i) A"
    and other: "\<And>j. j \<noteq> i \<Longrightarrow> (\<exists>x. v_locals v' j = (v_locals v j)\<lparr>l_next := x\<rparr>) \<and> v_remote v' j = v_remote v j"
    and fr: "frontier v' = frontier v" and p: "pl g i \<noteq> Unbumped" "p \<noteq> Unbumped"
  shows "vinv cfg B v' (g_set i p A ls g)"
proof (rule vinvI)
  show "slab_ok cfg B (pl (g_set i p A ls g) j) (v_locals v' j) (v_remote v' j) (live (g_set i p A ls g) j)" for j
  proof (cases "j = i")
    case False
    then obtain x where "v_locals v' j = (v_locals v j)\<lparr>l_next := x\<rparr>" "v_remote v' j = v_remote v j"
      using other by blast
    then show ?thesis using False vinvD(3) [OF inv, of j] by simp
  qed (use slab in simp)
  show "pl (g_set i p A ls g) j = Unbumped \<longleftrightarrow> j = 0 \<or> frontier v' \<le> j" for j
    using p fr vinvD(4) [OF inv, of j] by auto
qed (use lists len fr vinvD(5,6) [OF inv] in simp_all)

lemma local_next_self: "\<exists>x. l = l\<lparr>l_next := x\<rparr>" for l :: "'c local"
  by (rule exI [of _ "l_next l"]) simp

lemma local_next_upd: "\<exists>x. l\<lparr>l_next := y\<rparr> = l\<lparr>l_next := x\<rparr>" for l :: "'c local"
  by blast

lemmas one_slab = local_next_self local_next_upd

subsection \<open>Moves between stacks\<close>

context bracket_laws
begin

lemma counts_ok_fresh:
  assumes "class_ok B c" and "bs_inv (ROWS B) fr" and "bits fr = {0..<b_blocks B c}"
    and "l_class l = c" and "l_free l = fr"
  shows "counts_ok B l (of_nat (b_blocks B c)) {}"
  using assms blocks_u16 [OF assms(1)] by (simp add: counts_ok_def unat_of_nat)

lemma unsized_to_sized_ok:
  assumes inv: "vinv cfg B (view h) g" and hd: "heads (view h) (SUnsized t) = Some i" and c: "class_ok B c"
  shows "\<exists>h' g'. unsized_to_sized cfg B t c h = Inr (True, h') \<and> vinv cfg B (view h') g' \<and>
    live g' = live g \<and> heads (view h') (SSized t c) = Some i \<and>
    live g i = {} \<and> classes (view h') = (classes (view h))(i := c) \<and> frontier (view h') = frontier (view h)"
proof -
  let ?v = "view h"
  note H = vinv_head [OF inv hd]
  obtain fr where fr: "bs_fill (b_blocks B c) (l_free (v_locals ?v i)) = Inr fr" "bs_inv (ROWS B) fr"
    "bits fr = {0..<b_blocks B c}"
    using bs_fill_spec [OF vinv_slab_length [OF inv] rows_max blocks_rows [OF c]] by blast
  have own: "l_owner (v_locals ?v i) = Some t" "live g i = {}"
    using vinvD(3) [OF inv, of i] H(1) by (simp_all add: slab_ok_def)
  define v' where "v' = vunsized t (stack_set (nxtv ?v i) (lens ?v (SUnsized t) - 1))
    (vremote i (of_nat (b_blocks B c)) (vsized t c (stack_set (Some i) (lens ?v (SSized t c) + 1))
    (vnext i (heads ?v (SSized t c)) (vfree i fr (vclass i c ?v)))))"
  have "1 \<le> lens ?v (SUnsized t)" using H(3) by simp
  then obtain h' where h': "unsized_to_sized cfg B t c h = Inr (True, h')" "view h' = v'"
    using hd fr c
    by (simp add: unsized_to_sized_def exec class_ok_def v'_def)
  let ?ls = "(lst g)(SUnsized t := tl (lst g (SUnsized t)), SSized t c := i # lst g (SSized t c))"
  have "lists_ok ((nxtv ?v)(i := heads ?v (SSized t c))) ((heads ?v)(SSized t c := Some i, SUnsized t := nxtv ?v i))
      ?ls ((pl g)(i := At (SSized t c)))"
    using lists_ok_push [OF lists_ok_pop [OF vinvD(1) [OF inv] hd], of i "SSized t c"]
    by (simp add: fun_upd_twist)
  then have "vinv cfg B v' (g_set i (At (SSized t c)) {} ?ls g)"
    using H vinvD(2) [OF inv] vinv_lens [OF inv] own fr c blocks_pos [OF c]
    by (intro vinv_change_one [OF inv])
      (auto simp: v'_def stack_set_def one_slab slab_ok_def bs_invD(1) intro!: counts_ok_fresh)
  moreover have "live (g_set i (At (SSized t c)) {} ?ls g) = live g" using own by (simp add: fun_upd_idem)
  moreover have "heads v' (SSized t c) = Some i" "classes v' = (classes ?v)(i := c)" "frontier v' = frontier ?v"
    by (simp_all add: v'_def stack_set_def)
  ultimately show ?thesis using h' own(2) by blast
qed

end

end
