(* ===== verification/Heap_Ops.thy ===== *)
theory Heap_Ops
  imports Heap_Inv
begin

text \<open>
  The operations of a heap keep its invariant, never fail (except for running out of 32-bit slab
  indices when bumping), and change the live blocks exactly as an allocator should.
\<close>

subsection \<open>Validation\<close>

lemma stack_valid:
  assumes "vinv cfg B (view h) g" and "validate cfg"
  shows "stack_is_valid h (unsized h t)" and "stack_is_valid h (sized h t c)"
    and "stack_trace h (unsized h t) = lst g (SUnsized t)"
    and "stack_trace h (sized h t c) = lst g (SSized t c)"
proof -
  have ch: "chain (nxtv (view h)) (heads (view h) s) (lst g s)" for s
    using lists_okD(1) [OF vinvD(1) [OF assms(1)]] .
  note L = vinv_lens [OF assms(1)]
  show "stack_is_valid h (unsized h t)" "stack_trace h (unsized h t) = lst g (SUnsized t)"
    using L(3) [of t] by (simp_all add: stack_is_valid_def stack_trace_def exec trace_n_chain [OF ch] del: trace_n.simps)
  show "stack_is_valid h (sized h t c)" "stack_trace h (sized h t c) = lst g (SSized t c)"
    using L(2) [of t c] assms(2)
    by (simp_all add: stack_is_valid_def stack_trace_def exec trace_n_chain [OF ch] del: trace_n.simps)
qed

context bracket_laws
begin

lemma distinct_classes: "distinct (List.map_filter (b_from_index B) [0..<COUNT B])"
proof -
  have "n \<le> COUNT B \<Longrightarrow> distinct (List.map_filter (b_from_index B) [0..<n]) \<and>
      (\<forall>c \<in> set (List.map_filter (b_from_index B) [0..<n]). b_index B c < n)" for n
  proof (induction n)
    case (Suc n)
    then obtain c where "b_from_index B n = Some c" "b_index B c = n"
      using index_onto [of n] by auto
    with Suc show ?case by (fastforce simp: List.map_filter_def)
  qed (simp add: List.map_filter_def)
  then show ?thesis by blast
qed

lemma validate_owned_ok:
  assumes inv: "vinv cfg B (view h) g"
  shows "validate_owned cfg B t h = Inr ()"
proof (cases "validate cfg")
  case True
  note V = stack_valid [OF inv True] and D = lists_okD [OF vinvD(1) [OF inv]]
  have us: "l_owner (locals h i) = Some t" if "i \<in> set (lst g (SUnsized t))" for i
    using that vinvD(3) [OF inv, of i] D(3) [of i "SUnsized t"] by (simp add: slab_ok_def view_sel)
  have ss: "0 < bs_len (l_free (locals h i)) \<and> l_class (locals h i) = c \<and> l_owner (locals h i) = Some t"
    if "i \<in> set (lst g (SSized t c))" for i c
    using that vinvD(3) [OF inv, of i] D(3) [of i "SSized t c"] bs_len_card [of "ROWS B"]
    by (auto simp: slab_ok_def view_sel counts_ok_def card_gt_0_iff)
  let ?cs = "List.map_filter (b_from_index B) [0..<COUNT B]"
  have "distinct (concat (map (\<lambda>c. lst g (SSized t c)) cs))" if "distinct cs" for cs
    using that by (induction cs) (auto simp: D)
  moreover have "set (lst g (SUnsized t)) \<inter> set (lst g (SSized t c)) = {}" for c
    using D(3) by auto
  ultimately have "distinct (lst g (SUnsized t) @ concat (map (\<lambda>c. lst g (SSized t c)) ?cs))"
    using D(2) distinct_classes by auto
  then have "owned_is_valid B t h"
    unfolding owned_is_valid_def Let_def V(3,4) using V(1,2) us ss by blast
  then show ?thesis by (simp add: validate_owned_def)
qed (simp add: validate_owned_def validate_that_def)

end

subsection \<open>Bumping\<close>

definition linked :: "nat \<Rightarrow> nat \<Rightarrow> nat \<Rightarrow> nat option \<Rightarrow> (nat \<Rightarrow> 'c local) \<Rightarrow> nat \<Rightarrow> 'c local" where
  "linked t a e head ls i =
     (if a \<le> i \<and> i < e
      then (ls i)\<lparr>l_owner := Some t, l_next := if i + 1 < e then Some (i + 1) else head\<rparr> else ls i)"

lemma slab_link_exec:
  assumes "\<And>i. a \<le> i \<Longrightarrow> i < e \<Longrightarrow> l_owner (v_locals (view h) i) = None"
  shows "\<exists>h'. slab_link cfg t a e head h = Inr h' \<and>
    view h' = (view h)\<lparr>v_locals := linked t a e head (v_locals (view h))\<rparr>"
  using assms
proof (induction cfg t a e head h rule: slab_link.induct)
  case (1 cfg t a e head h)
  show ?case
  proof (cases "a < e")
    case True
    let ?h = "set_next a (if a + 1 < e then Some (a + 1) else head) (set_owner a (Some t) h)"
    have own: "local_own cfg t a h = Inr (set_owner a (Some t) h)"
      using "1.prems" True by (simp add: local_own_def view_sel)
    have "\<exists>h'. slab_link cfg t (a + 1) e head ?h = Inr h' \<and>
        view h' = (view ?h)\<lparr>v_locals := linked t (a + 1) e head (v_locals (view ?h))\<rparr>"
    proof (rule "1.IH" [OF True])
      show "l_owner (v_locals (view ?h) i) = None" if "a + 1 \<le> i" "i < e" for i
        using that "1.prems" by simp
    qed
    moreover have "linked t (a + 1) e head (v_locals (view ?h)) = linked t a e head (v_locals (view h))"
      using True by (auto simp: fun_eq_iff linked_def)
    moreover have "slab_link cfg t a e head h = slab_link cfg t (a + 1) e head ?h"
      using True own by (simp add: slab_link.simps [of cfg t a])
    moreover have "(view ?h)\<lparr>v_locals := x\<rparr> = (view h)\<lparr>v_locals := x\<rparr>" for x
      by (simp add: view_setters)
    ultimately show ?thesis by simp
  next
    case False
    then have "linked t a e head (v_locals (view h)) = v_locals (view h)" by (auto simp: linked_def fun_eq_iff)
    then show ?thesis using False by (simp add: slab_link.simps [of cfg t a])
  qed
qed

lemma classes_linked: "classes (v\<lparr>v_locals := linked t a e head (v_locals w)\<rparr>) = classes w"
  by (auto simp: fun_eq_iff classes_def linked_def)

lemma chain_linked: "a < e \<Longrightarrow> chain (\<lambda>i. l_next (linked t a e None ls i)) (Some a) [a..<e]"
proof -
  have "chain (\<lambda>i. l_next (linked t a e None ls i)) (if b < e then Some b else None) [b..<e]" if "a \<le> b" for b
    using that
  proof (induction "e - b" arbitrary: b)
    case (Suc n)
    then have "b < e" by simp
    then have "[b..<e] = b # [Suc b..<e]" by (rule upt_conv_Cons)
    moreover have "l_next (linked t a e None ls b) = (if Suc b < e then Some (Suc b) else None)"
      using Suc.prems \<open>b < e\<close> by (simp add: linked_def)
    ultimately show ?case using Suc.hyps(1) [of "Suc b"] Suc.hyps(2) Suc.prems \<open>b < e\<close> by simp
  qed simp
  from this [of a] show "a < e \<Longrightarrow> ?thesis" by simp
qed

lemma vinv_bump:
  fixes v :: "'c view"
  assumes inv: "vinv cfg B v g" and empty: "heads v (SUnsized t) = None"
    and n: "1 \<le> n" "frontier v + n < 2 ^ 32"
  defines "a \<equiv> frontier v" and "e \<equiv> frontier v + n"
  shows "\<exists>g'. vinv cfg B (vunsized t (stack_set (Some a) n)
      (v\<lparr>v_gbump := Some e, v_locals := linked t a e None (v_locals v)\<rparr>)) g' \<and> live g' = live g"
proof -
  let ?v = "vunsized t (stack_set (Some a) n) (v\<lparr>v_gbump := Some e, v_locals := linked t a e None (v_locals v)\<rparr>)"
  let ?new = "\<lambda>i. a \<le> i \<and> i < e"
  define g' where "g' = \<lparr>lst = (lst g)(SUnsized t := [a..<e]),
    pl = (\<lambda>i. if i \<in> set [a..<e] then At (SUnsized t) else pl g i), live = live g\<rparr>"
  have ae: "a < e" using n by (simp add: a_def e_def)
  have a: "0 < a" using vinvD(6) [OF inv] by (simp add: a_def)
  have un: "pl g i = Unbumped" if "?new i" for i
    using that vinvD(4) [OF inv, of i] by (simp add: a_def)
  have nx: "nxtv ?v = (\<lambda>i. l_next (linked t a e None (v_locals v) i))"
    by (simp add: fun_eq_iff nxtv_def)
  have "lists_ok (nxtv ?v) (heads v) (lst g) (pl g)"
  proof (rule lists_ok_frame [OF vinvD(1) [OF inv]])
    show "nxtv ?v i = nxtv v i" if "pl g i = At r" for i r
      using that un [of i] unfolding nx by (auto simp: linked_def nxtv_def)
  qed simp
  then have lists: "lists_ok (nxtv ?v) ((heads v)(SUnsized t := Some a)) (lst g') (pl g')"
    using lists_ok_install [of "nxtv ?v" "heads v" "lst g" "pl g" "SUnsized t" "Some a" "[a..<e]"]
      lists_ok_empty [OF vinvD(1) [OF inv] empty] chain_linked [OF ae, of t "v_locals v"] un
    unfolding g'_def nx by simp
  have "vinv cfg B ?v g'"
  proof (rule vinvI)
    show "lists_ok (nxtv ?v) (heads ?v) (lst g') (pl g')" using lists by (simp add: stack_set_def)
    show "len_ok cfg s (lens ?v s) (length (lst g' s))" if "s \<noteq> SGlobal" for s
      using vinvD(2) [OF inv that] by (simp add: g'_def stack_set_def a_def e_def)
    show "slab_ok cfg B (pl g' i) (v_locals ?v i) (v_remote ?v i) (live g' i)" for i
    proof (cases "?new i")
      case True
      then show ?thesis using vinvD(3) [OF inv, of i] un [of i]
        by (simp add: g'_def linked_def slab_ok_def)
    next
      case False
      then show ?thesis using vinvD(3) [OF inv, of i] by (auto simp: g'_def linked_def)
    qed
    show "pl g' i = Unbumped \<longleftrightarrow> i = 0 \<or> frontier ?v \<le> i" for i
      using vinvD(4) [OF inv, of i] a ae by (auto simp: g'_def or_min_def a_def e_def)
  qed (use n a in \<open>simp_all add: or_min_def e_def a_def\<close>)
  then show ?thesis by (auto simp: g'_def)
qed

subsection \<open>Allocating a slab\<close>

text \<open>Failing with \<open>Unwrap_None\<close> because the 32-bit slab indices are used up.\<close>

definition indices_exhausted :: "config \<Rightarrow> 'c heap \<Rightarrow> bool" where
  "indices_exhausted cfg h \<longleftrightarrow> 2 ^ 32 \<le> frontier (view h) + batch_bump_pop cfg"

lemma vinv_global_to_unsized:
  assumes inv: "vinv cfg B v g" and hd: "heads v SGlobal = Some i"
  shows "\<exists>g'. vinv cfg B (vunsized t (stack_set (Some i) (lens v (SUnsized t) + 1))
      (vnext i (heads v (SUnsized t)) (vowner i (Some t) (v\<lparr>v_gfree := nxtv v i\<rparr>)))) g' \<and> live g' = live g"
proof -
  let ?v = "vunsized t (stack_set (Some i) (lens v (SUnsized t) + 1))
      (vnext i (heads v (SUnsized t)) (vowner i (Some t) (v\<lparr>v_gfree := nxtv v i\<rparr>)))"
  let ?ls = "(lst g)(SGlobal := tl (lst g SGlobal), SUnsized t := i # lst g (SUnsized t))"
  note H = vinv_head [OF inv hd]
  have A: "live g i = {}" "length (bs_dense (l_free (v_locals v i))) = ROWS B"
    using vinvD(3) [OF inv, of i] H(1) by (simp_all add: slab_ok_def)
  have "lists_ok ((nxtv v)(i := heads v (SUnsized t))) ((heads v)(SGlobal := nxtv v i, SUnsized t := Some i))
      ?ls ((pl g)(i := At (SUnsized t)))"
    using lists_ok_push [OF lists_ok_pop [OF vinvD(1) [OF inv] hd], of i "SUnsized t"] by simp
  then have "vinv cfg B ?v (g_set i (At (SUnsized t)) {} ?ls g)"
    using H A vinvD(2) [OF inv] vinv_lens [OF inv]
    by (intro vinv_change_one [OF inv]) (auto simp: stack_set_def one_slab slab_ok_def)
  moreover have "live (g_set i (At (SUnsized t)) {} ?ls g) = live g" using A by (simp add: fun_upd_idem)
  ultimately show ?thesis by blast
qed

context bracket_laws
begin

lemma heap_refill_ok:
  assumes inv: "vinv cfg B (view h) g" and empty: "heads (view h) (SUnsized t) = None"
    and cfg: "config_ok cfg"
  shows "(\<exists>h' g' i. heap_refill cfg B t h = Inr h' \<and> vinv cfg B (view h') g' \<and> live g' = live g \<and>
      classes (view h') = classes (view h) \<and> heads (view h') (SUnsized t) = Some i \<and>
      frontier (view h') \<le> frontier (view h) + batch_bump_pop cfg) \<or>
    heap_refill cfg B t h = Inl Unwrap_None \<and> indices_exhausted cfg h"
proof (cases "heads (view h) SGlobal")
  case (Some i)
  then obtain h2 where h2: "shared_pop cfg B t h = Inr (Some i, h2)"
    "view h2 = (view h)\<lparr>v_gfree := nxtv (view h) i\<rparr>"
    using shared_pop_exec [of cfg B t h] by (auto simp: heads_def)
  have "validate cfg \<longrightarrow> l_owner (v_locals (view h) i) = None"
    using vinvD(3) [OF inv, of i] vinv_head(1) [OF inv Some] by (simp add: slab_ok_def)
  then have own: "local_own cfg t i (record_event t Ev_GlobalToUnsized h2) =
      Inr (set_owner i (Some t) (record_event t Ev_GlobalToUnsized h2))"
    by (simp add: local_own_def exec h2(2) validate_that_def)
  obtain g' where "vinv cfg B (vunsized t (stack_set (Some i) (lens (view h) (SUnsized t) + 1))
      (vnext i (heads (view h) (SUnsized t)) (vowner i (Some t) (view h2)))) g'" "live g' = live g"
    using vinv_global_to_unsized [OF inv Some, of t] by (auto simp: h2(2))
  then show ?thesis
    unfolding heap_refill_def by (auto simp: h2 own exec stack_set_def intro!: exI [of _ g'])
next
  case None
  then obtain h2 where h2: "shared_pop cfg B t h = Inr (None, h2)" "view h2 = view h"
    using shared_pop_exec [of cfg B t h] by (auto simp: heads_def)
  let ?a = "frontier (view h)" and ?n = "batch_bump_pop cfg"
  show ?thesis
  proof (cases "?a + ?n < 2 ^ 32")
    case True
    then obtain h3 where h3: "shared_bump cfg B t h2 = Inr ((?a, ?a + ?n), h3)"
      "view h3 = (view h)\<lparr>v_gbump := Some (?a + ?n)\<rparr>"
      using shared_bump_exec [of h2 cfg B t] by (auto simp: frontier_def h2(2))
    have "l_owner (v_locals (view h) i) = None" if "?a \<le> i" for i
      using that vinvD(3) [OF inv, of i] vinvD(4) [OF inv, of i] by (simp add: slab_ok_def)
    then obtain h4 where h4: "slab_link cfg t ?a (?a + ?n) None (record_event t Ev_Bump h3) = Inr h4"
      "view h4 = (view h3)\<lparr>v_locals := linked t ?a (?a + ?n) None (v_locals (view h))\<rparr>"
      using slab_link_exec [of ?a "?a + ?n" "record_event t Ev_Bump h3" cfg t None] by (auto simp: h3(2))
    obtain g' where g': "vinv cfg B (vunsized t (stack_set (Some ?a) ?n) (view h4)) g'" "live g' = live g"
      using vinv_bump [OF inv empty _ True] cfg by (auto simp: config_ok_def h4(2) h3(2))
    have "heap_refill cfg B t h = Inr (set_unsized t (stack_set (Some ?a) ?n) h4)"
      by (simp add: heap_refill_def h2 h3 h4)
    moreover have "classes (view h4) = classes (view h)"
      by (simp add: h4(2) classes_linked)
    moreover have "frontier (view h4) = ?a + ?n" by (simp add: h4(2) h3(2) frontier_def or_min_def)
    ultimately show ?thesis using g' by (auto simp: stack_set_def intro!: exI [of _ g'])
  next
    case False
    then have "shared_bump cfg B t h2 = Inl Unwrap_None"
      using cfg by (intro shared_bump_overflow) (simp_all add: frontier_def h2(2) config_ok_def)
    then have "heap_refill cfg B t h = Inl Unwrap_None" by (simp add: heap_refill_def h2)
    with False show ?thesis by (simp add: indices_exhausted_def)
  qed
qed

lemma heap_allocate_ok:
  assumes inv: "vinv cfg B (view h) g" and c: "class_ok B c" and cfg: "config_ok cfg"
  shows "(\<exists>h' g' i. heap_allocate cfg B t c h = Inr (Some i, h') \<and> vinv cfg B (view h') g' \<and>
      live g' = live g \<and> heads (view h') (SSized t c) = Some i \<and>
      (\<forall>j. live g j \<noteq> {} \<longrightarrow> classes (view h') j = classes (view h) j) \<and>
      frontier (view h') \<le> frontier (view h) + batch_bump_pop cfg) \<or>
    heap_allocate cfg B t c h = Inl Unwrap_None \<and> indices_exhausted cfg h"
proof (cases "heads (view h) (SUnsized t)")
  case (Some i)
  obtain h1 g1 where 1: "unsized_to_sized cfg B t c h = Inr (True, h1)" "vinv cfg B (view h1) g1"
    "live g1 = live g" "heads (view h1) (SSized t c) = Some i" "live g i = {}"
    "classes (view h1) = (classes (view h))(i := c)" "frontier (view h1) = frontier (view h)"
    using unsized_to_sized_ok [OF inv Some c] by blast
  then show ?thesis
    using c validate_owned_ok [of cfg "record_event t (Ev_UnsizedToSized c) h1" g1 t]
    by (auto simp: heap_allocate_def class_ok_def exec intro!: exI [of _ g1])
next
  case None
  then have "unsized_to_sized cfg B t c h = Inr (False, h)" by (simp add: unsized_to_sized_def exec)
  with c have alloc: "heap_allocate cfg B t c h = andthen (heap_refill cfg B t h) (\<lambda>h2.
      andthen (unsized_to_sized cfg B t c h2) (\<lambda>(_, h4). let h5 = record_event t (Ev_UnsizedToSized c) h4 in
         andthen (validate_owned cfg B t h5) (\<lambda>_.
         andthen (class_index_ok B c) (\<lambda>_. Inr (st_head (sized h5 t c), h5)))))"
    by (simp add: heap_allocate_def class_ok_def andthen_assoc case_prod_unfold)
  from heap_refill_ok [OF inv None cfg] show ?thesis
  proof (elim disjE exE conjE)
    fix h5 g5 i
    assume 5: "heap_refill cfg B t h = Inr h5" "vinv cfg B (view h5) g5" "live g5 = live g"
      "heads (view h5) (SUnsized t) = Some i" "classes (view h5) = classes (view h)"
      "frontier (view h5) \<le> frontier (view h) + batch_bump_pop cfg"
    then obtain h6 g6 where 6: "unsized_to_sized cfg B t c h5 = Inr (True, h6)" "vinv cfg B (view h6) g6"
      "live g6 = live g" "heads (view h6) (SSized t c) = Some i" "live g i = {}"
      "classes (view h6) = (classes (view h))(i := c)" "frontier (view h6) = frontier (view h5)"
      using unsized_to_sized_ok [OF 5(2,4) c] by auto
    then show ?thesis
      using c 5(1,6) validate_owned_ok [of cfg "record_event t (Ev_UnsizedToSized c) h6" g6 t]
      by (auto simp: alloc class_ok_def exec intro!: exI [of _ g6])
  qed (simp add: alloc)
qed

text \<open>What the invariant says of the head of a sized stack.\<close>

lemma sized_head:
  assumes inv: "vinv cfg B v g" and hd: "heads v (SSized t c) = Some i"
  shows "class_ok B c" and "l_class (v_locals v i) = c" and "l_owner (v_locals v i) = Some t"
    and "bits (l_free (v_locals v i)) \<noteq> {}" and "counts_ok B (v_locals v i) (v_remote v i) (live g i)"
    and "pl g i = At (SSized t c)" and "0 < i" and "i < 2 ^ 32"
proof -
  note H = vinv_head [OF inv hd]
  show "l_class (v_locals v i) = c" "l_owner (v_locals v i) = Some t" "bits (l_free (v_locals v i)) \<noteq> {}"
    and co: "counts_ok B (v_locals v i) (v_remote v i) (live g i)" and "class_ok B c"
    using vinvD(3) [OF inv, of i] H(1) by (auto simp: slab_ok_def counts_ok_def)
  show "pl g i = At (SSized t c)" "0 < i" using H by simp_all
  show "i < 2 ^ 32" using vinvD(4) [OF inv, of i] vinvD(5) [OF inv] H(1) by (auto simp: not_le)
qed

lemma heap_peek_ok:
  assumes inv: "vinv cfg B (view h) g" and c: "class_ok B c" and cfg: "config_ok cfg"
  shows "(\<exists>h' g' i b. heap_peek cfg B t c h = Inr (Some (i, b), h') \<and> vinv cfg B (view h') g' \<and>
      live g' = live g \<and> (\<forall>j. live g j \<noteq> {} \<longrightarrow> classes (view h') j = classes (view h) j) \<and>
      heads (view h') (SSized t c) = Some i \<and>
      bs_peek_unchecked (l_free (v_locals (view h') i)) = Inr b \<and>
      frontier (view h') \<le> frontier (view h) + batch_bump_pop cfg) \<or>
    heap_peek cfg B t c h = Inl Unwrap_None \<and> indices_exhausted cfg h"
proof -
  have peek: "\<exists>b. bs_peek_unchecked (l_free (v_locals v i)) = Inr b"
    if "vinv cfg B v g" "heads v (SSized t c) = Some i" for v g i
  proof -
    have "bs_inv (ROWS B) (l_free (v_locals v i))" "bits (l_free (v_locals v i)) \<noteq> {}"
      using sized_head(4,5) [OF that] by (simp_all add: counts_ok_def)
    then show ?thesis by (meson bs_peek_spec)
  qed
  have idx: "class_index_ok B c = Inr ()" using c by (simp add: class_index_ok_def class_ok_def)
  show ?thesis
  proof (cases "heads (view h) (SSized t c)")
    case (Some i)
    with peek [OF inv Some] inv show ?thesis
      by (auto simp: heap_peek_def idx exec simp del: class_index_ok_def intro!: exI [of _ g])
  next
    case None
    then have pk: "heap_peek cfg B t c h = andthen (heap_allocate cfg B t c h) (\<lambda>(r, h1). case r of
          None \<Rightarrow> Inr (None, h1)
        | Some i \<Rightarrow> andthen (bs_peek_unchecked (l_free (locals h1 i))) (\<lambda>block. Inr (Some (i, block), h1)))"
      by (simp add: heap_peek_def idx) (simp add: view_sel heads_stack)
    from heap_allocate_ok [OF inv c cfg, of t] show ?thesis
    proof (elim disjE exE conjE)
      fix h' g' i
      assume a: "heap_allocate cfg B t c h = Inr (Some i, h')" "vinv cfg B (view h') g'" "live g' = live g"
        "heads (view h') (SSized t c) = Some i" "\<forall>j. live g j \<noteq> {} \<longrightarrow> classes (view h') j = classes (view h) j"
        "frontier (view h') \<le> frontier (view h) + batch_bump_pop cfg"
      obtain b where "bs_peek_unchecked (l_free (v_locals (view h') i)) = Inr b" using peek [OF a(2,4)] by blast
      with a show ?thesis by (auto simp: pk view_sel intro!: exI [of _ g'])
    qed (simp add: pk)
  qed
qed

lemma heap_peek_zero:
  assumes inv: "vinv cfg B (view h) g" and "b_is_zero B c" and "b_index B c < COUNT B"
  shows "heap_peek cfg B t c h = Inr (None, h)"
proof -
  have "heads (view h) (SSized t c) = None"
    using sized_head(1) [OF inv] assms(2) by (cases "heads (view h) (SSized t c)") (auto simp: class_ok_def)
  then show ?thesis using assms(2,3) by (simp add: heap_peek_def heap_allocate_def exec)
qed

lemma vinv_take_block:
  assumes inv: "vinv cfg B v g" and hd: "heads v (SSized t c) = Some i"
    and fr: "bs_inv (ROWS B) fr" "bits fr = bits (l_free (v_locals v i)) - {k}" "bits fr \<noteq> {}"
    and k: "k \<in> bits (l_free (v_locals v i))"
  shows "vinv cfg B (vfree i fr v) (g_set i (At (SSized t c)) (insert k (live g i)) (lst g) g)"
proof -
  note S = sized_head [OF inv hd] and co = sized_head(5) [OF inv hd, unfolded counts_ok_def]
  have "finite (live g i)" using co finite_subset by blast
  moreover have "k \<notin> live g i" "k < b_blocks B c" using co k S(2) by auto
  moreover have "card (bits fr) = card (bits (l_free (v_locals v i))) - 1" "0 < card (bits (l_free (v_locals v i)))"
    using k by (auto simp: fr(2) card_gt_0_iff)
  ultimately have "counts_ok B ((v_locals v i)\<lparr>l_free := fr\<rparr>) (v_remote v i) (insert k (live g i))"
    using co fr S(2) unfolding counts_ok_def by auto
  moreover have "(pl g)(i := At (SSized t c)) = pl g" using S(6) by auto
  ultimately show ?thesis using vinvD(1,2) [OF inv] S(2,3,6) fr
    by (intro vinv_change_one [OF inv]) (auto simp: slab_ok_def one_slab bs_invD(1))
qed

lemma vinv_take_last:
  assumes inv: "vinv cfg B v g" and hd: "heads v (SSized t c) = Some i"
    and fr: "bs_inv (ROWS B) fr" "bits fr = {}" and k: "bits (l_free (v_locals v i)) = {k}"
    and v': "v' = vsized t c (stack_set (nxtv v i) (lens v (SSized t c) - 1)) (vfree i fr v)"
  shows "vinv cfg B v' (g_set i Detached (insert k (live g i)) ((lst g)(SSized t c := tl (lst g (SSized t c)))) g)"
    and "vinv cfg B (vowner i None v')
      (g_set i Detached (insert k (live g i)) ((lst g)(SSized t c := tl (lst g (SSized t c)))) g)"
proof -
  note S = sized_head [OF inv hd] and co = sized_head(5) [OF inv hd, unfolded counts_ok_def]
  note H = vinv_head [OF inv hd]
  have "finite (live g i)" using co finite_subset by blast
  moreover have "k \<notin> live g i" "k < b_blocks B c" using co k S(2) by auto
  ultimately have "counts_ok B ((v_locals v i)\<lparr>l_free := fr\<rparr>) (v_remote v i) (insert k (live g i))"
    "counts_ok B ((v_locals v i)\<lparr>l_free := fr, l_owner := None\<rparr>) (v_remote v i) (insert k (live g i))"
    using co fr k S(2) unfolding counts_ok_def by auto
  moreover have "lists_ok (nxtv v) ((heads v)(SSized t c := nxtv v i))
      ((lst g)(SSized t c := tl (lst g (SSized t c)))) ((pl g)(i := Detached))"
    by (rule lists_ok_pop [OF vinvD(1) [OF inv] hd])
  ultimately show "vinv cfg B v' (g_set i Detached (insert k (live g i)) ((lst g)(SSized t c := tl (lst g (SSized t c)))) g)"
    "vinv cfg B (vowner i None v')
      (g_set i Detached (insert k (live g i)) ((lst g)(SSized t c := tl (lst g (SSized t c)))) g)"
    using H vinvD(2) [OF inv] vinv_lens [OF inv] fr unfolding v'
    by (auto intro!: vinv_change_one [OF inv] diff_le_mono simp: slab_ok_def one_slab bs_invD(1) stack_set_def)
qed

lemma heap_detach_exec:
  assumes "l_owner (v_locals (view h) i) = Some t"
  shows "\<exists>h'. heap_detach cfg B t c i h = Inr h' \<and> (view h' = view h \<or> view h' = vowner i None (view h))"
  using assms
  by (auto simp: heap_detach_def det_load_remote local_disown_def exec validate_that_def)

lemma heap_pop_ok:
  assumes inv: "vinv cfg B (view h) g" and hd: "heads (view h) (SSized t c) = Some i"
    and pk: "bs_peek_unchecked (l_free (v_locals (view h) i)) = Inr b"
  shows "\<exists>h' g'. heap_pop cfg B base t c i b h = Inr (base + block_offset B c i (bit_index b), h') \<and>
    vinv cfg B (view h') g' \<and> live g' = (live g)(i := insert (bit_index b) (live g i)) \<and>
    classes (view h') = classes (view h) \<and> frontier (view h') = frontier (view h)"
    and "bit_index b \<notin> live g i" and "bit_index b < b_blocks B c"
proof -
  let ?v = "view h" and ?k = "bit_index b"
  note S = sized_head [OF inv hd] and co = sized_head(5) [OF inv hd, unfolded counts_ok_def]
  have bi: "bs_inv (ROWS B) (l_free (v_locals ?v i))" using co by simp
  obtain fr where fr: "bs_unset cfg b (l_free (v_locals ?v i)) = Inr fr" "bs_inv (ROWS B) fr"
    "bits fr = bits (l_free (v_locals ?v i)) - {?k}" and km: "?k = Min (bits (l_free (v_locals ?v i)))"
    using bs_peek_unset_spec [OF bi pk S(4)] by blast
  have k: "?k \<in> bits (l_free (v_locals ?v i))" unfolding km using S(4) by (intro Min_in) simp_all
  show nk: "?k \<notin> live g i" and kb: "?k < b_blocks B c" using co k S(2) by auto
  have off: "from_block cfg B c i b = Inr (block_offset B c i ?k)" by (rule from_block_eq [OF S(1,7) kb])
  have idx: "b_index B c < COUNT B" using S(1) by (simp add: class_ok_def)
  show "\<exists>h' g'. heap_pop cfg B base t c i b h = Inr (base + block_offset B c i ?k, h') \<and>
    vinv cfg B (view h') g' \<and> live g' = (live g)(i := insert ?k (live g i)) \<and>
    classes (view h') = classes ?v \<and> frontier (view h') = frontier ?v"
  proof (cases "bits fr = {}")
    case False
    then have "\<not> bs_is_empty fr" using bs_is_empty_iff [OF fr(2)] by simp
    then show ?thesis
      using fr(1) off vinv_take_block [OF inv hd fr(2,3) False k]
      by (auto simp: heap_pop_def exec offset_to_pointer_def intro!: exI)
  next
    case True
    then have e: "bs_is_empty fr" using bs_is_empty_iff [OF fr(2)] by simp
    have b1: "bits (l_free (v_locals ?v i)) = {?k}" using True k fr(3) by auto
    let ?h = "set_sized t c (stack_set (nxtv ?v i) (lens ?v (SSized t c) - 1))
      (set_free i fr (record_event t (Ev_Allocate (b_size B c)) h))"
    have len: "1 \<le> lens ?v (SSized t c)" using vinv_head(3) [OF inv hd] by simp
    have "l_owner (v_locals (view ?h) i) = Some t" using S(3) by simp
    then obtain h' where h': "heap_detach cfg B t c i ?h = Inr h'"
      "view h' = view ?h \<or> view h' = vowner i None (view ?h)" using heap_detach_exec by blast
    have "heap_pop cfg B base t c i b h = Inr (base + block_offset B c i ?k, h')"
      using fr(1) off e idx len hd h'(1)
      by (simp add: heap_pop_def exec stack_pop_def offset_to_pointer_def)
    moreover have "view ?h = vsized t c (stack_set (nxtv ?v i) (lens ?v (SSized t c) - 1)) (vfree i fr ?v)" by simp
    ultimately show ?thesis using h'(2) vinv_take_last [OF inv hd fr(2) True b1] by (auto intro!: exI)
  qed
qed

end

end
