(* ===== verification/Heap_Free.thy ===== *)
theory Heap_Free
  imports Heap_Ops
begin

text \<open>
  Freeing a block: by the slab's owner (into the free bitset, with the slab attached, kept, or
  returned to the unsized stack) or by any other thread (through the remote counter, with the last
  one claiming the slab), and the batch transfer of unsized slabs to the global stack.
\<close>

context bracket_laws
begin

subsection \<open>Slabs with live blocks\<close>

lemma live_slab:
  assumes inv: "vinv cfg B v g" and k: "k \<in> live g i"
  shows "counts_ok B (v_locals v i) (v_remote v i) (live g i)"
    and "class_ok B (l_class (v_locals v i))" and "k < b_blocks B (l_class (v_locals v i))"
    and "k \<notin> bits (l_free (v_locals v i))" and "0 < i" and "i < 2 ^ 32"
    and "pl g i \<noteq> Unbumped" and "pl g i = Detached \<or> (\<exists>t. pl g i = At (SSized t (l_class (v_locals v i))))"
proof -
  note S = vinvD(3) [OF inv, of i]
  show co: "counts_ok B (v_locals v i) (v_remote v i) (live g i)" and "pl g i \<noteq> Unbumped"
    and "pl g i = Detached \<or> (\<exists>t. pl g i = At (SSized t (l_class (v_locals v i))))"
    using S k by (auto simp: slab_ok_def split: place.splits slot.splits)
  then show "class_ok B (l_class (v_locals v i))" "k < b_blocks B (l_class (v_locals v i))"
    "k \<notin> bits (l_free (v_locals v i))"
    using k by (auto simp: counts_ok_def)
  show "0 < i" "i < 2 ^ 32"
    using \<open>pl g i \<noteq> Unbumped\<close> vinvD(4) [OF inv, of i] vinvD(5) [OF inv] by auto
qed

lemma counts_ok_put:
  assumes "counts_ok B l r A" and "k \<in> A" and "bs_inv (ROWS B) fr" and "bits fr = insert k (bits (l_free l))"
  shows "counts_ok B (l\<lparr>l_free := fr\<rparr>) r (A - {k})"
proof -
  have "finite A" using assms(1) finite_subset by (auto simp: counts_ok_def)
  then have "card A = Suc (card (A - {k}))" using assms(2) by (rule card.remove)
  moreover have "k \<notin> bits (l_free l)" using assms by (auto simp: counts_ok_def)
  ultimately show ?thesis using assms by (auto simp: counts_ok_def)
qed

lemma vinv_put_block:
  assumes inv: "vinv cfg B v g" and k: "k \<in> live g i" and p: "pl g i = At (SSized t c)"
    and fr: "bs_inv (ROWS B) fr" "bits fr = insert k (bits (l_free (v_locals v i)))"
  shows "vinv cfg B (vfree i fr v) (g_set i (At (SSized t c)) (live g i - {k}) (lst g) g)"
proof -
  have "(pl g)(i := At (SSized t c)) = pl g" using p by auto
  then show ?thesis
    using vinvD(1,2,3) [OF inv] p fr counts_ok_put [OF live_slab(1) [OF inv k] k fr]
      vinvD(3) [OF inv, of i]
    by (intro vinv_change_one [OF inv]) (auto simp: slab_ok_def one_slab bs_invD(1))
qed

lemma vinv_attach:
  assumes inv: "vinv cfg B v g" and k: "k \<in> live g i" and p: "pl g i = Detached"
    and own: "l_owner (v_locals v i) = Some t" and c: "c = l_class (v_locals v i)"
    and fr: "bs_inv (ROWS B) fr" "bits fr = insert k (bits (l_free (v_locals v i)))"
  shows "vinv cfg B (vsized t c (stack_set (Some i) (lens v (SSized t c) + 1))
      (vnext i (heads v (SSized t c)) (vfree i fr v)))
    (g_set i (At (SSized t c)) (live g i - {k}) ((lst g)(SSized t c := i # lst g (SSized t c))) g)"
proof -
  have "lists_ok ((nxtv v)(i := heads v (SSized t c))) ((heads v)(SSized t c := Some i))
      ((lst g)(SSized t c := i # lst g (SSized t c))) ((pl g)(i := At (SSized t c)))"
    using lists_ok_push [OF vinvD(1) [OF inv], of i "SSized t c"] p by simp
  then show ?thesis
    using p own c fr counts_ok_put [OF live_slab(1) [OF inv k] k fr] vinvD(2) [OF inv] vinv_lens [OF inv]
    by (intro vinv_change_one [OF inv]) (auto simp: slab_ok_def one_slab bs_invD(1) stack_set_def)
qed

subsection \<open>Returning a slab to the unsized stack\<close>

lemma walk_prev_chain:
  assumes "chain nx (Some w) (xs @ p # i # ys)" and "i \<notin> set (xs @ [p])"
  shows "walk_prev nx i w = Some (Inr p)"
  using assms
proof (induction xs arbitrary: w)
  case Nil
  then show ?case by (simp add: walk_prev.simps)
next
  case (Cons x xs)
  then have w: "w = x" and c: "chain nx (nx x) (xs @ p # i # ys)" by simp_all
  then obtain n where n: "nx x = Some n" "n = hd (xs @ [p])" by (cases xs) auto
  then have "n \<noteq> i" using Cons.prems(2) by (cases xs) auto
  then show ?case using Cons.IH [of n] Cons.prems(2) c n w by (simp add: walk_prev.simps [of nx i x])
qed

lemma sized_to_unsized_head:
  assumes inv: "vinv cfg B (view h) g" and p: "pl g i = At (SSized t c)" and A: "live g i = {}" and xy: "lst g (SSized t c) = i # ys"
  shows "\<exists>h' g'. sized_to_unsized cfg B t c i h = Inr h' \<and> vinv cfg B (view h') g' \<and> live g' = live g \<and>
    classes (view h') = classes (view h)"
proof -
  let ?v = "view h" and ?s = "SSized t c" and ?u = "SUnsized t"
  note ok = vinvD(1) [OF inv] and D = lists_okD [OF vinvD(1) [OF inv]]
  have slab: "l_owner (v_locals ?v i) = Some t" "length (bs_dense (l_free (v_locals ?v i))) = ROWS B" "class_ok B c"
    using vinvD(3) [OF inv, of i] p by (auto simp: slab_ok_def counts_ok_def)
  have idx: "b_index B c < COUNT B" using slab(3) by (simp add: class_ok_def)
  have live: "(live g)(i := {}) = live g" using A by (simp add: fun_upd_idem)
  have hd: "heads ?v ?s = Some i" using D(1) [of ?s] xy by simp
  let ?v' = "vunsized t (stack_set (Some i) (lens ?v ?u + 1)) (vnext i (heads ?v ?u)
    (vsized t c (stack_set (nxtv ?v i) (lens ?v ?s - 1)) ?v))"
  let ?ls = "(lst g)(?s := tl (lst g ?s), ?u := i # lst g ?u)"
  have len: "1 \<le> lens ?v ?s" using vinv_lens(1) [OF inv, of t c] xy by simp
  then obtain h' where h': "sized_to_unsized cfg B t c i h = Inr h'" "view h' = ?v'"
    using hd idx by (simp add: sized_to_unsized_def exec)
  have "lists_ok ((nxtv ?v)(i := heads ?v ?u)) ((heads ?v)(?s := nxtv ?v i, ?u := Some i)) ?ls
      ((pl g)(i := At ?u))"
    using lists_ok_push [OF lists_ok_pop [OF ok hd], of i ?u] by simp
  then have "vinv cfg B ?v' (g_set i (At ?u) {} ?ls g)"
    using slab p vinvD(2) [OF inv] vinv_lens [OF inv]
    by (intro vinv_change_one [OF inv]) (auto simp: slab_ok_def one_slab stack_set_def intro: diff_le_mono)
  then show ?thesis using h' live by (auto intro!: exI [of _ "g_set i (At ?u) {} ?ls g"])
qed

lemma sized_to_unsized_inner:
  assumes inv: "vinv cfg B (view h) g" and p: "pl g i = At (SSized t c)" and A: "live g i = {}"
    and l: "lst g (SSized t c) = zs @ q # i # ys"
  shows "\<exists>h'. sized_to_unsized cfg B t c i h = Inr h' \<and>
    (if validate cfg then \<not> owned_is_valid B t h'
     else \<exists>g'. vinv cfg B (view h') g' \<and> live g' = live g \<and> classes (view h') = classes (view h))"
proof -
  let ?v = "view h" and ?s = "SSized t c" and ?u = "SUnsized t"
  note ok = vinvD(1) [OF inv] and D = lists_okD [OF vinvD(1) [OF inv]]
  have slab: "l_owner (v_locals ?v i) = Some t" "length (bs_dense (l_free (v_locals ?v i))) = ROWS B" "class_ok B c"
    using vinvD(3) [OF inv, of i] p by (auto simp: slab_ok_def counts_ok_def)
  have idx: "b_index B c < COUNT B" using slab(3) by (simp add: class_ok_def)
  have live: "(live g)(i := {}) = live g" using A by (simp add: fun_upd_idem)
  have d: "distinct (zs @ q # i # ys)" using D(2) [of ?s] l by simp
  obtain w where w: "heads ?v ?s = Some w" "w = hd (zs @ [q])" using D(1) [of ?s] l by (cases zs) auto
  then have wi: "w \<noteq> i" using d by (cases zs) auto
  have walk: "walk_prev (nxtv ?v) i w = Some (Inr q)"
    using walk_prev_chain [of "nxtv ?v" w zs q i ys] D(1) [of ?s] l w(1) d by simp
  let ?v' = "vunsized t (stack_set (Some i) (lens ?v ?u + 1)) (vnext i (heads ?v ?u) (vnext q (nxtv ?v i) ?v))"
  let ?ls = "(lst g)(?s := zs @ q # ys, ?u := i # lst g ?u)"
  obtain h' where h': "sized_to_unsized cfg B t c i h = Inr h'" "view h' = ?v'"
    using w(1) wi walk idx by (simp add: sized_to_unsized_def exec)
  have lists: "lists_ok (nxtv ?v') (heads ?v') ?ls ((pl g)(i := At ?u))"
    using lists_ok_push [OF lists_ok_remove [OF ok l], of i ?u] by (simp add: stack_set_def)
  show ?thesis
  proof (cases "validate cfg")
    case True
    have ch: "chain (nxt h') (heads ?v' ?s) (zs @ q # ys)"
      using lists_okD(1) [OF lists, of ?s] by (simp add: nxt_view h'(2))
    have "length (trace_n (nxt h') (lens ?v ?s + 1) (heads ?v' ?s)) < lens ?v ?s"
      unfolding trace_n_chain [OF ch] using vinv_lens(1) [OF inv, of t c] l by simp
    then have "\<not> stack_is_valid h' (sized h' t c)"
      by (simp add: stack_is_valid_def view_sel lens_stack heads_stack h'(2) del: trace_n.simps)
    moreover have "c \<in> set (List.map_filter (b_from_index B) [0..<COUNT B])"
      using from_index [of c] idx by (force simp: List.map_filter_def)
    ultimately have "\<not> owned_is_valid B t h'" unfolding owned_is_valid_def Let_def by blast
    then show ?thesis using h'(1) True by simp
  next
    case False
    have "Suc (length zs + length ys) \<le> lens ?v ?s" using vinv_lens(1) [OF inv, of t c] l by simp
    then have "vinv cfg B ?v' (g_set i (At ?u) {} ?ls g)"
      using lists slab p vinvD(2) [OF inv] vinv_lens [OF inv] l False d
      by (intro vinv_change_one [OF inv]) (auto simp: slab_ok_def one_slab stack_set_def)
    then show ?thesis using h' live False by (auto intro!: exI [of _ "g_set i (At ?u) {} ?ls g"])
  qed
qed

lemma sized_to_unsized_ok:
  assumes inv: "vinv cfg B (view h) g" and p: "pl g i = At (SSized t c)" and A: "live g i = {}"
  shows "\<exists>h'. sized_to_unsized cfg B t c i h = Inr h' \<and>
    (if validate cfg \<and> hd (lst g (SSized t c)) \<noteq> i then \<not> owned_is_valid B t h'
     else \<exists>g'. vinv cfg B (view h') g' \<and> live g' = live g \<and> classes (view h') = classes (view h))"
proof -
  have "i \<in> set (lst g (SSized t c))" using lists_okD(3) [OF vinvD(1) [OF inv]] p by simp
  then obtain xs ys where xy: "lst g (SSized t c) = xs @ i # ys" by (meson split_list)
  show ?thesis
  proof (cases xs rule: rev_cases)
    case Nil
    then show ?thesis using sized_to_unsized_head [OF inv p A] xy by fastforce
  next
    case (snoc zs q)
    then have l: "lst g (SSized t c) = zs @ q # i # ys" using xy by simp
    have "hd (lst g (SSized t c)) \<noteq> i" using lists_okD(2) [OF vinvD(1) [OF inv], of "SSized t c"] l by (cases zs) auto
    then show ?thesis using sized_to_unsized_inner [OF inv p A l] by simp
  qed
qed

subsection \<open>Unsized slabs to the global stack\<close>

lemma disown_all_exec:
  assumes "validate cfg \<longrightarrow> (\<forall>i \<in> set xs. l_owner (v_locals (view h) i) = Some t)" and "distinct xs"
  shows "\<exists>h'. disown_all cfg t xs h = Inr h' \<and>
    view h' = (view h)\<lparr>v_locals := (\<lambda>i. if validate cfg \<and> i \<in> set xs
      then (v_locals (view h) i)\<lparr>l_owner := None\<rparr> else v_locals (view h) i)\<rparr>"
  using assms
proof (induction xs arbitrary: h)
  case (Cons x xs)
  show ?case
  proof (cases "validate cfg")
    case True
    let ?h = "set_owner x None h"
    have "\<exists>h'. disown_all cfg t xs ?h = Inr h' \<and>
      view h' = (view ?h)\<lparr>v_locals := (\<lambda>i. if validate cfg \<and> i \<in> set xs
        then (v_locals (view ?h) i)\<lparr>l_owner := None\<rparr> else v_locals (view ?h) i)\<rparr>"
      using Cons.prems by (intro Cons.IH) auto
    moreover have "local_disown cfg t x h = Inr ?h" using Cons.prems True by (simp add: local_disown_def view_sel)
    moreover have "(view ?h)\<lparr>v_locals := y\<rparr> = (view h)\<lparr>v_locals := y\<rparr>" for y by (simp add: view_setters)
    moreover have "(\<lambda>i. if validate cfg \<and> i \<in> set xs then (v_locals (view ?h) i)\<lparr>l_owner := None\<rparr> else v_locals (view ?h) i)
      = (\<lambda>i. if validate cfg \<and> i \<in> set (x # xs) then (v_locals (view h) i)\<lparr>l_owner := None\<rparr> else v_locals (view h) i)"
      using True by (auto simp: fun_eq_iff)
    ultimately show ?thesis using True by simp
  next
    case False
    then show ?thesis using Cons by simp
  qed
qed simp

lemma vinv_to_global:
  assumes inv: "vinv cfg B v g" and l: "lst g (SUnsized t) = xs @ ys" and xs: "xs \<noteq> []"
    and v': "nxtv v' = (nxtv v)(last xs := heads v SGlobal)"
      "heads v' = (heads v)(SUnsized t := nxtv v (last xs), SGlobal := Some (hd xs))"
      "\<And>s. s \<noteq> SGlobal \<Longrightarrow> lens v' s = ((lens v)(SUnsized t := length ys)) s"
      "frontier v' = frontier v" "v_remote v' = v_remote v"
      "\<And>i. \<exists>x. v_locals v' i = (if validate cfg \<and> i \<in> set xs
        then (v_locals v i)\<lparr>l_owner := None\<rparr> else v_locals v i)\<lparr>l_next := x\<rparr>"
  shows "\<exists>g'. vinv cfg B v' g' \<and> live g' = live g"
proof -
  define g' where "g' = \<lparr>lst = (lst g)(SUnsized t := ys, SGlobal := xs @ lst g SGlobal),
    pl = (\<lambda>i. if i \<in> set xs then At SGlobal else pl g i), live = live g\<rparr>"
  have px: "pl g i = At (SUnsized t)" if "i \<in> set xs" for i
    using that l lists_okD(3) [OF vinvD(1) [OF inv], of i "SUnsized t"] by simp
  have "vinv cfg B v' g'"
  proof (rule vinvI)
    show "lists_ok (nxtv v') (heads v') (lst g') (pl g')"
      using lists_ok_splice [OF vinvD(1) [OF inv] l xs, of SGlobal] v'(1,2) by (simp add: g'_def)
    show "len_ok cfg s (lens v' s) (length (lst g' s))" if "s \<noteq> SGlobal" for s
      using that vinvD(2) [OF inv that] v'(3) by (auto simp: g'_def)
    show "slab_ok cfg B (pl g' i) (v_locals v' i) (v_remote v' i) (live g' i)" for i
    proof -
      obtain x where x: "v_locals v' i = (if validate cfg \<and> i \<in> set xs
        then (v_locals v i)\<lparr>l_owner := None\<rparr> else v_locals v i)\<lparr>l_next := x\<rparr>" using v'(6) by blast
      show ?thesis
      proof (cases "i \<in> set xs")
        case True
        then show ?thesis using vinvD(3) [OF inv, of i] px [of i] by (auto simp: x v'(5) g'_def slab_ok_def)
      qed (use vinvD(3) [OF inv, of i] in \<open>simp add: x v'(5) g'_def\<close>)
    qed
    show "pl g' i = Unbumped \<longleftrightarrow> i = 0 \<or> frontier v' \<le> i" for i
      using vinvD(4) [OF inv, of i] px [of i] v'(4) by (auto simp: g'_def)
  qed (use vinvD(5,6) [OF inv] v'(4) in simp_all)
  then show ?thesis by (auto simp: g'_def)
qed

lemma unsized_to_global_ok:
  assumes inv: "vinv cfg B (view h) g" and cfg: "config_ok cfg"
  shows "\<exists>h' g'. unsized_to_global cfg B t h = Inr h' \<and> vinv cfg B (view h') g' \<and> live g' = live g \<and>
    classes (view h') = classes (view h)"
proof (cases "lens (view h) (SUnsized t) \<le> count_cache_slab cfg")
  case True
  then show ?thesis using inv by (auto simp: unsized_to_global_def exec)
next
  case False
  let ?v = "view h" and ?u = "SUnsized t" and ?n = "batch_global_push cfg"
  let ?xs = "take ?n (lst g (SUnsized t))" and ?ys = "drop ?n (lst g (SUnsized t))"
  note D = lists_okD [OF vinvD(1) [OF inv]]
  have n: "1 \<le> ?n" "?n \<le> length (lst g ?u)" using False cfg vinv_lens(3) [OF inv, of t] by (auto simp: config_ok_def)
  have xs: "?xs \<noteq> []" "distinct ?xs" using n D(2) by auto
  have own: "l_owner (v_locals ?v i) = Some t" if "i \<in> set ?xs" for i
  proof -
    have "pl g i = At ?u" using that D(3) [of i ?u] in_set_takeD by fast
    then show ?thesis using vinvD(3) [OF inv, of i] by (simp add: slab_ok_def)
  qed
  have pre: "trace_n (nxtv ?v) ?n (heads ?v ?u) = ?xs" by (rule trace_n_chain [OF D(1)])
  let ?h1 = "record_event t Ev_UnsizedToGlobal h"
  obtain h2 where h2: "disown_all cfg t ?xs ?h1 = Inr h2"
    "view h2 = ?v\<lparr>v_locals := (\<lambda>i. if validate cfg \<and> i \<in> set ?xs then (v_locals ?v i)\<lparr>l_owner := None\<rparr> else v_locals ?v i)\<rparr>"
    using disown_all_exec [of cfg ?xs ?h1 t, unfolded view_ctx] own xs(2) by blast
  have nx2: "nxtv (view h2) = nxtv ?v" by (auto simp: h2(2) nxtv_def fun_eq_iff)
  define h3 where "h3 = set_unsized t (stack_set (nxtv ?v (last ?xs)) (lens ?v ?u - ?n))
    (ctx_log cfg t (into_state B (UnsizedToGlobalSave (hd ?xs))) h2)"
  obtain h' where h': "global_push cfg B t (hd ?xs) (last ?xs) h3 = Inr h'"
    "view h' = (vnext (last ?xs) (v_gfree (view h3)) (view h3))\<lparr>v_gfree := Some (hd ?xs)\<rparr>"
    using global_push_exec by blast
  have "unsized_to_global cfg B t h = Inr h'"
    using False n xs pre h2(1) h'(1) vinv_lens(3) [OF inv, of t]
    by (simp add: unsized_to_global_def exec shared_push_def nx2 h3_def)
  moreover have "\<exists>g'. vinv cfg B (view h') g' \<and> live g' = live g"
  proof (rule vinv_to_global [OF inv _ xs(1)])
    show "lst g ?u = ?xs @ ?ys" by simp
    show "heads (view h') = (heads ?v)(?u := nxtv ?v (last ?xs), SGlobal := Some (hd ?xs))"
      by (simp add: h' h3_def h2(2) stack_set_def)
    show "nxtv (view h') = (nxtv ?v)(last ?xs := heads ?v SGlobal)"
      by (simp add: h'(2) h3_def nx2 heads_stack) (simp add: h2(2))
    show "lens (view h') s = ((lens ?v)(?u := length ?ys)) s" if "s \<noteq> SGlobal" for s
      using vinv_lens(3) [OF inv, of t] by (simp add: h' h3_def h2(2) stack_set_def)
    show "\<exists>x. v_locals (view h') i = (if validate cfg \<and> i \<in> set ?xs
        then (v_locals ?v i)\<lparr>l_owner := None\<rparr> else v_locals ?v i)\<lparr>l_next := x\<rparr>" for i
      by (auto simp: h' h3_def h2(2) one_slab)
  qed (simp_all add: h' h3_def h2(2))
  moreover have "classes (view h') = classes ?v"
    by (auto simp: h' h3_def h2(2) fun_eq_iff classes_def)
  ultimately show ?thesis by blast
qed

subsection \<open>Remote frees\<close>

lemma remote_dec_exec:
  assumes "v_remote (view h) i \<noteq> 0"
  shows "\<exists>h'. det_update cfg (get_remote i) (set_remote i) t
      (\<lambda>meta version h2. andthen (validate_that cfg (0 < meta) ''remote'') (\<lambda>_.
         andthen (dec_word cfg meta) (\<lambda>free. Inr (h2, Some (free, into_state B (Remote i version (meta = 1))))))) h
      = Inr (Some (v_remote (view h) i), h') \<and>
    view h' = vremote i (v_remote (view h) i - 1) (view h)"
proof -
  have "0 < v_remote (view h) i" using assms by (simp add: word_gt_0)
  then show ?thesis using assms
    by (auto simp: det_update_def Let_def get_remote_def view_sel(2) arith_w)
qed

lemma unat_dec: "r \<noteq> 0 \<Longrightarrow> unat (r - 1) = unat r - 1" for r :: "16 word"
  by (rule unat_minus_one)

lemma vinv_remote_dec:
  assumes inv: "vinv cfg B v g" and k: "k \<in> live g i" and r: "v_remote v i \<noteq> 1"
  shows "vinv cfg B (vremote i (v_remote v i - 1) v) (g_set i (pl g i) (live g i - {k}) (lst g) g)"
proof -
  note co = live_slab(1) [OF inv k, unfolded counts_ok_def]
  have fin: "finite (live g i)" using co finite_subset by blast
  have c: "card (live g i) = Suc (card (live g i - {k}))" using fin k by (rule card.remove)
  then have r0: "v_remote v i \<noteq> 0" using co by (auto simp: unat_eq_0)
  have r1: "unat (v_remote v i) \<noteq> 1" using r by (metis unat_1 word_unat_eq_iff)
  have "counts_ok B (v_locals v i) (v_remote v i - 1) (live g i - {k})"
    using co c unfolding counts_ok_def unat_dec [OF r0] by auto
  moreover have ne: "live g i - {k} \<noteq> {}" if "bits (l_free (v_locals v i)) = {}"
  proof
    assume "live g i - {k} = {}"
    then have "card (live g i) = 1" using c by (simp only: card.empty)
    then show False using co that r1 by simp
  qed
  moreover have "(pl g)(i := pl g i) = pl g" by simp
  ultimately show ?thesis
    using vinvD(1,2) [OF inv] vinvD(3) [OF inv, of i] live_slab(7,8) [OF inv k]
    by (intro vinv_change_one [OF inv]) (auto simp: slab_ok_def one_slab)
qed

lemma vinv_claim:
  assumes inv: "vinv cfg B v g" and k: "k \<in> live g i" and r: "v_remote v i = 1"
  shows "\<exists>g'. vinv cfg B (vunsized t (stack_set (Some i) (lens v (SUnsized t) + 1))
      (vnext i (heads v (SUnsized t)) (vowner i (Some t) (vremote i 0 v)))) g' \<and>
    live g' = (live g)(i := live g i - {k})"
proof -
  note co = live_slab(1) [OF inv k, unfolded counts_ok_def]
  have fin: "finite (live g i)" using co finite_subset by blast
  have "card (live g i) = Suc (card (live g i - {k}))" using fin k by (rule card.remove)
  then have one: "card (bits (l_free (v_locals v i))) = 0" "card (live g i - {k}) = 0" using co r by auto
  then have A: "live g i - {k} = {}" and b: "bits (l_free (v_locals v i)) = {}" using fin by auto
  have p: "pl g i = Detached"
    using live_slab(8) [OF inv k] vinvD(3) [OF inv, of i] b by (auto simp: slab_ok_def)
  let ?ls = "(lst g)(SUnsized t := i # lst g (SUnsized t))"
  have "lists_ok ((nxtv v)(i := heads v (SUnsized t))) ((heads v)(SUnsized t := Some i)) ?ls ((pl g)(i := At (SUnsized t)))"
    using lists_ok_push [OF vinvD(1) [OF inv], of i "SUnsized t"] p by simp
  then have "vinv cfg B (vunsized t (stack_set (Some i) (lens v (SUnsized t) + 1))
      (vnext i (heads v (SUnsized t)) (vowner i (Some t) (vremote i 0 v)))) (g_set i (At (SUnsized t)) {} ?ls g)"
    using p vinvD(2) [OF inv] vinv_lens [OF inv] vinv_slab_length [OF inv]
    by (intro vinv_change_one [OF inv]) (auto simp: slab_ok_def one_slab stack_set_def)
  then show ?thesis unfolding A by (intro exI [of _ "g_set i (At (SUnsized t)) {} ?ls g"]) simp
qed

lemma heap_free_remote_ok:
  assumes inv: "vinv cfg B (view h) g" and k: "k \<in> live g i" and cfg: "config_ok cfg"
  shows "\<exists>h' g'. heap_free_remote cfg B t i h = Inr h' \<and> vinv cfg B (view h') g' \<and>
    live g' = (live g)(i := live g i - {k}) \<and> classes (view h') = classes (view h)"
proof -
  let ?v = "view h" and ?c = "l_class (v_locals (view h) i)"
  let ?h1 = "record_event t (Ev_Free (b_size B ?c)) h"
  have "card (live g i) \<noteq> 0" using k live_slab(1) [OF inv k] finite_subset
    by (fastforce simp: counts_ok_def)
  then have r0: "v_remote ?v i \<noteq> 0" using live_slab(1) [OF inv k] by (auto simp: counts_ok_def)
  then obtain h2 where h2: "det_update cfg (get_remote i) (set_remote i) t
      (\<lambda>meta version h2. andthen (validate_that cfg (0 < meta) ''remote'') (\<lambda>_.
         andthen (dec_word cfg meta) (\<lambda>free. Inr (h2, Some (free, into_state B (Remote i version (meta = 1))))))) ?h1
      = Inr (Some (v_remote ?v i), h2)" "view h2 = vremote i (v_remote ?v i - 1) ?v"
    using remote_dec_exec [of ?h1 i cfg t] by (auto simp del: andthen_simps)
  have run: "heap_free_remote cfg B t i h =
      (if v_remote ?v i = 1 then heap_claim cfg B t ?c i h2 else Inr h2)"
    unfolding heap_free_remote_def Let_def view_sel(1) h2(1) by simp
  show ?thesis
  proof (cases "v_remote ?v i = 1")
    case False
    then show ?thesis using vinv_remote_dec [OF inv k False] run h2(2)
      by (auto intro!: exI [of _ "g_set i (pl g i) (live g i - {k}) (lst g) g"])
  next
    case True
    let ?h3 = "set_unsized t (stack_set (Some i) (lens ?v (SUnsized t) + 1)) (set_next i (heads ?v (SUnsized t))
      (set_owner i (Some t) (record_event t (Ev_Claim ?c) h2)))"
    obtain g3 where g3: "vinv cfg B (view ?h3) g3" "live g3 = (live g)(i := live g i - {k})"
      using vinv_claim [OF inv k True, of t] by (auto simp: h2(2) True)
    have "heap_claim cfg B t ?c i h2 = unsized_to_global cfg B t ?h3"
      using validate_owned_ok [OF g3(1), of t] by (simp add: heap_claim_def exec local_steal_def h2(2))
    then show ?thesis using unsized_to_global_ok [OF g3(1) cfg, of t] run True g3(2) by (auto simp: h2(2))
  qed
qed

subsection \<open>Local frees\<close>

text \<open>After the bit is set and the slab attached if it was detached: the slab is on its sized stack.\<close>

lemma local_put_ok:
  assumes inv: "vinv cfg B (view h) g" and k: "k \<in> live g i" and own: "l_owner (v_locals (view h) i) = Some t"
    and c: "c = l_class (v_locals (view h) i)"
    and fr: "bs_inv (ROWS B) fr" "bits fr = insert k (bits (l_free (v_locals (view h) i)))"
  shows "\<exists>h' g'. (if bs_len fr = 1 then heap_attach B t c i (set_free i fr h) else Inr (set_free i fr h)) = Inr h' \<and>
    vinv cfg B (view h') g' \<and> pl g' i = At (SSized t c) \<and> live g' = (live g)(i := live g i - {k}) \<and>
    hd (lst g' (SSized t c)) = (if pl g i = Detached then i else hd (lst g (SSized t c))) \<and>
    classes (view h') = classes (view h)"
proof -
  let ?b = "bits (l_free (v_locals (view h) i))"
  have nk: "k \<notin> ?b" by (rule live_slab(4) [OF inv k])
  have one: "bs_len fr = 1 \<longleftrightarrow> ?b = {}" using nk by (simp add: bs_len_card [OF fr(1)] fr(2))
  have idx: "b_index B c < COUNT B" using live_slab(2) [OF inv k] c by (simp add: class_ok_def)
  show ?thesis
  proof (cases "pl g i = Detached")
    case True
    then have "?b = {}" using vinvD(3) [OF inv, of i] by (simp add: slab_ok_def)
    then show ?thesis using one idx vinv_attach [OF inv k True own c fr] True
      by (auto simp: heap_attach_def exec
        intro!: exI [of _ "g_set i (At (SSized t c)) (live g i - {k}) ((lst g)(SSized t c := i # lst g (SSized t c))) g"])
  next
    case False
    then have p: "pl g i = At (SSized t c)" and "?b \<noteq> {}"
      using live_slab(8) [OF inv k] vinvD(3) [OF inv, of i] own c by (auto simp: slab_ok_def)
    then show ?thesis using one vinv_put_block [OF inv k p fr] False
      by (auto intro!: exI [of _ "g_set i (At (SSized t c)) (live g i - {k}) (lst g) g"])
  qed
qed

end

text \<open>
  A free that a validating build stops at: it empties a slab in the middle of the owner's sized
  stack, where \<open>sized_to_unsized\<close> forgets to decrement the recorded length.
\<close>

definition stuck_free :: "config \<Rightarrow> 'c bracket \<Rightarrow> nat \<Rightarrow> nat \<Rightarrow> nat \<Rightarrow> 'c view \<Rightarrow> 'c ghost \<Rightarrow> bool" where
  "stuck_free cfg B t i k v g \<longleftrightarrow>
     (let c = l_class (v_locals v i) in
      validate cfg \<and> pl g i = At (SSized t c) \<and> live g i = {k} \<and> unat (v_remote v i) = b_blocks B c \<and>
      hd (lst g (SSized t c)) \<noteq> i)"

context bracket_laws
begin

text \<open>The end of freeing the last live block of a slab.\<close>

lemma release_full:
  assumes inv: "vinv cfg B (view h) g" and p: "pl g i = At (SSized t c)" and A: "live g i = {}" and cfg: "config_ok cfg"
  defines "r \<equiv> andthen (sized_to_unsized cfg B t c i h) (\<lambda>h5. andthen (validate_owned cfg B t h5) (\<lambda>_.
    unsized_to_global cfg B t (record_event t (Ev_SizedToUnsized c) h5)))"
  shows "if validate cfg \<and> hd (lst g (SSized t c)) \<noteq> i then r = Inl (Assertion ''owned'')
    else \<exists>h' g'. r = Inr h' \<and> vinv cfg B (view h') g' \<and> live g' = live g \<and> classes (view h') = classes (view h)"
proof -
  obtain h5 where h5: "sized_to_unsized cfg B t c i h = Inr h5"
    "if validate cfg \<and> hd (lst g (SSized t c)) \<noteq> i then \<not> owned_is_valid B t h5
     else \<exists>g'. vinv cfg B (view h5) g' \<and> live g' = live g \<and> classes (view h5) = classes (view h)"
    using sized_to_unsized_ok [OF inv p A] by blast
  show ?thesis
  proof (cases "validate cfg \<and> hd (lst g (SSized t c)) \<noteq> i")
    case True
    then show ?thesis using h5 by (simp add: r_def validate_owned_def validate_that_def)
  next
    case F: False
    then obtain g5 where g5: "vinv cfg B (view h5) g5" "live g5 = live g" "classes (view h5) = classes (view h)"
      using h5(2) by auto
    then have "vinv cfg B (view (record_event t (Ev_SizedToUnsized c) h5)) g5" by simp
    from unsized_to_global_ok [OF this cfg, of t] show ?thesis
      using h5(1) validate_owned_ok [OF g5(1)] F g5(2,3) by (auto simp: r_def)
  qed
qed

lemma heap_free_ok:
  assumes inv: "vinv cfg B (view h) g" and k: "k \<in> live g i" and cfg: "config_ok cfg"
    and c: "c = l_class (v_locals (view h) i)"
  shows "if stuck_free cfg B t i k (view h) g
    then heap_free cfg B t (block_offset B c i k) h = Inl (Assertion ''owned'')
    else \<exists>h' g'. heap_free cfg B t (block_offset B c i k) h = Inr h' \<and> vinv cfg B (view h') g' \<and>
      live g' = (live g)(i := live g i - {k}) \<and> classes (view h') = classes (view h)"
proof -
  let ?v = "view h" and ?off = "block_offset B c i k"
  note L = live_slab [OF inv k] and co = live_slab(1) [OF inv k, unfolded counts_ok_def]
  have idx: "index_from_offset B ?off = Inr i" using into_index_block(2) L c by simp
  show ?thesis
  proof (cases "l_owner (v_locals ?v i) = Some t")
    case False
    then have "\<not> stuck_free cfg B t i k ?v g"
      using vinvD(3) [OF inv, of i] by (auto simp: stuck_free_def Let_def slab_ok_def)
    moreover have "heap_free cfg B t ?off h = heap_free_remote cfg B t i h"
      using False by (simp add: heap_free_def idx view_sel)
    ultimately show ?thesis using heap_free_remote_ok [OF inv k cfg, of t] by simp
  next
    case own: True
    have "k < 4096" using L(2,3) blocks_rows [OF L(2)] rows_max by simp
    then obtain b where b: "bit_index b = k" using from_loose_index by blast
    then have blk: "into_block cfg B ?off c = Inr b" using into_block_block [of c b cfg i] L c by simp
    have row: "unat (row b) < ROWS B"
      using L(3) blocks_rows [OF L(2)] b by (metis bit_index_div_mod(1) less_le_trans less_mult_imp_div_less mult.commute)
    obtain fr where fr: "bs_set cfg b (l_free (v_locals ?v i)) = Inr fr" "bs_inv (ROWS B) fr"
      "bits fr = insert k (bits (l_free (v_locals ?v i)))"
      using bs_set_spec [of "ROWS B" "l_free (v_locals ?v i)" b cfg] co row L(4) b by auto
    let ?h2 = "ctx_log cfg t (into_state B (ApplicationToSized i b)) (record_event t (Ev_Free (b_size B c)) h)"
    have v2: "view ?h2 = ?v" by simp
    obtain h4 g4 where h4: "(if bs_len fr = 1 then heap_attach B t c i (set_free i fr ?h2) else Inr (set_free i fr ?h2)) = Inr h4"
      "vinv cfg B (view h4) g4" "pl g4 i = At (SSized t c)" "live g4 = (live g)(i := live g i - {k})"
      "hd (lst g4 (SSized t c)) = (if pl g i = Detached then i else hd (lst g (SSized t c)))"
      "classes (view h4) = classes ?v"
      using local_put_ok [of cfg ?h2 g k i t c fr, unfolded v2, OF inv k own c fr(2,3)] by blast
    have run: "heap_free cfg B t ?off h = (if bs_len fr < b_blocks B c then Inr h4
        else andthen (sized_to_unsized cfg B t c i h4) (\<lambda>h5. andthen (validate_owned cfg B t h5) (\<lambda>_.
          unsized_to_global cfg B t (record_event t (Ev_SizedToUnsized c) h5))))"
      using own blk fr(1) h4(1) by (simp add: heap_free_def idx view_sel(1) c [symmetric] Let_def)
    have len: "bs_len fr = Suc (card (bits (l_free (v_locals ?v i))))"
      using L(4) by (simp add: bs_len_card [OF fr(2)] fr(3))
    have cl: "card (live g i) = Suc (card (live g i - {k}))"
      using co finite_subset k by (intro card.remove) blast+
    show ?thesis
    proof (cases "bs_len fr < b_blocks B c")
      case True
      then have "\<not> stuck_free cfg B t i k ?v g" using len co c by (auto simp: stuck_free_def Let_def)
      then show ?thesis using run True h4(2,4,6) by auto
    next
      case False
      then have "card (live g i - {k}) = 0" "unat (v_remote ?v i) = b_blocks B c" using len cl co c by auto
      moreover from this have A: "live g i - {k} = {}" using co finite_subset by (metis card_0_eq finite_Diff finite_atLeastLessThan)
      ultimately have stuck: "stuck_free cfg B t i k ?v g \<longleftrightarrow> validate cfg \<and> hd (lst g4 (SSized t c)) \<noteq> i"
        using k own c h4(5) L(8) vinvD(3) [OF inv, of i] by (auto simp: stuck_free_def Let_def slab_ok_def)
      have "live g4 i = {}" using A h4(4) by simp
      from release_full [OF h4(2,3) this cfg] show ?thesis using run False stuck h4(4,6) by (auto split: if_splits)
    qed
  qed
qed

end

end
