(* ===== verification/Pool.thy ===== *)
theory Pool
  imports Heap_Free
begin

text \<open>
  What a heap promises its clients: a pool of blocks. Allocation hands out a block whose bytes no
  outstanding block shares, a free takes back exactly the block it names, whichever thread calls
  it, and neither can fail except when the slab indices run out or, in a validating build, at the
  length the removal of a slab from the middle of a sized stack leaves behind. The operations of the
  heap refine the pool from the zeroed memory a fresh region is mapped with.
\<close>

subsection \<open>The initial heap and the calls of a client\<close>

text \<open>A zeroed region: no slab is initialised, every stack is empty, no version was announced.\<close>

definition heap_init :: "'c bracket \<Rightarrow> 'c \<Rightarrow> 'c heap" where
  "heap_init B zero =
     \<lparr>help_arr = (\<lambda>_ _. 0), log_state = (\<lambda>_. None),
      locals = (\<lambda>_. \<lparr>l_next = None, l_owner = None, l_class = zero, l_free = bs_new (ROWS B)\<rparr>),
      remotes = (\<lambda>_. \<lparr>c_id = None, c_version = 0, c_inner = 0\<rparr>),
      gfree = \<lparr>c_id = None, c_version = 0, c_inner = None\<rparr>,
      gbump = \<lparr>c_id = None, c_version = 0, c_inner = None\<rparr>,
      unsized = (\<lambda>_. \<lparr>st_head = None, st_len = 0\<rparr>),
      sized = (\<lambda>_ _. \<lparr>st_head = None, st_len = 0\<rparr>), events = []\<rparr>"

text \<open>The pair of calls with which the allocator serves a request from one heap.\<close>

definition heap_take :: "config \<Rightarrow> 'c bracket \<Rightarrow> nat \<Rightarrow> nat \<Rightarrow> 'c \<Rightarrow> 'c heap \<Rightarrow> (nat option \<times> 'c heap) res" where
  "heap_take cfg B base t c h =
     andthen (heap_peek cfg B t c h) (\<lambda>(r, h1). case r of
       None \<Rightarrow> Inr (None, h1)
     | Some (i, block) \<Rightarrow> andthen (heap_pop cfg B base t c i block h1) (\<lambda>(p, h2). Inr (Some p, h2)))"

datatype 'c call = Take nat 'c | Give nat nat

text \<open>
  The heap beside the blocks its clients hold, as pairs of an offset and a size. A client only gives
  back the offset of a block it holds.
\<close>

inductive client :: "config \<Rightarrow> 'c bracket \<Rightarrow> nat \<Rightarrow> 'c heap \<times> (nat \<times> nat) set \<Rightarrow> 'c call \<Rightarrow>
    'c heap \<times> (nat \<times> nat) set \<Rightarrow> bool" for cfg B base where
  take: "class_ok B c \<Longrightarrow> heap_take cfg B base t c h = Inr (Some p, h') \<Longrightarrow>
    client cfg B base (h, L) (Take t c) (h', insert (p - base, b_size B c) L)"
| give: "(off, n) \<in> L \<Longrightarrow> heap_free cfg B t off h = Inr h' \<Longrightarrow>
    client cfg B base (h, L) (Give t off) (h', L - {(off, n)})"

inductive_cases takeE: "client cfg B base s (Take t c) s'"
inductive_cases giveE: "client cfg B base s (Give t off) s'"

inductive reachable :: "config \<Rightarrow> 'c bracket \<Rightarrow> nat \<Rightarrow> 'c \<Rightarrow> 'c heap \<Rightarrow> (nat \<times> nat) set \<Rightarrow> bool"
  for cfg B base zero where
  init: "reachable cfg B base zero (heap_init B zero) {}"
| call: "reachable cfg B base zero h L \<Longrightarrow> client cfg B base (h, L) a (h', L') \<Longrightarrow> reachable cfg B base zero h' L'"

subsection \<open>The pool\<close>

definition bytes :: "nat \<times> nat \<Rightarrow> nat set" where
  "bytes x = {fst x..<fst x + snd x}"

definition blocks_of :: "'c bracket \<Rightarrow> 'c view \<Rightarrow> (nat \<Rightarrow> nat set) \<Rightarrow> (nat \<times> nat) set" where
  "blocks_of B v A = {(block_offset B (classes v i) i k, b_size B (classes v i)) | i k. k \<in> A i}"

definition pool :: "config \<Rightarrow> 'c bracket \<Rightarrow> 'c heap \<Rightarrow> (nat \<times> nat) set \<Rightarrow> bool" where
  "pool cfg B h L \<longleftrightarrow> (\<exists>g. vinv cfg B (view h) g \<and> L = blocks_of B (view h) (live g))"

lemma init_vinv:
  "vinv cfg B (view (heap_init B zero)) \<lparr>lst = (\<lambda>_. []), pl = (\<lambda>_. Unbumped), live = (\<lambda>_. {})\<rparr>"
  by (simp add: vinv_def lists_ok_def heap_init_def view_def heads_def lens_def frontier_def or_min_def
      index_min_def slab_ok_def bs_new_def not_less_eq_eq [symmetric] split: slot.splits) auto

lemma blocks_of_cong:
  "(\<And>i. A i \<noteq> {} \<Longrightarrow> classes v i = classes v' i) \<Longrightarrow> blocks_of B v A = blocks_of B v' A"
  unfolding blocks_of_def by (intro Collect_cong) (metis (no_types) empty_iff)

lemma blocks_of_insert:
  "blocks_of B v (A(i := insert k (A i))) = insert (block_offset B (classes v i) i k, b_size B (classes v i)) (blocks_of B v A)"
  by (auto simp: blocks_of_def split: if_splits)

lemma blocks_of_remove:
  assumes "\<And>i' k'. k' \<in> A i' \<Longrightarrow>
    block_offset B (classes v i) i k = block_offset B (classes v i') i' k' \<Longrightarrow> i = i' \<and> k = k'"
  shows "blocks_of B v (A(i := A i - {k})) =
    blocks_of B v A - {(block_offset B (classes v i) i k, b_size B (classes v i))}"
proof (intro equalityI subsetI)
  fix x assume "x \<in> blocks_of B v (A(i := A i - {k}))"
  then obtain j m where "x = (block_offset B (classes v j) j m, b_size B (classes v j))"
    "m \<in> A j" "j \<noteq> i \<or> m \<noteq> k" by (auto simp: blocks_of_def split: if_splits)
  with assms [of m j] show "x \<in> blocks_of B v A - {(block_offset B (classes v i) i k, b_size B (classes v i))}"
    by (auto simp: blocks_of_def)
next
  fix x assume "x \<in> blocks_of B v A - {(block_offset B (classes v i) i k, b_size B (classes v i))}"
  then obtain j m where x: "x = (block_offset B (classes v j) j m, b_size B (classes v j))"
    "m \<in> A j" "j \<noteq> i \<or> m \<noteq> k" by (auto simp: blocks_of_def)
  then have "m \<in> (A(i := A i - {k})) j" by auto
  with x(1) show "x \<in> blocks_of B v (A(i := A i - {k}))" unfolding blocks_of_def by blast
qed

lemma heap_pop_base:
  "heap_pop cfg B base t c i b h = Inr (base + off, h') \<Longrightarrow>
    from_block cfg B c i b = Inr off \<and> (\<forall>base. heap_pop cfg B base t c i b h = Inr (base + off, h'))"
  by (auto simp: heap_pop_def Let_def andthen_Inr_conv offset_to_pointer_def)

context bracket_laws
begin

lemma live_bounds:
  assumes "vinv cfg B v g" and "k \<in> live g i"
  shows "class_ok B (classes v i)" and "k < b_blocks B (classes v i)"
  using live_slab(1) [OF assms] assms(2) by (auto simp: counts_ok_def classes_def)

lemma bytes_block: "bytes (block_offset B c i k, b_size B c) = block_range B c i k"
  by (simp add: bytes_def block_range_def)

lemma live_disjoint:
  assumes inv: "vinv cfg B v g" and x: "k \<in> live g i" and y: "class_ok B c" "k' < b_blocks B c"
    and ne: "i \<noteq> i' \<or> classes v i = c \<and> k \<noteq> k'"
  shows "bytes (block_offset B (classes v i) i k, b_size B (classes v i)) \<inter>
    bytes (block_offset B c i' k', b_size B c) = {}"
  unfolding bytes_block using live_bounds [OF inv x] y ne by (intro block_ranges_disjoint) auto

lemma block_offset_eq:
  assumes "vinv cfg B v g" "k \<in> live g i" "k' \<in> live g i'"
    and "block_offset B (classes v i) i k = block_offset B (classes v i') i' k'"
  shows "i = i' \<and> k = k'"
proof -
  note b = live_bounds [OF assms(1,2)] live_bounds [OF assms(1,3)]
  have "i = i'" using block_offset_div(1) [OF b(1,2), of i] block_offset_div(1) [OF b(3,4), of i'] assms(4) by simp
  then show ?thesis using assms(4) size_pos [OF b(1)] by (simp add: block_offset_def)
qed

lemma pool_disjoint:
  assumes "pool cfg B h L" "x \<in> L" "y \<in> L" "x \<noteq> y"
  shows "bytes x \<inter> bytes y = {}"
proof -
  obtain g where inv: "vinv cfg B (view h) g" and L: "L = blocks_of B (view h) (live g)"
    using assms(1) by (auto simp: pool_def)
  obtain i k i' k' where x: "x = (block_offset B (classes (view h) i) i k, b_size B (classes (view h) i))"
    "k \<in> live g i" and y: "y = (block_offset B (classes (view h) i') i' k', b_size B (classes (view h) i'))"
    "k' \<in> live g i'" using assms(2,3) by (auto simp: L blocks_of_def)
  have "i \<noteq> i' \<or> k \<noteq> k'" using assms(4) x(1) y(1) by auto
  then show ?thesis using live_disjoint [OF inv x(2) live_bounds [OF inv y(2)], of i'] unfolding x(1) y(1) by auto
qed

lemma pool_bounds:
  assumes "pool cfg B h L" "(off, n) \<in> L"
  shows "SIZE_SLAB B \<le> off" and "off + n \<le> 2 ^ 32 * SIZE_SLAB B" and "0 < n"
proof -
  obtain g i k where inv: "vinv cfg B (view h) g" and k: "k \<in> live g i"
    and off: "off = block_offset B (classes (view h) i) i k" "n = b_size B (classes (view h) i)"
    using assms by (auto simp: pool_def blocks_of_def)
  note b = live_bounds [OF inv k] and i = live_slab(5,6) [OF inv k]
  have "(i + 1) * SIZE_SLAB B \<le> 2 ^ 32 * SIZE_SLAB B" using i by (intro mult_right_mono) simp_all
  then show "off + n \<le> 2 ^ 32 * SIZE_SLAB B"
    using block_in_slab [OF b] unfolding off block_offset_def distrib_right mult_1 by linarith
  show "SIZE_SLAB B \<le> off" using i by (cases i) (simp_all add: off block_offset_def)
  show "0 < n" using size_pos [OF b(1)] off by simp
qed

text \<open>The block \<open>peek\<close> shows is free, stays the next one of its class, and \<open>pop\<close> takes it.\<close>

lemma pool_peek:
  assumes pool: "pool cfg B h L" and c: "class_ok B c" and cfg: "config_ok cfg"
  shows "(\<exists>i b h1 off h'. heap_peek cfg B t c h = Inr (Some (i, b), h1) \<and> from_block cfg B c i b = Inr off \<and>
      (\<forall>base. heap_pop cfg B base t c i b h1 = Inr (base + off, h')) \<and> pool cfg B h1 L \<and>
      st_head (sized h1 t c) = Some i \<and> bs_peek_unchecked (l_free (locals h1 i)) = Inr b \<and>
      pool cfg B h' (insert (off, b_size B c) L) \<and> (\<forall>x\<in>L. bytes (off, b_size B c) \<inter> bytes x = {}) \<and>
      frontier (view h') \<le> frontier (view h) + batch_bump_pop cfg) \<or>
    heap_peek cfg B t c h = Inl Unwrap_None \<and> indices_exhausted cfg h"
proof -
  obtain g where inv: "vinv cfg B (view h) g" and L: "L = blocks_of B (view h) (live g)"
    using pool by (auto simp: pool_def)
  from heap_peek_ok [OF inv c cfg, of t] show ?thesis
  proof (elim disjE exE conjE)
    fix h1 g1 i b
    assume a: "heap_peek cfg B t c h = Inr (Some (i, b), h1)" "vinv cfg B (view h1) g1" "live g1 = live g"
      "\<forall>j. live g j \<noteq> {} \<longrightarrow> classes (view h1) j = classes (view h) j"
      "heads (view h1) (SSized t c) = Some i" "bs_peek_unchecked (l_free (v_locals (view h1) i)) = Inr b"
      "frontier (view h1) \<le> frontier (view h) + batch_bump_pop cfg"
    let ?off = "block_offset B c i (bit_index b)"
    obtain h2 g2 where p: "heap_pop cfg B 0 t c i b h1 = Inr (0 + ?off, h2)"
      "vinv cfg B (view h2) g2" "live g2 = (live g1)(i := insert (bit_index b) (live g1 i))"
      "classes (view h2) = classes (view h1)" "frontier (view h2) = frontier (view h1)" using heap_pop_ok(1) [OF a(2,5,6)] by blast
    have cl: "classes (view h1) i = c" using sized_head(2) [OF a(2,5)] by (simp add: classes_def)
    have L1: "L = blocks_of B (view h1) (live g1)" unfolding L a(3) using a(4) by (intro blocks_of_cong) auto
    have "insert (?off, b_size B c) L = blocks_of B (view h2) (live g2)"
      using blocks_of_insert [of B "view h1" "live g1" i "bit_index b"] blocks_of_cong [of "live g2" "view h2" "view h1" B] p(4)
      by (simp add: L1 cl p(3))
    moreover have "bytes (?off, b_size B c) \<inter> bytes x = {}" if "x \<in> L" for x
    proof -
      obtain j k where x: "x = (block_offset B (classes (view h1) j) j k, b_size B (classes (view h1) j))" "k \<in> live g1 j"
        using \<open>x \<in> L\<close> by (auto simp: L1 blocks_of_def)
      have "j \<noteq> i \<or> classes (view h1) j = c \<and> k \<noteq> bit_index b"
        using x(2) cl heap_pop_ok(2) [OF a(2,5,6)] by auto
      then show ?thesis
        using live_disjoint [OF a(2) x(2) c heap_pop_ok(3) [OF a(2,5,6)], of i] x(1) by auto
    qed
    moreover have "pool cfg B h1 L" "pool cfg B h2 (insert (?off, b_size B c) L)" using a(2) L1 p(2) calculation(1) by (auto simp: pool_def)
    moreover have "st_head (sized h1 t c) = Some i" "bs_peek_unchecked (l_free (locals h1 i)) = Inr b"
      using a(5,6) by (simp_all add: heads_def view_def)
    ultimately show ?thesis using a(1,7) p(5) heap_pop_base [OF p(1)] by (intro disjI1 exI [of _ i] exI [of _ b] exI [of _ h1] exI [of _ ?off] exI [of _ h2]) simp
  qed simp
qed

lemma pool_take:
  assumes "pool cfg B h L" and "class_ok B c" and "config_ok cfg"
  shows "(\<exists>off h'. heap_take cfg B base t c h = Inr (Some (base + off), h') \<and>
      pool cfg B h' (insert (off, b_size B c) L) \<and> (\<forall>x\<in>L. bytes (off, b_size B c) \<inter> bytes x = {}) \<and>
      frontier (view h') \<le> frontier (view h) + batch_bump_pop cfg) \<or>
    heap_take cfg B base t c h = Inl Unwrap_None \<and> indices_exhausted cfg h"
  using pool_peek [OF assms, of t] by (elim disjE exE conjE) (auto simp: heap_take_def)

lemma pool_give:
  assumes pool: "pool cfg B h L" and x: "(off, n) \<in> L" and cfg: "config_ok cfg"
  shows "(\<exists>h'. heap_free cfg B t off h = Inr h' \<and> pool cfg B h' (L - {(off, n)})) \<or>
    heap_free cfg B t off h = Inl (Assertion ''owned'') \<and> validate cfg"
proof -
  obtain g where inv: "vinv cfg B (view h) g" and L: "L = blocks_of B (view h) (live g)"
    using pool by (auto simp: pool_def)
  obtain i k where k: "k \<in> live g i" and off: "off = block_offset B (classes (view h) i) i k"
    "n = b_size B (classes (view h) i)" using x by (auto simp: L blocks_of_def)
  note F = heap_free_ok [OF inv k cfg refl, of t, folded classes_def, folded off(1)]
  show ?thesis
  proof (cases "stuck_free cfg B t i k (view h) g")
    case True
    then show ?thesis using F by (simp add: stuck_free_def Let_def)
  next
    case False
    then obtain h' g' where h': "heap_free cfg B t off h = Inr h'" "vinv cfg B (view h') g'"
      "live g' = (live g)(i := live g i - {k})" "classes (view h') = classes (view h)" using F by auto
    have "L - {(off, n)} = blocks_of B (view h) (live g')"
      unfolding L h'(3) off by (rule blocks_of_remove [OF block_offset_eq [OF inv k], symmetric])
    also have "\<dots> = blocks_of B (view h') (live g')" using h'(4) by (intro blocks_of_cong) simp
    finally show ?thesis using h'(1,2) by (auto simp: pool_def)
  qed
qed

lemma pool_init: "pool cfg B (heap_init B zero) {}"
  using init_vinv [of cfg B zero] by (auto simp: pool_def blocks_of_def)

lemma pool_client:
  assumes "client cfg B base (h, L) a (h', L')" and "pool cfg B h L" and "config_ok cfg"
  shows "pool cfg B h' L'"
  using assms
proof cases
  case (take c t p)
  then show ?thesis using pool_take [OF assms(2) take(3) assms(3), of base t] by auto
next
  case (give off n t)
  then show ?thesis using pool_give [OF assms(2) give(3) assms(3), of t] by auto
qed

lemma reachable_pool:
  assumes "reachable cfg B base zero h L" and "config_ok cfg"
  shows "pool cfg B h L"
  using assms
proof (induction rule: reachable.induct)
  case init
  show ?case by (rule pool_init)
next
  case (call h L a h' L')
  then show ?case by (blast intro: pool_client)
qed

lemma reachable_disjoint:
  assumes "reachable cfg B base zero h L" and "config_ok cfg"
  shows "pairwise (\<lambda>x y. bytes x \<inter> bytes y = {}) L \<and>
    (\<forall>(off, n)\<in>L. 0 < n \<and> SIZE_SLAB B \<le> off \<and> off + n \<le> 2 ^ 32 * SIZE_SLAB B)"
  using pool_disjoint [OF reachable_pool [OF assms]] pool_bounds [OF reachable_pool [OF assms]]
  by (auto simp: pairwise_def)

lemma reachable_take:
  assumes "reachable cfg B base zero h L" and "config_ok cfg" and "class_ok B c"
  shows "(\<exists>off h'. heap_take cfg B base t c h = Inr (Some (base + off), h') \<and>
      reachable cfg B base zero h' (insert (off, b_size B c) L) \<and>
      (\<forall>x\<in>L. bytes (off, b_size B c) \<inter> bytes x = {})) \<or>
    heap_take cfg B base t c h = Inl Unwrap_None \<and> indices_exhausted cfg h"
  using pool_take [OF reachable_pool [OF assms(1,2)] assms(3,2), of base t]
proof (elim disjE exE conjE)
  fix off h'
  assume a: "heap_take cfg B base t c h = Inr (Some (base + off), h')"
    "\<forall>x\<in>L. bytes (off, b_size B c) \<inter> bytes x = {}"
  have "reachable cfg B base zero h' (insert (off, b_size B c) L)"
    using reachable.call [OF assms(1) client.take [OF assms(3) a(1), of L]] by simp
  with a show ?thesis by blast
qed blast

lemma reachable_give:
  assumes "reachable cfg B base zero h L" and "config_ok cfg" and "(off, n) \<in> L"
  shows "(\<exists>h'. heap_free cfg B t off h = Inr h' \<and> reachable cfg B base zero h' (L - {(off, n)})) \<or>
    heap_free cfg B t off h = Inl (Assertion ''owned'') \<and> validate cfg"
  using pool_give [OF reachable_pool [OF assms(1,2)] assms(3,2), of t]
    reachable.call [OF assms(1) client.give [OF assms(3)]] by blast

lemma init_take:
  assumes "class_ok B c" and "config_ok cfg" and "batch_bump_pop cfg < 2 ^ 32 - 1"
  shows "\<exists>off h'. heap_take cfg B base t c (heap_init B zero) = Inr (Some (base + off), h') \<and>
    reachable cfg B base zero h' {(off, b_size B c)}"
proof -
  have "\<not> indices_exhausted cfg (heap_init B zero)"
    using assms(3) by (simp add: indices_exhausted_def frontier_def view_def heap_init_def or_min_def index_min_def)
  then show ?thesis using reachable_take [OF reachable.init assms(2,1)] by blast
qed

end

subsection \<open>Properties\<close>

text \<open>
  From a zeroed region, after any sequence of allocations and frees by any threads, each of a
  block some client holds, the blocks the clients hold share no byte, are not empty, and lie in
  the data region behind its first slab, for the small and the large heap.
\<close>

theorem blocks_never_overlap:
  assumes "config_ok cfg"
  shows "(reachable cfg small_bracket base z h L \<longrightarrow> pairwise (\<lambda>x y. bytes x \<inter> bytes y = {}) L \<and>
      (\<forall>(off, n)\<in>L. 0 < n \<and> SIZE_SLAB small_bracket \<le> off \<and> off + n \<le> 2 ^ 32 * SIZE_SLAB small_bracket)) \<and>
    (reachable cfg large_bracket base' z' h' L' \<longrightarrow> pairwise (\<lambda>x y. bytes x \<inter> bytes y = {}) L' \<and>
      (\<forall>(off, n)\<in>L'. 0 < n \<and> SIZE_SLAB large_bracket \<le> off \<and> off + n \<le> 2 ^ 32 * SIZE_SLAB large_bracket))"
  using small.reachable_disjoint [OF _ assms, of base z h L] large.reachable_disjoint [OF _ assms, of base' z' h' L']
  by blast

lemma cfg_debug_ok [simp]: "config_ok cfg_debug"
  by (simp add: config_ok_def cfg_debug_def)

lemma cfg_debug_batch [simp]: "batch_bump_pop cfg_debug = 1"
  by (simp add: cfg_debug_def)

lemma class_ok_1 [simp]: "class_ok small_bracket (Small 1)" "class_ok large_bracket (Large 1)"
  by (simp_all add: small_class_ok large_class_ok small_is_zero_def)

theorem blocks_never_overlap_witness:
  "\<exists>h off h' off'.
     reachable cfg_debug small_bracket 0 (Small 0) h {(off, b_size small_bracket (Small 1))} \<and>
     SIZE_SLAB small_bracket \<le> off \<and>
     reachable cfg_debug large_bracket 0 (Large 0) h' {(off', b_size large_bracket (Large 1))} \<and>
     SIZE_SLAB large_bracket \<le> off'"
proof -
  obtain off h where a: "reachable cfg_debug small_bracket 0 (Small 0) h {(off, b_size small_bracket (Small 1))}"
    using small.init_take [of "Small 1" cfg_debug 0 1 "Small 0"] by auto
  obtain off' h' where b: "reachable cfg_debug large_bracket 0 (Large 0) h' {(off', b_size large_bracket (Large 1))}"
    using large.init_take [of "Large 1" cfg_debug 0 1 "Large 0"] by auto
  show ?thesis
    using blocks_never_overlap [OF cfg_debug_ok, of 0 "Small 0" h "{(off, b_size small_bracket (Small 1))}"
      0 "Large 0" h' "{(off', b_size large_bracket (Large 1))}"] a b by auto
qed

text \<open>
  C5: the small heap as a pool of blocks. A thread that asks for a class receives a block whose bytes no
  outstanding block shares, however the earlier calls were spread over threads, unless the 32-bit slab
  indices are used up; and any thread can give any outstanding block back, exactly that block stops
  being outstanding, the only failure being the validation of a validating build.
\<close>

theorem small_pool:
  assumes "reachable cfg small_bracket base z h L" and "config_ok cfg"
  shows "(class_ok small_bracket c \<longrightarrow>
      (\<exists>off h'. heap_take cfg small_bracket base t c h = Inr (Some (base + off), h') \<and>
        reachable cfg small_bracket base z h' (insert (off, b_size small_bracket c) L) \<and>
        (\<forall>x\<in>L. bytes (off, b_size small_bracket c) \<inter> bytes x = {})) \<or>
      heap_take cfg small_bracket base t c h = Inl Unwrap_None \<and> indices_exhausted cfg h) \<and>
    ((off, n) \<in> L \<longrightarrow>
      (\<exists>h'. heap_free cfg small_bracket t off h = Inr h' \<and> reachable cfg small_bracket base z h' (L - {(off, n)})) \<or>
      heap_free cfg small_bracket t off h = Inl (Assertion ''owned'') \<and> validate cfg)"
  using small.reachable_take [OF assms, of c t] small.reachable_give [OF assms, of off n t] by blast

theorem small_pool_witness:
  "\<exists>h off. reachable (cfg_debug\<lparr>validate := False\<rparr>) small_bracket 0 (Small 0) h {(off, b_size small_bracket (Small 1))} \<and>
    (\<exists>h'. heap_free (cfg_debug\<lparr>validate := False\<rparr>) small_bracket 2 off h = Inr h')"
proof -
  have cfg: "config_ok (cfg_debug\<lparr>validate := False\<rparr>)" by (simp add: config_ok_def cfg_debug_def)
  obtain off h where a: "reachable (cfg_debug\<lparr>validate := False\<rparr>) small_bracket 0 (Small 0) h {(off, b_size small_bracket (Small 1))}"
    using small.init_take [of "Small 1" "cfg_debug\<lparr>validate := False\<rparr>" 0 1 "Small 0"] cfg by auto
  show ?thesis using small_pool [OF a cfg, of "Small 1" 2 off "b_size small_bracket (Small 1)"] a by auto
qed

text \<open>
  The large heap gives the same promises: a thread that asks for a class receives a block that
  shares no byte with an outstanding one, unless the slab indices are used up, and any thread can
  give an outstanding block back; the only failure is the validation of a validating build.
\<close>

theorem large_pool:
  assumes "reachable cfg large_bracket base z h L" and "config_ok cfg"
  shows "(class_ok large_bracket c \<longrightarrow>
      (\<exists>off h'. heap_take cfg large_bracket base t c h = Inr (Some (base + off), h') \<and>
        reachable cfg large_bracket base z h' (insert (off, b_size large_bracket c) L) \<and>
        (\<forall>x\<in>L. bytes (off, b_size large_bracket c) \<inter> bytes x = {})) \<or>
      heap_take cfg large_bracket base t c h = Inl Unwrap_None \<and> indices_exhausted cfg h) \<and>
    ((off, n) \<in> L \<longrightarrow>
      (\<exists>h'. heap_free cfg large_bracket t off h = Inr h' \<and> reachable cfg large_bracket base z h' (L - {(off, n)})) \<or>
      heap_free cfg large_bracket t off h = Inl (Assertion ''owned'') \<and> validate cfg)"
  using large.reachable_take [OF assms, of c t] large.reachable_give [OF assms, of off n t] by blast

theorem large_pool_witness:
  "\<exists>h off. reachable (cfg_debug\<lparr>validate := False\<rparr>) large_bracket 0 (Large 0) h {(off, b_size large_bracket (Large 1))} \<and>
    (\<exists>h'. heap_free (cfg_debug\<lparr>validate := False\<rparr>) large_bracket 2 off h = Inr h')"
proof -
  have cfg: "config_ok (cfg_debug\<lparr>validate := False\<rparr>)" by (simp add: config_ok_def cfg_debug_def)
  obtain off h where a: "reachable (cfg_debug\<lparr>validate := False\<rparr>) large_bracket 0 (Large 0) h {(off, b_size large_bracket (Large 1))}"
    using large.init_take [of "Large 1" "cfg_debug\<lparr>validate := False\<rparr>" 0 1 "Large 0"] cfg by auto
  show ?thesis using large_pool [OF a cfg, of "Large 1" 2 off "b_size large_bracket (Large 1)"] a by auto
qed

text \<open>
  C32: in a validating build, freeing the last live block of a slab that is on the caller's sized
  stack but not at its head, with no block of it freed remotely, panics: \<open>sized_to_unsized\<close> unlinks
  the slab without decrementing the recorded length, and the validation that follows sees it.
\<close>

theorem inner_slab_free_stops:
  assumes "heap_inv cfg large_bracket h g" and "config_ok cfg" and "validate cfg"
    and "c = l_class (locals h i)" and "pl g i = At (SSized t c)" and "hd (lst g (SSized t c)) \<noteq> i"
    and "live g i = {k}" and "unat (c_inner (remotes h i)) = large_blocks c"
  shows "heap_free cfg large_bracket t (block_offset large_bracket c i k) h = Inl (Assertion ''owned'')"
proof -
  have "stuck_free cfg large_bracket t i k (view h) g"
    using assms(3-8) by (simp add: stuck_free_def view_def large_bracket_def)
  moreover have "c = l_class (v_locals (view h) i)" using assms(4) by (simp add: view_def)
  ultimately show ?thesis
    using large.heap_free_ok [of cfg h g k i c t] assms(1,2,7) by (auto simp: heap_inv_def)
qed

text \<open>Two slabs of two 256 KiB blocks on the stack of thread 1, the second block of each in use.\<close>

definition two_slabs :: "large heap" where
  "two_slabs = (heap_init large_bracket (Large 0))\<lparr>
     locals := (\<lambda>i. if i = 1 \<or> i = 2
       then \<lparr>l_next = (if i = 1 then Some 2 else None), l_owner = Some 1, l_class = Large 8,
         l_free = \<lparr>bs_count = 1, bs_sparse = 1, bs_dense = 1 # replicate (large_rows - 1) 0\<rparr>\<rparr>
       else \<lparr>l_next = None, l_owner = None, l_class = Large 0, l_free = bs_new large_rows\<rparr>),
     remotes := (\<lambda>_. \<lparr>c_id = None, c_version = 0, c_inner = 2\<rparr>),
     gbump := \<lparr>c_id = None, c_version = 0, c_inner = Some 3\<rparr>,
     sized := (\<lambda>t c. if t = 1 \<and> c = Large 8 then \<lparr>st_head = Some 1, st_len = 2\<rparr> else \<lparr>st_head = None, st_len = 0\<rparr>)\<rparr>"

definition two_slabs_ghost :: "large ghost" where
  "two_slabs_ghost =
     \<lparr>lst = (\<lambda>s. if s = SSized 1 (Large 8) then [1, 2] else []),
      pl = (\<lambda>i. if i = 1 \<or> i = 2 then At (SSized 1 (Large 8)) else Unbumped),
      live = (\<lambda>i. if i = 1 \<or> i = 2 then {1} else {})\<rparr>"

lemma one_bits: "dense_bits (1 # replicate n 0) = {0}"
proof (intro equalityI subsetI)
  fix k assume "k \<in> dense_bits (1 # replicate n 0)"
  then have a: "k div 64 < Suc n" "bit ((1 # replicate n 0 :: 64 word list) ! (k div 64)) (k mod 64)"
    by (simp_all add: mem_dense_bits)
  then have "k div 64 = 0" by (cases "k div 64") simp_all
  with a(2) have "k mod 64 = 0" by (simp add: bit_1_iff)
  with \<open>k div 64 = 0\<close> show "k \<in> {0}" by (metis div_mult_mod_eq mult_0 add_0 singletonI)
qed (simp add: mem_dense_bits)

lemma two_slabs_inv: "heap_inv cfg_debug large_bracket two_slabs two_slabs_ghost"
proof -
  have "class_ok large_bracket (Large 8)" by (simp add: large_class_ok)
  moreover have "large_blocks (Large 8) = 2" by (simp add: large_blocks_eq)
  moreover have "bs_inv 13 \<lparr>bs_count = 1, bs_sparse = 1, bs_dense = 1 # replicate 12 0\<rparr>"
    by (simp add: bs_inv_iff one_bits nth_Cons' bit_1_iff)
  moreover have "ROWS large_bracket = large_rows" "b_blocks large_bracket = large_blocks"
    by (simp_all add: large_bracket_def)
  ultimately show ?thesis unfolding heap_inv_def vinv_def
    by (intro conjI allI impI)
      (auto simp: two_slabs_def two_slabs_ghost_def view_def lists_ok_def heads_def lens_def nxtv_def frontier_def
        or_min_def heap_init_def slab_ok_def counts_ok_def one_bits bs_new_def size_values split: slot.splits)
qed

theorem inner_slab_free_stops_witness:
  "heap_inv cfg_debug large_bracket two_slabs two_slabs_ghost \<and>
   heap_free cfg_debug large_bracket 1 (block_offset large_bracket (Large 8) 2 1) two_slabs = Inl (Assertion ''owned'')"
proof -
  have "large_blocks (Large 8) = 2" by (simp add: large_blocks_eq)
  then show ?thesis
    using inner_slab_free_stops [OF two_slabs_inv, of "Large 8" 2 1 1] two_slabs_inv
    by (simp add: cfg_debug_def [THEN arg_cong, of validate] two_slabs_def two_slabs_ghost_def)
qed

end
