(* ===== verification/Recover.thy ===== *)
theory Recover
  imports Pool
begin

text \<open>
  Recovery of one heap from a thread's log (\<open>cxlalloc/src/recover.rs\<close>). A crash leaves the heap
  in the middle of an operation with the last logged state; \<open>recover_heap\<close> completes or undoes the
  operation. The theorems place the crash at one point of an operation: where recovery restores the
  invariant, and the points where it does not.
\<close>

subsection \<open>Recovery\<close>

definition recover_unsized_push :: "nat \<Rightarrow> nat \<Rightarrow> 'c heap \<Rightarrow> 'c heap res" where
  "recover_unsized_push t i h =
     andthen (finish (stack_recover_push i (unsized h t) h)) (\<lambda>(s, h1). Inr (set_unsized t s h1))"

text \<open>\<open>set(Some(index), 0)\<close> followed by \<open>recover_len\<close>: the undo of the transfer to the global stack.\<close>

definition recover_unsized_undo :: "nat \<Rightarrow> nat \<Rightarrow> 'c heap \<Rightarrow> 'c heap res" where
  "recover_unsized_undo t i h =
     (let h1 = set_unsized t (stack_set (Some i) 0) h in
      andthen (finish (stack_recover_len h1 (unsized h1 t))) (\<lambda>s. Inr (set_unsized t s h1)))"

fun recover_heap :: "config \<Rightarrow> 'c bracket \<Rightarrow> nat \<Rightarrow> 'c heap_state \<Rightarrow> 'c heap \<Rightarrow> 'c heap res" where
  "recover_heap cfg B t (UnsizedToSized index c) h =
     (let head = st_head (unsized h t) in
      if head \<noteq> index
      then andthen (finish (trace_count (nxt h) head)) (\<lambda>count. Inr (set_unsized t (stack_set head count) h))
      else andthen (unsized_to_sized cfg B t c h) (\<lambda>(_, h1). Inr h1))"
| "recover_heap cfg B t (GlobalToUnsized index version) h =
     andthen (shared_detect_global t version h) (\<lambda>done.
     if \<not> done then Inr h else recover_unsized_push t index h)"
| "recover_heap cfg B t (BumpToUnsized start version) h =
     andthen (shared_detect_bump t version h) (\<lambda>done.
     if \<not> done then Inr h
     else
       let batch = batch_bump_pop cfg in
       andthen (index_add (or_min start) (batch mod 2 ^ 32)) (\<lambda>end.
       andthen (slab_link cfg t (or_min start) end None h) (\<lambda>h1.
       Inr (set_unsized t (stack_set (Some (or_min start)) batch) h1))))"
| "recover_heap cfg B t (UnsizedToGlobalSave index) h =
     (if st_head (unsized h t) = Some index
      then andthen (finish (stack_recover_len h (unsized h t))) (\<lambda>s. Inr (set_unsized t s h))
      else recover_unsized_undo t index h)"
| "recover_heap cfg B t (UnsizedToGlobal index version) h =
     andthen (shared_detect_global t version h) (\<lambda>done.
     if done then Inr h else recover_unsized_undo t index h)"
| "recover_heap cfg B t (SizedToApplication index block) h = Inl Todo"
| "recover_heap cfg B t (ApplicationToSized index block) h = Inl Todo"
| "recover_heap cfg B t (Remote index version lst') h =
     andthen (det_detect (get_remote index) t version h) (\<lambda>done.
     if \<not> done then heap_free_remote cfg B t index h
     else if \<not> lst' then Inr h
     else andthen (recover_unsized_push t index h) (\<lambda>h1. unsized_to_global cfg B t h1))"
| "recover_heap cfg B t (Detach index version) h =
     (let c = l_class (locals h index) in
      andthen (det_detect (get_remote index) t version h) (\<lambda>done.
      if \<not> done then heap_detach cfg B t c index h else Inr h))"

subsection \<open>Crash points\<close>

text \<open>
  \<open>unsized_to_sized\<close> up to its last statement: the slab is initialised and on the sized stack, the
  unsized stack still starts with it.
\<close>

definition unsized_to_sized_pushed :: "config \<Rightarrow> 'c bracket \<Rightarrow> nat \<Rightarrow> 'c \<Rightarrow> 'c heap \<Rightarrow> 'c heap res" where
  "unsized_to_sized_pushed cfg B t c h =
     andthen (unwrap (st_head (unsized h t))) (\<lambda>i.
       let h1 = ctx_log cfg t (into_state B (UnsizedToSized (nxt h i) c)) h;
           h2 = set_class i c h1 in
       andthen (bs_fill (b_blocks B c) (l_free (locals h2 i))) (\<lambda>free.
       let h3 = set_free i free h2 in
       andthen (class_index_ok B c) (\<lambda>_.
       let (s, h4) = stack_push i (sized h3 t c) h3 in
       Inr (det_store cfg (get_remote i) (set_remote i) t (of_nat (b_blocks B c)) (set_sized t c s h4)))))"

text \<open>\<open>update\<close> up to the compare-exchange: the closure has run and its state is logged.\<close>

definition det_update_logged ::
  "config \<Rightarrow> ('z ctx_scheme \<Rightarrow> 'v cell) \<Rightarrow> nat \<Rightarrow>
   ('v \<Rightarrow> 16 word \<Rightarrow> 'z ctx_scheme \<Rightarrow> ('z ctx_scheme \<times> ('v \<times> state) option) res) \<Rightarrow> 'z ctx_scheme \<Rightarrow> 'z ctx_scheme res" where
  "det_update_logged cfg get t next s =
     (let version = version_next (help_load t t s);
          s1 = (if recover_cas cfg then help_store t t version s else s);
          s2 = det_help cfg t (get s1) s1 in
      andthen (next (c_inner (get s1)) version s2) (\<lambda>(s3, r).
      andthen (unwrap r) (\<lambda>(new, st). Inr (log_unsync cfg t st s3))))"

definition global_push_logged :: "config \<Rightarrow> 'c bracket \<Rightarrow> nat \<Rightarrow> nat \<Rightarrow> nat \<Rightarrow> 'c heap \<Rightarrow> 'c heap res" where
  "global_push_logged cfg B t head tail h =
     det_update_logged cfg gfree t
       (\<lambda>old version h1. Inr (set_next tail old h1, Some (Some head, into_state B (UnsizedToGlobal head version)))) h"

lemma unsized_to_sized_split:
  "st_head (unsized h t) = Some i \<Longrightarrow>
   unsized_to_sized cfg B t c h =
     andthen (unsized_to_sized_pushed cfg B t c h) (\<lambda>h1.
     andthen (sub_w cfg 64 (st_len (unsized h1 t)) 1) (\<lambda>count.
     Inr (True, set_unsized t (stack_set (nxt h i) count) h1)))"
  by (simp add: unsized_to_sized_def unsized_to_sized_pushed_def Let_def andthen_assoc stack_push_def)

subsection \<open>Crashes during a bump\<close>

lemma shared_bump_leaves:
  assumes "shared_bump cfg B t h = Inr ((a, e), h1)" and "recover_cas cfg" "recover_log cfg"
  defines "v \<equiv> help_arr h t t + 1"
  shows "log_state h1 t = Some (into_state B (BumpToUnsized (c_inner (gbump h)) v))"
    and "c_id (gbump h1) = Some t" "c_version (gbump h1) = v"
    and "help_arr h1 t t = (if c_id (gbump h) = Some t then c_version (gbump h) else v)"
    and "a = or_min (c_inner (gbump h))" "index_add a (batch_bump_pop cfg mod 2 ^ 32) = Inr e"
    and "view h1 = (view h)\<lparr>v_gbump := Some e\<rparr>"
  using assms
  by (auto simp: shared_bump_def det_update_def Let_def andthen_Inr_conv set_gbump_def log_unsync_def
      version_next_def help_load_def help_det_help view_def split: if_splits)

lemma det_detect_own:
  "help_arr h t t = v \<Longrightarrow> c_id (get h) = Some t \<Longrightarrow> c_version (get h) = v \<Longrightarrow> det_detect get t v h = Inr True"
  by (simp add: det_detect_def help_load_def)

context bracket_laws
begin

lemma bump_recovery:
  assumes inv: "vinv cfg B (view h) g" and cfg: "config_ok cfg" "recover_cas cfg" "recover_log cfg"
    and empty: "heads (view h) (SUnsized t) = None" and other: "c_id (gbump h) \<noteq> Some t"
    and crash: "shared_bump cfg B t h = Inr ((a, e), h1)"
  shows "\<exists>st h' g'. log_state h1 t = Some (into_state B st) \<and> recover_heap cfg B t st h1 = Inr h' \<and>
    vinv cfg B (view h') g' \<and> live g' = live g \<and> heads (view h') (SUnsized t) = Some a"
proof -
  let ?n = "batch_bump_pop cfg" and ?st = "BumpToUnsized (c_inner (gbump h)) (help_arr h t t + 1)"
  note C = shared_bump_leaves [OF crash cfg(2,3)]
  have n: "?n mod 2 ^ 32 = ?n" "1 \<le> ?n" using cfg(1) by (simp_all add: config_ok_def)
  have a: "a = frontier (view h)" using C(5) by (simp add: frontier_def view_def)
  have e: "e = a + ?n" "a + ?n < 2 ^ 32" using C(6) n(1) by (auto simp: index_add_def)
  have "l_owner (v_locals (view h) i) = None" if "a \<le> i" for i
    using that vinvD(3) [OF inv, of i] vinvD(4) [OF inv, of i] by (simp add: slab_ok_def a)
  then obtain h2 where h2: "slab_link cfg t a e None h1 = Inr h2"
    "view h2 = (view h1)\<lparr>v_locals := linked t a e None (v_locals (view h))\<rparr>"
    using slab_link_exec [of a e h1 cfg t None] by (auto simp: C(7) e)
  have "recover_heap cfg B t ?st h1 = Inr (set_unsized t (stack_set (Some a) ?n) h2)"
    using other C h2(1) by (simp add: shared_detect_bump_def det_detect_own)
  moreover obtain g' where "vinv cfg B (vunsized t (stack_set (Some a) ?n) (view h2)) g'" "live g' = live g"
    using vinv_bump [OF inv empty _ e(2) [unfolded a]] n(2) by (auto simp: h2(2) C(7) a e(1))
  ultimately show ?thesis using C(1)
    by (intro exI [of _ ?st] exI [of _ "set_unsized t (stack_set (Some a) ?n) h2"] exI [of _ g'])
      (simp add: stack_set_def)
qed

end


lemma init_bump: "\<exists>h1. shared_bump cfg_debug B t (heap_init B z) = Inr ((1, 2), h1)"
proof -
  have "or_min (v_gbump (view (heap_init B z))) = 1" by (simp add: view_def heap_init_def or_min_def index_min_def)
  then have "\<exists>h1. shared_bump cfg_debug B t (heap_init B z) = Inr ((1, 1 + 1), h1)"
    using shared_bump_exec [of "heap_init B z" cfg_debug B t] by auto
  then show ?thesis unfolding one_add_one .
qed



text \<open>A heap in which thread 1 has bumped once.\<close>

definition bumped_once :: "small heap" where
  "bumped_once = (heap_init small_bracket (Small 0))\<lparr>help_arr := (\<lambda>i j. if i = 1 \<and> j = 1 then 1 else 0),
     gbump := \<lparr>c_id = Some 1, c_version = 1, c_inner = Some 2\<rparr>\<rparr>"


subsection \<open>Crashes during the transfers\<close>

lemma trace_n_head: "0 < n \<Longrightarrow> i \<in> set (trace_n nx n (Some i))"
  by (cases n) simp_all

lemma both_stacks_invalid:
  assumes "st_head (unsized h t) = Some i" "0 < st_len (unsized h t)"
    and "st_head (sized h t c) = Some i" "0 < st_len (sized h t c)"
    and "b_from_index B k = Some c" "k < COUNT B"
  shows "\<not> owned_is_valid B t h"
proof -
  have "i \<in> set (stack_trace h (unsized h t))" "i \<in> set (stack_trace h (sized h t c))"
    using assms(1-4) by (simp_all add: stack_trace_def trace_n_head)
  moreover have "c \<in> set (List.map_filter (b_from_index B) [0..<COUNT B])"
    using assms(5,6) by (force simp: List.map_filter_def)
  ultimately show ?thesis by (auto simp: owned_is_valid_def Let_def)
qed

text \<open>
  C39: a thread that crashes at the end of \<open>unsized_to_sized\<close>, when the slab is on the sized stack and
  only the unsized stack's head is still to be moved, does not complete the move when it recovers:
  the log holds the successor of the slab while recovery compares it with the head, takes the branch
  for a finished push, and leaves the slab at the head of both stacks, which the heap's own
  validity check rejects.
\<close>

theorem sized_push_crash_duplicates:
  assumes "st_head (unsized h t) = Some i" and "nxt h i \<noteq> Some i" and "unsized_to_sized_pushed cfg B t c h = Inr h1"
    and "chain (nxt h) (st_head (sized h t c)) xs" and "i \<notin> set xs" and "b_from_index B (b_index B c) = Some c"
  shows "\<exists>h'. recover_heap cfg B t (UnsizedToSized (nxt h i) c) h1 = Inr h' \<and>
    st_head (unsized h' t) = Some i \<and> st_head (sized h' t c) = Some i \<and> \<not> owned_is_valid B t h'"
proof -
  obtain free where free: "b_index B c < COUNT B"
    "h1 = det_store cfg (get_remote i) (set_remote i) t (of_nat (b_blocks B c))
      (set_sized t c (stack_set (Some i) (st_len (sized h t c) + 1)) (set_next i (st_head (sized h t c))
        (set_free i free (set_class i c (ctx_log cfg t (into_state B (UnsizedToSized (nxt h i) c)) h)))))"
    using assms(1,3)
    by (auto simp: unsized_to_sized_pushed_def andthen_Inr_conv Let_def stack_push_def class_index_ok_def)
      (simp_all add: heap_setters)
  have h1: "unsized h1 = unsized h" "sized h1 t c = stack_set (Some i) (st_len (sized h t c) + 1)"
    "nxt h1 = (nxt h)(i := st_head (sized h t c))"
    by (simp_all add: free(2) det_store_def Let_def) (simp_all add: heap_setters)
  have "chain (nxt h1) (Some i) (i # xs)" using assms(4,5) by (simp add: h1(3))
  then have "trace_count (nxt h1) (Some i) = Some (length (i # xs))" by (rule trace_count_chain)
  then have "recover_heap cfg B t (UnsizedToSized (nxt h i) c) h1 =
      Inr (set_unsized t (stack_set (Some i) (length (i # xs))) h1)" (is "_ = Inr ?h'")
    using assms(1,2) by (simp add: h1(1) Let_def)
  moreover have "unsized ?h' t = stack_set (Some i) (length (i # xs))" "sized ?h' t c = sized h1 t c"
    by (simp_all add: heap_setters)
  ultimately show ?thesis
    using both_stacks_invalid [of ?h' t i c B "b_index B c"] assms(6) free(1) h1(2) by (simp add: stack_set_def)
qed

context bracket_laws
begin

lemma pushed_ok:
  assumes "st_head (unsized h t) = Some i" and "length (bs_dense (l_free (locals h i))) = ROWS B" and "class_ok B c"
  shows "\<exists>h1. unsized_to_sized_pushed cfg B t c h = Inr h1"
proof -
  obtain free where "bs_fill (b_blocks B c) (l_free (locals h i)) = Inr free"
    using bs_fill_spec [OF assms(2) rows_max blocks_rows [OF assms(3)]] by blast
  moreover have "l_free (locals (set_class i c (ctx_log cfg t st h)) i) = l_free (locals h i)" for st
    by (simp add: set_class_def)
  ultimately show ?thesis using assms(1,3)
    by (simp add: unsized_to_sized_pushed_def Let_def class_index_ok_def class_ok_def stack_push_def)
qed

end

text \<open>A heap with slab 1 on the unsized stack of thread 1.\<close>

definition one_unsized :: "small heap" where
  "one_unsized = (heap_init small_bracket (Small 0))\<lparr>unsized := (\<lambda>t. if t = 1 then stack_set (Some 1) 1 else stack_set None 0)\<rparr>"

theorem sized_push_crash_duplicates_witness:
  "\<exists>h1 h'. unsized_to_sized_pushed cfg_debug small_bracket 1 (Small 1) one_unsized = Inr h1 \<and>
    recover_heap cfg_debug small_bracket 1 (UnsizedToSized None (Small 1)) h1 = Inr h' \<and> \<not> owned_is_valid small_bracket 1 h'"
proof -
  have "\<exists>h1. unsized_to_sized_pushed cfg_debug small_bracket 1 (Small 1) one_unsized = Inr h1"
    by (rule small.pushed_ok [of _ _ 1]) (simp_all add: one_unsized_def heap_init_def stack_set_def bs_new_def)
  then obtain h1 where h1: "unsized_to_sized_pushed cfg_debug small_bracket 1 (Small 1) one_unsized = Inr h1" by blast
  have "nxt one_unsized 1 = None" "st_head (sized one_unsized 1 (Small 1)) = None" "st_head (unsized one_unsized 1) = Some 1"
    by (simp_all add: one_unsized_def nxt_def heap_init_def stack_set_def)
  then show ?thesis
    using sized_push_crash_duplicates [of one_unsized 1 1 cfg_debug small_bracket "Small 1" h1 "[]"] h1 small.from_index
    by auto
qed





end
