(* ===== verification/Stat.thy ===== *)
theory Stat
  imports Slab
begin

text \<open>
  The statistics recorders (\<open>cxlalloc/src/stat.rs\<close>): event counters per thread and size
  class, the byte ledger of the places a slab can be in, and the sloppy counters that flush a value
  once it reaches a threshold. Whatever the threshold, nothing is lost between the flushed values
  and the residue, and the ledger's places always add up to the bytes taken from the bump cell.
\<close>

subsection \<open>Counters\<close>

definition counter_increment_atomic :: "64 word \<Rightarrow> 64 word" where
  "counter_increment_atomic c = c + 1"

definition counter_increment :: "config \<Rightarrow> 64 word \<Rightarrow> 64 word res" where
  "counter_increment cfg c = inc_word cfg c"

definition counter_load :: "64 word \<Rightarrow> nat" where
  "counter_load c = unat c"

text \<open>Signed 64-bit addition: a panic or wrap-around out of range, by the profile.\<close>

definition in_i64 :: "int \<Rightarrow> bool" where
  "in_i64 x \<longleftrightarrow> - (2 ^ 63) \<le> x \<and> x < 2 ^ 63"

definition wrap_i64 :: "int \<Rightarrow> int" where
  "wrap_i64 x = (x + 2 ^ 63) mod 2 ^ 64 - 2 ^ 63"

definition checked_i64 :: "config \<Rightarrow> int \<Rightarrow> int res" where
  "checked_i64 cfg x = (if in_i64 x then Inr x else if overflow_checks cfg then Inl Overflow else Inr (wrap_i64 x))"

definition sloppy_apply :: "config \<Rightarrow> int \<Rightarrow> int \<Rightarrow> int \<Rightarrow> (int \<times> int option) res" where
  "sloppy_apply cfg threshold prev delta =
     andthen (checked_i64 cfg (prev + delta)) (\<lambda>next.
     andthen (checked_i64 cfg \<bar>next\<bar>) (\<lambda>magnitude.
     if magnitude < threshold then Inr (next, None) else Inr (0, Some next)))"

subsection \<open>Events\<close>

record report =
  rp_heap :: string
  rp_event :: string
  rp_class :: "nat option"
  rp_count :: nat

datatype process_event = FaultSmall | FaultLarge | FaultHuge

record process_recorder =
  fault_small :: "64 word"
  fault_large :: "64 word"
  fault_huge :: "64 word"

fun process_record :: "process_event \<Rightarrow> process_recorder \<Rightarrow> process_recorder" where
  "process_record FaultSmall r = r\<lparr>fault_small := counter_increment_atomic (fault_small r)\<rparr>"
| "process_record FaultLarge r = r\<lparr>fault_large := counter_increment_atomic (fault_large r)\<rparr>"
| "process_record FaultHuge r = r\<lparr>fault_huge := counter_increment_atomic (fault_huge r)\<rparr>"

definition process_report :: "process_recorder \<Rightarrow> report list" where
  "process_report r =
     map (\<lambda>(heap, counter). \<lparr>rp_heap = heap, rp_event = ''fault'', rp_class = None, rp_count = counter_load counter\<rparr>)
       [(''small'', fault_small r), (''large'', fault_large r), (''huge'', fault_huge r)]"

record 'c event_recorder =
  er_bump :: "64 word"
  er_global_to_unsized :: "64 word"
  er_allocate :: "'c \<Rightarrow> 64 word"
  er_unsized_to_sized :: "'c \<Rightarrow> 64 word"
  er_free :: "'c \<Rightarrow> 64 word"
  er_sized_to_unsized :: "'c \<Rightarrow> 64 word"
  er_unsized_to_global :: "64 word"
  er_detach :: "'c \<Rightarrow> 64 word"
  er_disown :: "'c \<Rightarrow> 64 word"
  er_attach :: "'c \<Rightarrow> 64 word"
  er_claim :: "'c \<Rightarrow> 64 word"

definition event_default :: "'c event_recorder" where
  "event_default = \<lparr>er_bump = 0, er_global_to_unsized = 0, er_allocate = (\<lambda>_. 0), er_unsized_to_sized = (\<lambda>_. 0),
     er_free = (\<lambda>_. 0), er_sized_to_unsized = (\<lambda>_. 0), er_unsized_to_global = 0, er_detach = (\<lambda>_. 0),
     er_disown = (\<lambda>_. 0), er_attach = (\<lambda>_. 0), er_claim = (\<lambda>_. 0)\<rparr>"

text \<open>Incrementing one element of an array indexed by size class; the index is not checked.\<close>

definition bump_class :: "config \<Rightarrow> 'c bracket \<Rightarrow> 'c \<Rightarrow> ('c \<Rightarrow> 64 word) \<Rightarrow> ('c \<Rightarrow> 64 word) res" where
  "bump_class cfg B c a =
     andthen (require (b_index B c < COUNT B) Undefined) (\<lambda>_.
     andthen (counter_increment cfg (a c)) (\<lambda>n. Inr (a(c := n))))"

definition class_of_size :: "'c bracket \<Rightarrow> nat \<Rightarrow> 'c res" where
  "class_of_size B n = andthen (b_new B n) unwrap"

fun event_record :: "config \<Rightarrow> 'c bracket \<Rightarrow> 'c event \<Rightarrow> 'c event_recorder \<Rightarrow> 'c event_recorder res" where
  "event_record cfg B Ev_Bump r =
     andthen (counter_increment cfg (er_bump r)) (\<lambda>k. Inr (r\<lparr>er_bump := k\<rparr>))"
| "event_record cfg B Ev_GlobalToUnsized r =
     andthen (counter_increment cfg (er_global_to_unsized r)) (\<lambda>n. Inr (r\<lparr>er_global_to_unsized := n\<rparr>))"
| "event_record cfg B (Ev_Allocate n) r =
     andthen (class_of_size B n) (\<lambda>c. andthen (bump_class cfg B c (er_allocate r)) (\<lambda>a. Inr (r\<lparr>er_allocate := a\<rparr>)))"
| "event_record cfg B (Ev_UnsizedToSized c) r =
     andthen (bump_class cfg B c (er_unsized_to_sized r)) (\<lambda>a. Inr (r\<lparr>er_unsized_to_sized := a\<rparr>))"
| "event_record cfg B (Ev_Free n) r =
     andthen (class_of_size B n) (\<lambda>c. andthen (bump_class cfg B c (er_free r)) (\<lambda>a. Inr (r\<lparr>er_free := a\<rparr>)))"
| "event_record cfg B (Ev_SizedToUnsized c) r =
     andthen (bump_class cfg B c (er_sized_to_unsized r)) (\<lambda>a. Inr (r\<lparr>er_sized_to_unsized := a\<rparr>))"
| "event_record cfg B Ev_UnsizedToGlobal r =
     andthen (counter_increment cfg (er_unsized_to_global r)) (\<lambda>n. Inr (r\<lparr>er_unsized_to_global := n\<rparr>))"
| "event_record cfg B (Ev_Detach c) r =
     andthen (bump_class cfg B c (er_detach r)) (\<lambda>a. Inr (r\<lparr>er_detach := a\<rparr>))"
| "event_record cfg B (Ev_Disown c) r =
     andthen (bump_class cfg B c (er_disown r)) (\<lambda>a. Inr (r\<lparr>er_disown := a\<rparr>))"
| "event_record cfg B (Ev_Attach c) r =
     andthen (bump_class cfg B c (er_attach r)) (\<lambda>a. Inr (r\<lparr>er_attach := a\<rparr>))"
| "event_record cfg B (Ev_Claim c) r =
     andthen (bump_class cfg B c (er_claim r)) (\<lambda>a. Inr (r\<lparr>er_claim := a\<rparr>))"

definition report_counter :: "'c bracket \<Rightarrow> string \<times> 64 word \<Rightarrow> report" where
  "report_counter B x = \<lparr>rp_heap = b_name B, rp_event = fst x, rp_class = None, rp_count = counter_load (snd x)\<rparr>"

text \<open>\<open>size::Array::iter\<close>: the classes of the array in index order; each index has one.\<close>

fun array_iter :: "'c bracket \<Rightarrow> nat list \<Rightarrow> 'c list res" where
  "array_iter B [] = Inr []"
| "array_iter B (i # is) = andthen (unwrap (b_from_index B i)) (\<lambda>c. andthen (array_iter B is) (\<lambda>cs. Inr (c # cs)))"

definition report_array :: "'c bracket \<Rightarrow> string \<times> ('c \<Rightarrow> 64 word) \<Rightarrow> report list res" where
  "report_array B x =
     andthen (array_iter B [0..<COUNT B]) (\<lambda>cs.
     Inr (map (\<lambda>c. \<lparr>rp_heap = b_name B, rp_event = fst x,
         rp_class = (if b_size B c = 2 ^ 64 - 1 then None else Some (b_size B c)), rp_count = counter_load (snd x c)\<rparr>)
       (filter (\<lambda>c. \<not> b_is_zero B c) cs)))"

fun report_arrays :: "'c bracket \<Rightarrow> (string \<times> ('c \<Rightarrow> 64 word)) list \<Rightarrow> report list res" where
  "report_arrays B [] = Inr []"
| "report_arrays B (x # xs) = andthen (report_array B x) (\<lambda>rs. andthen (report_arrays B xs) (\<lambda>rs'. Inr (rs @ rs')))"

definition event_report :: "'c bracket \<Rightarrow> 'c event_recorder \<Rightarrow> report list res" where
  "event_report B r =
     andthen (report_arrays B
       [(''allocate'', er_allocate r), (''unsized_to_sized'', er_unsized_to_sized r), (''free'', er_free r),
        (''sized_to_unsized'', er_sized_to_unsized r), (''detach'', er_detach r), (''disown'', er_disown r),
        (''attach'', er_attach r), (''claim'', er_claim r)])
       (\<lambda>rs. Inr (rs @ map (report_counter B)
         [(''bump'', er_bump r), (''global_to_unsized'', er_global_to_unsized r), (''unsized_to_global'', er_unsized_to_global r)]))"

subsection \<open>Memory\<close>

record 'c memory_recorder =
  mr_data :: int
  mr_slab_local :: int
  mr_slab_remote :: int
  mr_application :: "'c \<Rightarrow> int"
  mr_global_unsized :: int
  mr_local_unsized :: int
  mr_local_sized :: "'c \<Rightarrow> int"
  mr_detached :: "'c \<Rightarrow> int"
  mr_disowned :: "'c \<Rightarrow> int"

definition memory_default :: "'c memory_recorder" where
  "memory_default = \<lparr>mr_data = 0, mr_slab_local = 0, mr_slab_remote = 0, mr_application = (\<lambda>_. 0),
     mr_global_unsized = 0, mr_local_unsized = 0, mr_local_sized = (\<lambda>_. 0), mr_detached = (\<lambda>_. 0), mr_disowned = (\<lambda>_. 0)\<rparr>"

text \<open>The values handed to the \<open>apply\<close> callback: a place, the size of its class, a value.\<close>

type_synonym flush = "string \<times> nat option \<times> int"

text \<open>One \<open>update\<close> of a field and the callback for the value it flushes.\<close>

definition update_field ::
  "config \<Rightarrow> int \<Rightarrow> ('r \<Rightarrow> int) \<Rightarrow> (int \<Rightarrow> 'r \<Rightarrow> 'r) \<Rightarrow> string \<Rightarrow> nat option \<Rightarrow> int \<Rightarrow> 'r \<times> flush list \<Rightarrow> ('r \<times> flush list) res" where
  "update_field cfg threshold get put place sz delta s =
     andthen (sloppy_apply cfg threshold (get (fst s)) delta) (\<lambda>(next, value).
     Inr (put next (fst s), snd s @ (case value of None \<Rightarrow> [] | Some v \<Rightarrow> [(place, sz, v)])))"

definition update_class ::
  "config \<Rightarrow> 'c bracket \<Rightarrow> int \<Rightarrow> ('r \<Rightarrow> 'c \<Rightarrow> int) \<Rightarrow> (('c \<Rightarrow> int) \<Rightarrow> 'r \<Rightarrow> 'r) \<Rightarrow> string \<Rightarrow> 'c \<Rightarrow> nat \<Rightarrow> int \<Rightarrow>
   'r \<times> flush list \<Rightarrow> ('r \<times> flush list) res" where
  "update_class cfg B threshold get put place c sz delta s =
     andthen (require (b_index B c < COUNT B) Undefined) (\<lambda>_.
     update_field cfg threshold (\<lambda>r. get r c) (\<lambda>v r. put ((get r)(c := v)) r) place (Some sz) delta s)"

abbreviation "put_data v r \<equiv> r\<lparr>mr_data := v\<rparr>"
abbreviation "put_slab_local v r \<equiv> r\<lparr>mr_slab_local := v\<rparr>"
abbreviation "put_slab_remote v r \<equiv> r\<lparr>mr_slab_remote := v\<rparr>"
abbreviation "put_application v r \<equiv> r\<lparr>mr_application := v\<rparr>"
abbreviation "put_global_unsized v r \<equiv> r\<lparr>mr_global_unsized := v\<rparr>"
abbreviation "put_local_unsized v r \<equiv> r\<lparr>mr_local_unsized := v\<rparr>"
abbreviation "put_local_sized v r \<equiv> r\<lparr>mr_local_sized := v\<rparr>"
abbreviation "put_detached v r \<equiv> r\<lparr>mr_detached := v\<rparr>"
abbreviation "put_disowned v r \<equiv> r\<lparr>mr_disowned := v\<rparr>"

text \<open>
  The batch sizes are read when the event is recorded. \<open>size_local\<close> and \<open>size_remote\<close> are the sizes the
  compiler gives the two slab descriptors.
\<close>

fun memory_record ::
  "config \<Rightarrow> 'c bracket \<Rightarrow> nat \<Rightarrow> nat \<Rightarrow> int \<Rightarrow> 'c event \<Rightarrow> 'c memory_recorder \<times> flush list \<Rightarrow> ('c memory_recorder \<times> flush list) res" where
  "memory_record cfg B size_local size_remote threshold (Ev_Allocate n) s =
     andthen (class_of_size B n) (\<lambda>c.
     update_class cfg B threshold mr_application put_application ''application'' c n (wrap_i64 (int n)) s)"
| "memory_record cfg B size_local size_remote threshold Ev_Bump s =
     (let batch = wrap_i64 (int (batch_bump_pop cfg)) in
      andthen (checked_i64 cfg (int (SIZE_SLAB B) * batch)) (\<lambda>sz.
      andthen (update_field cfg threshold mr_local_unsized put_local_unsized ''local_unsized'' None sz s) (\<lambda>s1.
      andthen (update_field cfg threshold mr_data put_data ''data'' None sz s1) (\<lambda>s2.
      andthen (checked_i64 cfg (int size_local * batch)) (\<lambda>l.
      andthen (update_field cfg threshold mr_slab_local put_slab_local ''slab_local'' None l s2) (\<lambda>s3.
      andthen (checked_i64 cfg (int size_remote * batch)) (\<lambda>r.
      update_field cfg threshold mr_slab_remote put_slab_remote ''slab_remote'' None r s3)))))))"
| "memory_record cfg B size_local size_remote threshold Ev_GlobalToUnsized s =
     andthen (update_field cfg threshold mr_global_unsized put_global_unsized ''global_unsized'' None (- int (SIZE_SLAB B)) s) (\<lambda>s1.
     update_field cfg threshold mr_local_unsized put_local_unsized ''local_unsized'' None (int (SIZE_SLAB B)) s1)"
| "memory_record cfg B size_local size_remote threshold (Ev_UnsizedToSized c) s =
     andthen (update_field cfg threshold mr_local_unsized put_local_unsized ''local_unsized'' None (- int (SIZE_SLAB B)) s) (\<lambda>s1.
     update_class cfg B threshold mr_local_sized put_local_sized ''local_sized'' c (b_size B c) (int (SIZE_SLAB B)) s1)"
| "memory_record cfg B size_local size_remote threshold (Ev_Free n) s =
     andthen (class_of_size B n) (\<lambda>c.
     andthen (checked_i64 cfg (- wrap_i64 (int n))) (\<lambda>delta.
     update_class cfg B threshold mr_application put_application ''application'' c n delta s))"
| "memory_record cfg B size_local size_remote threshold (Ev_SizedToUnsized c) s =
     andthen (update_class cfg B threshold mr_local_sized put_local_sized ''local_sized'' c (b_size B c) (- int (SIZE_SLAB B)) s) (\<lambda>s1.
     update_field cfg threshold mr_local_unsized put_local_unsized ''local_unsized'' None (int (SIZE_SLAB B)) s1)"
| "memory_record cfg B size_local size_remote threshold Ev_UnsizedToGlobal s =
     (let batch = wrap_i64 (int (batch_global_push cfg)) in
      andthen (checked_i64 cfg (- int (SIZE_SLAB B) * batch)) (\<lambda>m.
      andthen (update_field cfg threshold mr_local_unsized put_local_unsized ''local_unsized'' None m s) (\<lambda>s1.
      andthen (checked_i64 cfg (int (SIZE_SLAB B) * batch)) (\<lambda>p.
      update_field cfg threshold mr_global_unsized put_global_unsized ''global_unsized'' None p s1))))"
| "memory_record cfg B size_local size_remote threshold (Ev_Detach c) s =
     andthen (update_class cfg B threshold mr_local_sized put_local_sized ''local_sized'' c (b_size B c) (- int (SIZE_SLAB B)) s) (\<lambda>s1.
     update_class cfg B threshold mr_detached put_detached ''detached'' c (b_size B c) (int (SIZE_SLAB B)) s1)"
| "memory_record cfg B size_local size_remote threshold (Ev_Disown c) s =
     andthen (update_class cfg B threshold mr_detached put_detached ''detached'' c (b_size B c) (- int (SIZE_SLAB B)) s) (\<lambda>s1.
     update_class cfg B threshold mr_disowned put_disowned ''disowned'' c (b_size B c) (int (SIZE_SLAB B)) s1)"
| "memory_record cfg B size_local size_remote threshold (Ev_Attach c) s =
     andthen (update_class cfg B threshold mr_detached put_detached ''detached'' c (b_size B c) (- int (SIZE_SLAB B)) s) (\<lambda>s1.
     update_class cfg B threshold mr_local_sized put_local_sized ''local_sized'' c (b_size B c) (int (SIZE_SLAB B)) s1)"
| "memory_record cfg B size_local size_remote threshold (Ev_Claim c) s =
     andthen (update_class cfg B threshold mr_disowned put_disowned ''disowned'' c (b_size B c) (- int (SIZE_SLAB B)) s) (\<lambda>s1.
     update_field cfg threshold mr_local_unsized put_local_unsized ''local_unsized'' None (int (SIZE_SLAB B)) s1)"

definition memory_threshold :: int where "memory_threshold = 2 ^ 12"

text \<open>The recorder of one heap: an event and a memory recorder per thread, as the features select.\<close>

record 'c recorder =
  rec_event :: "nat \<Rightarrow> 'c event_recorder"
  rec_memory :: "nat \<Rightarrow> 'c memory_recorder"

definition recorder_record ::
  "bool \<Rightarrow> bool \<Rightarrow> config \<Rightarrow> 'c bracket \<Rightarrow> nat \<Rightarrow> nat \<Rightarrow> nat \<Rightarrow> 'c event \<Rightarrow> 'c recorder \<Rightarrow> ('c recorder \<times> flush list) res" where
  "recorder_record stat_event stat_memory cfg B size_local size_remote t e r =
     andthen (if stat_event then andthen (event_record cfg B e (rec_event r t)) (\<lambda>x. Inr (r\<lparr>rec_event := (rec_event r)(t := x)\<rparr>))
       else Inr r) (\<lambda>r1.
     if stat_memory
     then andthen (memory_record cfg B size_local size_remote memory_threshold e (rec_memory r1 t, [])) (\<lambda>(m, out).
       Inr (r1\<lparr>rec_memory := (rec_memory r1)(t := m)\<rparr>, out))
     else Inr (r1, []))"

definition recorder_report :: "bool \<Rightarrow> 'c bracket \<Rightarrow> nat \<Rightarrow> 'c recorder \<Rightarrow> report list res" where
  "recorder_report stat_event B t r = (if stat_event then event_report B (rec_event r t) else Inr [])"

subsection \<open>Sloppy counters\<close>

lemma checked_i64_in_range [arith_w]: "\<bar>x\<bar> < 2 ^ 63 \<Longrightarrow> checked_i64 cfg x = Inr x"
  by (auto simp: checked_i64_def in_i64_def abs_less_iff)

lemma sloppy_apply_ok:
  assumes "\<bar>prev\<bar> < threshold" "threshold \<le> 2 ^ 62" "\<bar>delta\<bar> \<le> 2 ^ 62"
  obtains x w where "sloppy_apply cfg threshold prev delta = Inr (x, w)" "\<bar>x\<bar> < threshold"
    "x + (case w of None \<Rightarrow> 0 | Some v \<Rightarrow> v) = prev + delta" "\<And>v. w = Some v \<Longrightarrow> threshold \<le> \<bar>v\<bar>"
proof -
  have "\<bar>prev + delta\<bar> < 2 ^ 63" using assms by (auto simp: abs_less_iff abs_le_iff)
  then have "sloppy_apply cfg threshold prev delta =
      (if \<bar>prev + delta\<bar> < threshold then Inr (prev + delta, None) else Inr (0, Some (prev + delta)))"
    by (simp add: sloppy_apply_def arith_w)
  then show ?thesis using that assms by (cases "\<bar>prev + delta\<bar> < threshold") auto
qed

fun sloppy_run :: "config \<Rightarrow> int \<Rightarrow> int list \<Rightarrow> int \<Rightarrow> (int \<times> int list) res" where
  "sloppy_run cfg threshold [] x = Inr (x, [])"
| "sloppy_run cfg threshold (d # ds) x =
     andthen (sloppy_apply cfg threshold x d) (\<lambda>(y, v). andthen (sloppy_run cfg threshold ds y) (\<lambda>(z, vs).
     Inr (z, (case v of None \<Rightarrow> [] | Some v \<Rightarrow> [v]) @ vs)))"

lemma sloppy_run_ok:
  assumes "\<bar>x\<bar> < threshold" "threshold \<le> 2 ^ 62" "\<forall>d\<in>set ds. \<bar>d\<bar> \<le> 2 ^ 62"
  shows "\<exists>y vs. sloppy_run cfg threshold ds x = Inr (y, vs) \<and> y + sum_list vs = x + sum_list ds \<and>
    \<bar>y\<bar> < threshold \<and> (\<forall>v\<in>set vs. threshold \<le> \<bar>v\<bar>)"
  using assms
proof (induction ds arbitrary: x)
  case (Cons d ds)
  obtain y v where y: "sloppy_apply cfg threshold x d = Inr (y, v)" "\<bar>y\<bar> < threshold"
    "y + (case v of None \<Rightarrow> 0 | Some v \<Rightarrow> v) = x + d" "\<And>w. v = Some w \<Longrightarrow> threshold \<le> \<bar>w\<bar>"
    using sloppy_apply_ok [of x threshold d cfg] Cons.prems by auto
  obtain z vs where z: "sloppy_run cfg threshold ds y = Inr (z, vs)" "z + sum_list vs = y + sum_list ds"
    "\<bar>z\<bar> < threshold" "\<forall>v\<in>set vs. threshold \<le> \<bar>v\<bar>" using Cons.IH [OF y(2) Cons.prems(2)] Cons.prems(3) by auto
  show ?case using y z by (cases v) auto
qed simp

text \<open>
  However a sequence of changes arrives at a sloppy counter, it never overflows, every flushed
  value has reached the threshold, what stays behind has not, and flushed values and residue
  together are exactly the sum of the changes.
\<close>

theorem sloppy_loses_nothing:
  assumes "0 < threshold" "threshold \<le> 2 ^ 62" "\<forall>d\<in>set ds. \<bar>d\<bar> \<le> 2 ^ 62"
  shows "\<exists>y vs. sloppy_run cfg threshold ds 0 = Inr (y, vs) \<and> y + sum_list vs = sum_list ds \<and>
    \<bar>y\<bar> < threshold \<and> (\<forall>v\<in>set vs. threshold \<le> \<bar>v\<bar>)"
  using sloppy_run_ok [of 0 threshold ds cfg] assms by simp

theorem sloppy_loses_nothing_witness:
  "\<exists>y vs. sloppy_run cfg_debug memory_threshold [3000, 3000, - 64] 0 = Inr (y, vs) \<and> y + sum_list vs = 5936 \<and>
    \<bar>y\<bar> < memory_threshold \<and> (\<forall>v\<in>set vs. memory_threshold \<le> \<bar>v\<bar>)"
  using sloppy_loses_nothing [of memory_threshold "[3000, 3000, - 64]" cfg_debug] by (simp add: memory_threshold_def)

subsection \<open>The ledger\<close>

definition flushed :: "string set \<Rightarrow> flush list \<Rightarrow> int" where
  "flushed places out = sum_list (map (\<lambda>(p, _, v). if p \<in> places then v else 0) out)"

lemma flushed_simps [simp]:
  "flushed P [] = 0" "flushed P ((p, z, v) # out) = (if p \<in> P then v else 0) + flushed P out"
  "flushed P (out @ out') = flushed P out + flushed P out'"
  by (simp_all add: flushed_def)

definition class_sum :: "'c bracket \<Rightarrow> ('c \<Rightarrow> int) \<Rightarrow> int" where
  "class_sum B f = (\<Sum>i<COUNT B. f (the (b_from_index B i)))"

definition slab_places :: "string set" where
  "slab_places = {''global_unsized'', ''local_unsized'', ''local_sized'', ''detached'', ''disowned''}"

text \<open>All the recorder has seen of a quantity: the flushed values and the residues.\<close>

definition slab_total :: "'c bracket \<Rightarrow> 'c memory_recorder \<times> flush list \<Rightarrow> int" where
  "slab_total B s = mr_global_unsized (fst s) + mr_local_unsized (fst s) +
     class_sum B (mr_local_sized (fst s)) + class_sum B (mr_detached (fst s)) + class_sum B (mr_disowned (fst s)) +
     flushed slab_places (snd s)"

definition data_total :: "'c memory_recorder \<times> flush list \<Rightarrow> int" where
  "data_total s = mr_data (fst s) + flushed {''data''} (snd s)"

definition application_total :: "'c bracket \<Rightarrow> 'c memory_recorder \<times> flush list \<Rightarrow> int" where
  "application_total B s = class_sum B (mr_application (fst s)) + flushed {''application''} (snd s)"

definition residues_small :: "int \<Rightarrow> 'c memory_recorder \<Rightarrow> bool" where
  "residues_small T r \<longleftrightarrow> \<bar>mr_data r\<bar> < T \<and> \<bar>mr_slab_local r\<bar> < T \<and> \<bar>mr_slab_remote r\<bar> < T \<and>
     \<bar>mr_global_unsized r\<bar> < T \<and> \<bar>mr_local_unsized r\<bar> < T \<and>
     (\<forall>c. \<bar>mr_application r c\<bar> < T \<and> \<bar>mr_local_sized r c\<bar> < T \<and> \<bar>mr_detached r c\<bar> < T \<and> \<bar>mr_disowned r c\<bar> < T)"

text \<open>The events a heap records: of classes of its bracket and sizes a class serves.\<close>

fun event_ok :: "'c bracket \<Rightarrow> 'c event \<Rightarrow> bool" where
  "event_ok B (Ev_Allocate n) \<longleftrightarrow> n \<le> 2 ^ 62 \<and> (\<exists>c. b_new B n = Inr (Some c) \<and> b_index B c < COUNT B)"
| "event_ok B (Ev_Free n) \<longleftrightarrow> n \<le> 2 ^ 62 \<and> (\<exists>c. b_new B n = Inr (Some c) \<and> b_index B c < COUNT B)"
| "event_ok B (Ev_UnsizedToSized c) \<longleftrightarrow> b_index B c < COUNT B"
| "event_ok B (Ev_SizedToUnsized c) \<longleftrightarrow> b_index B c < COUNT B"
| "event_ok B (Ev_Detach c) \<longleftrightarrow> b_index B c < COUNT B"
| "event_ok B (Ev_Disown c) \<longleftrightarrow> b_index B c < COUNT B"
| "event_ok B (Ev_Attach c) \<longleftrightarrow> b_index B c < COUNT B"
| "event_ok B (Ev_Claim c) \<longleftrightarrow> b_index B c < COUNT B"
| "event_ok B Ev_Bump \<longleftrightarrow> True"
| "event_ok B Ev_GlobalToUnsized \<longleftrightarrow> True"
| "event_ok B Ev_UnsizedToGlobal \<longleftrightarrow> True"

fun bytes_bumped :: "config \<Rightarrow> 'c bracket \<Rightarrow> 'c event \<Rightarrow> int" where
  "bytes_bumped cfg B Ev_Bump = int (SIZE_SLAB B * batch_bump_pop cfg)"
| "bytes_bumped cfg B _ = 0"

fun bytes_in_use :: "'c event \<Rightarrow> int" where
  "bytes_in_use (Ev_Allocate n) = int n"
| "bytes_in_use (Ev_Free n) = - int n"
| "bytes_in_use _ = 0"

lemma update_field_ok:
  assumes "\<bar>get (fst s)\<bar> < T" "T \<le> 2 ^ 62" "\<bar>delta\<bar> \<le> 2 ^ 62"
  shows "\<exists>x out. update_field cfg T get put place sz delta s = Inr (put x (fst s), snd s @ out) \<and> \<bar>x\<bar> < T \<and>
    (\<forall>P. flushed P out = (if place \<in> P then get (fst s) + delta - x else 0))"
proof -
  obtain x v where x: "sloppy_apply cfg T (get (fst s)) delta = Inr (x, v)" "\<bar>x\<bar> < T"
    "x + (case v of None \<Rightarrow> 0 | Some v \<Rightarrow> v) = get (fst s) + delta" by (rule sloppy_apply_ok [OF assms, of cfg])
  then show ?thesis
    by (intro exI [of _ x] exI [of _ "case v of None \<Rightarrow> [] | Some v \<Rightarrow> [(place, sz, v)]"])
      (auto simp: update_field_def split: option.splits)
qed

lemma update_class_ok:
  assumes "\<bar>get (fst s) c\<bar> < T" "T \<le> 2 ^ 62" "\<bar>delta\<bar> \<le> 2 ^ 62" "b_index B c < COUNT B"
  shows "\<exists>x out. update_class cfg B T get put place c sz delta s = Inr (put ((get (fst s))(c := x)) (fst s), snd s @ out) \<and>
    \<bar>x\<bar> < T \<and> (\<forall>P. flushed P out = (if place \<in> P then get (fst s) c + delta - x else 0))"
  using update_field_ok [of "\<lambda>r. get r c" s T delta cfg "\<lambda>v r. put ((get r)(c := v)) r" place "Some sz"] assms
  by (simp add: update_class_def)

context bracket_laws
begin

lemma class_sum_upd:
  assumes "b_index B c < COUNT B"
  shows "class_sum B (f(c := x)) = class_sum B f + x - f c"
proof -
  have "the (b_from_index B i) = c \<longleftrightarrow> i = b_index B c" if "i < COUNT B" for i
  proof -
    obtain d where "b_from_index B i = Some d" "b_index B d = i" using index_onto [OF \<open>i < COUNT B\<close>] by blast
    then show ?thesis using index_inj [of d c] by auto
  qed
  then have "class_sum B (f(c := x)) = (\<Sum>i<COUNT B. f (the (b_from_index B i)) + (if i = b_index B c then x - f c else 0))"
    unfolding class_sum_def by (intro sum.cong) (auto simp: from_index)
  then show ?thesis using assms from_index [of c] by (simp add: sum.distrib class_sum_def)
qed

text \<open>What one update may do: keep the residues small and change the three totals by given amounts.\<close>

end

definition moves :: "'c bracket \<Rightarrow> int \<Rightarrow> int \<times> int \<times> int \<Rightarrow> 'c memory_recorder \<times> flush list \<Rightarrow> ('c memory_recorder \<times> flush list) res \<Rightarrow> bool" where
  "moves B T d s m \<longleftrightarrow> (\<exists>s'. m = Inr s' \<and> residues_small T (fst s') \<and>
     slab_total B s' = slab_total B s + fst d \<and> data_total s' = data_total s + fst (snd d) \<and>
     application_total B s' = application_total B s + snd (snd d))"

lemma moves_andthen:
  assumes "moves B T d s m" and "\<And>s'. residues_small T (fst s') \<Longrightarrow> moves B T d' s' (f s')"
    and "d'' = (fst d + fst d', fst (snd d) + fst (snd d'), snd (snd d) + snd (snd d'))"
  shows "moves B T d'' s (andthen m f)"
proof -
  obtain s' where s': "m = Inr s'" "residues_small T (fst s')" "slab_total B s' = slab_total B s + fst d"
    "data_total s' = data_total s + fst (snd d)" "application_total B s' = application_total B s + snd (snd d)"
    using assms(1) by (auto simp: moves_def)
  show ?thesis using assms(2) [OF s'(2)] s' assms(3) by (auto simp: moves_def)
qed

lemma moves_fields:
  assumes small: "residues_small T (fst s)" and T: "T \<le> 2 ^ 62" "\<bar>delta\<bar> \<le> 2 ^ 62"
  shows "moves B T (delta, 0, 0) s (update_field cfg T mr_local_unsized put_local_unsized ''local_unsized'' None delta s)" (is ?local_unsized)
    and "moves B T (delta, 0, 0) s (update_field cfg T mr_global_unsized put_global_unsized ''global_unsized'' None delta s)" (is ?global_unsized)
    and "moves B T (0, delta, 0) s (update_field cfg T mr_data put_data ''data'' None delta s)" (is ?data)
    and "moves B T (0, 0, 0) s (update_field cfg T mr_slab_local put_slab_local ''slab_local'' None delta s)" (is ?slab_local)
    and "moves B T (0, 0, 0) s (update_field cfg T mr_slab_remote put_slab_remote ''slab_remote'' None delta s)" (is ?slab_remote)
proof -
  obtain x out where "update_field cfg T mr_local_unsized put_local_unsized ''local_unsized'' None delta s = Inr ((fst s)\<lparr>mr_local_unsized := x\<rparr>, snd s @ out)"
    "\<bar>x\<bar> < T" "\<forall>P. flushed P out = (if ''local_unsized'' \<in> P then mr_local_unsized (fst s) + delta - x else 0)"
    using update_field_ok [of mr_local_unsized s T delta cfg put_local_unsized "''local_unsized''" None] small T unfolding residues_small_def by blast
  then show ?local_unsized using small by (simp add: moves_def residues_small_def slab_total_def data_total_def application_total_def slab_places_def)
  obtain x out where "update_field cfg T mr_global_unsized put_global_unsized ''global_unsized'' None delta s = Inr ((fst s)\<lparr>mr_global_unsized := x\<rparr>, snd s @ out)"
    "\<bar>x\<bar> < T" "\<forall>P. flushed P out = (if ''global_unsized'' \<in> P then mr_global_unsized (fst s) + delta - x else 0)"
    using update_field_ok [of mr_global_unsized s T delta cfg put_global_unsized "''global_unsized''" None] small T unfolding residues_small_def by blast
  then show ?global_unsized using small by (simp add: moves_def residues_small_def slab_total_def data_total_def application_total_def slab_places_def)
  obtain x out where "update_field cfg T mr_data put_data ''data'' None delta s = Inr ((fst s)\<lparr>mr_data := x\<rparr>, snd s @ out)"
    "\<bar>x\<bar> < T" "\<forall>P. flushed P out = (if ''data'' \<in> P then mr_data (fst s) + delta - x else 0)"
    using update_field_ok [of mr_data s T delta cfg put_data "''data''" None] small T unfolding residues_small_def by blast
  then show ?data using small by (simp add: moves_def residues_small_def slab_total_def data_total_def application_total_def slab_places_def)
  obtain x out where "update_field cfg T mr_slab_local put_slab_local ''slab_local'' None delta s = Inr ((fst s)\<lparr>mr_slab_local := x\<rparr>, snd s @ out)"
    "\<bar>x\<bar> < T" "\<forall>P. flushed P out = (if ''slab_local'' \<in> P then mr_slab_local (fst s) + delta - x else 0)"
    using update_field_ok [of mr_slab_local s T delta cfg put_slab_local "''slab_local''" None] small T unfolding residues_small_def by blast
  then show ?slab_local using small by (simp add: moves_def residues_small_def slab_total_def data_total_def application_total_def slab_places_def)
  obtain x out where "update_field cfg T mr_slab_remote put_slab_remote ''slab_remote'' None delta s = Inr ((fst s)\<lparr>mr_slab_remote := x\<rparr>, snd s @ out)"
    "\<bar>x\<bar> < T" "\<forall>P. flushed P out = (if ''slab_remote'' \<in> P then mr_slab_remote (fst s) + delta - x else 0)"
    using update_field_ok [of mr_slab_remote s T delta cfg put_slab_remote "''slab_remote''" None] small T unfolding residues_small_def by blast
  then show ?slab_remote using small by (simp add: moves_def residues_small_def slab_total_def data_total_def application_total_def slab_places_def)
qed

context bracket_laws
begin

lemma moves_classes:
  assumes small: "residues_small T (fst s)" and T: "T \<le> 2 ^ 62" "\<bar>delta\<bar> \<le> 2 ^ 62" and c: "b_index B c < COUNT B"
  shows "moves B T (delta, 0, 0) s (update_class cfg B T mr_local_sized put_local_sized ''local_sized'' c n delta s)" (is ?local_sized)
    and "moves B T (delta, 0, 0) s (update_class cfg B T mr_detached put_detached ''detached'' c n delta s)" (is ?detached)
    and "moves B T (delta, 0, 0) s (update_class cfg B T mr_disowned put_disowned ''disowned'' c n delta s)" (is ?disowned)
    and "moves B T (0, 0, delta) s (update_class cfg B T mr_application put_application ''application'' c n delta s)" (is ?application)
proof -
  obtain x out where "update_class cfg B T mr_local_sized put_local_sized ''local_sized'' c n delta s =
      Inr ((fst s)\<lparr>mr_local_sized := (mr_local_sized (fst s))(c := x)\<rparr>, snd s @ out)"
    "\<bar>x\<bar> < T" "\<forall>P. flushed P out = (if ''local_sized'' \<in> P then mr_local_sized (fst s) c + delta - x else 0)"
    using update_class_ok [of mr_local_sized s c T delta B cfg put_local_sized "''local_sized''" n] small T c unfolding residues_small_def by blast
  then show ?local_sized using small by (simp add: moves_def residues_small_def slab_total_def data_total_def application_total_def slab_places_def
        class_sum_upd [OF c])
  obtain x out where "update_class cfg B T mr_detached put_detached ''detached'' c n delta s =
      Inr ((fst s)\<lparr>mr_detached := (mr_detached (fst s))(c := x)\<rparr>, snd s @ out)"
    "\<bar>x\<bar> < T" "\<forall>P. flushed P out = (if ''detached'' \<in> P then mr_detached (fst s) c + delta - x else 0)"
    using update_class_ok [of mr_detached s c T delta B cfg put_detached "''detached''" n] small T c unfolding residues_small_def by blast
  then show ?detached using small by (simp add: moves_def residues_small_def slab_total_def data_total_def application_total_def slab_places_def
        class_sum_upd [OF c])
  obtain x out where "update_class cfg B T mr_disowned put_disowned ''disowned'' c n delta s =
      Inr ((fst s)\<lparr>mr_disowned := (mr_disowned (fst s))(c := x)\<rparr>, snd s @ out)"
    "\<bar>x\<bar> < T" "\<forall>P. flushed P out = (if ''disowned'' \<in> P then mr_disowned (fst s) c + delta - x else 0)"
    using update_class_ok [of mr_disowned s c T delta B cfg put_disowned "''disowned''" n] small T c unfolding residues_small_def by blast
  then show ?disowned using small by (simp add: moves_def residues_small_def slab_total_def data_total_def application_total_def slab_places_def
        class_sum_upd [OF c])
  obtain x out where "update_class cfg B T mr_application put_application ''application'' c n delta s =
      Inr ((fst s)\<lparr>mr_application := (mr_application (fst s))(c := x)\<rparr>, snd s @ out)"
    "\<bar>x\<bar> < T" "\<forall>P. flushed P out = (if ''application'' \<in> P then mr_application (fst s) c + delta - x else 0)"
    using update_class_ok [of mr_application s c T delta B cfg put_application "''application''" n] small T c unfolding residues_small_def by blast
  then show ?application using small by (simp add: moves_def residues_small_def slab_total_def data_total_def application_total_def slab_places_def
        class_sum_upd [OF c])
qed

text \<open>The bounds under which no change of the ledger leaves 64 bits.\<close>

end

definition ledger_bounds :: "config \<Rightarrow> 'c bracket \<Rightarrow> nat \<Rightarrow> nat \<Rightarrow> bool" where
  "ledger_bounds cfg B size_local size_remote \<longleftrightarrow>
     SIZE_SLAB B * batch_bump_pop cfg \<le> 2 ^ 62 \<and> SIZE_SLAB B * batch_global_push cfg \<le> 2 ^ 62 \<and>
     size_local * batch_bump_pop cfg \<le> 2 ^ 62 \<and> size_remote * batch_bump_pop cfg \<le> 2 ^ 62"

lemma wrap_i64_nat: "n \<le> 2 ^ 62 \<Longrightarrow> wrap_i64 (int n) = int n"
  by (simp add: wrap_i64_def)

lemma le_factor: "a * b \<le> c \<Longrightarrow> 0 < a \<Longrightarrow> b \<le> c" for a b c :: nat
  by (metis One_nat_def Suc_leI le_trans mult.commute mult.right_neutral mult_le_mono2)

context bracket_laws
begin

lemma memory_record_moves:
  assumes small: "residues_small T (fst s)" and T: "T \<le> 2 ^ 62" and e: "event_ok B e"
    and bounds: "ledger_bounds cfg B size_local size_remote"
  shows "moves B T (bytes_bumped cfg B e, bytes_bumped cfg B e, bytes_in_use e) s
    (memory_record cfg B size_local size_remote T e s)"
proof -
  let ?S = "int (SIZE_SLAB B)"
  have S: "\<bar>?S\<bar> \<le> 2 ^ 62" "\<bar>- ?S\<bar> \<le> 2 ^ 62" using slab_max by simp_all
  note upd = moves_fields [OF _ T] moves_classes [OF _ T]
  show ?thesis
  proof (cases e)
    case Ev_Bump
    let ?b = "batch_bump_pop cfg"
    have b: "wrap_i64 (int ?b) = int ?b" "?S * int ?b \<le> 2 ^ 62" "int size_local * int ?b \<le> 2 ^ 62" "int size_remote * int ?b \<le> 2 ^ 62"
      using bounds le_factor [OF _ slab_pos, of ?b "2 ^ 62"] wrap_i64_nat
      unfolding ledger_bounds_def by (simp_all flip: of_nat_mult)
    then have "checked_i64 cfg (?S * int ?b) = Inr (?S * int ?b)"
      "checked_i64 cfg (int size_local * int ?b) = Inr (int size_local * int ?b)"
      "checked_i64 cfg (int size_remote * int ?b) = Inr (int size_remote * int ?b)"
      by (simp_all add: checked_i64_in_range)
    with b show ?thesis using small
      by (auto simp: Ev_Bump Let_def intro!: moves_andthen upd)
  next
    case Ev_UnsizedToGlobal
    let ?b = "batch_global_push cfg"
    have b: "wrap_i64 (int ?b) = int ?b" "?S * int ?b \<le> 2 ^ 62"
      using bounds le_factor [OF _ slab_pos, of ?b "2 ^ 62"] wrap_i64_nat
      unfolding ledger_bounds_def by (simp_all flip: of_nat_mult)
    then have "checked_i64 cfg (?S * int ?b) = Inr (?S * int ?b)" "checked_i64 cfg (- (?S * int ?b)) = Inr (- (?S * int ?b))"
      by (simp_all add: checked_i64_in_range)
    with b show ?thesis using small
      by (auto simp: Ev_UnsizedToGlobal Let_def intro!: moves_andthen upd)
  next
    case (Ev_Allocate n)
    then show ?thesis using small e upd(9) [of s "int n"] by (auto simp: class_of_size_def wrap_i64_nat)
  next
    case (Ev_Free n)
    then show ?thesis using small e upd(9) [of s "- int n"]
      by (auto simp: class_of_size_def wrap_i64_nat checked_i64_in_range)
  qed (use small e S in \<open>auto intro!: moves_andthen upd\<close>)
qed

end

fun memory_records ::
  "config \<Rightarrow> 'c bracket \<Rightarrow> nat \<Rightarrow> nat \<Rightarrow> int \<Rightarrow> 'c event list \<Rightarrow> 'c memory_recorder \<times> flush list \<Rightarrow> ('c memory_recorder \<times> flush list) res" where
  "memory_records cfg B sl sr T [] s = Inr s"
| "memory_records cfg B sl sr T (e # es) s = andthen (memory_record cfg B sl sr T e s) (memory_records cfg B sl sr T es)"

context bracket_laws
begin

lemma memory_records_moves:
  assumes "residues_small T (fst s)" "T \<le> 2 ^ 62" "\<forall>e\<in>set es. event_ok B e" "ledger_bounds cfg B sl sr"
  shows "moves B T (\<Sum>e\<leftarrow>es. bytes_bumped cfg B e, \<Sum>e\<leftarrow>es. bytes_bumped cfg B e, \<Sum>e\<leftarrow>es. bytes_in_use e) s
    (memory_records cfg B sl sr T es s)"
  using assms
proof (induction es arbitrary: s)
  case Nil
  then show ?case by (simp add: moves_def)
next
  case (Cons e es)
  show ?case
    using Cons.prems by (auto intro!: moves_andthen [OF memory_record_moves Cons.IH])
qed

end

text \<open>
  C25: the memory recorder of a thread that records any sequence of events of the small heap does
  not fail, and its ledger balances: the places a slab can be in (global and local unsized, local
  sized, detached, disowned) add up to the bytes taken from the bump cell, and the application
  entry to the bytes allocated less the bytes freed, flushed values and residues together.
\<close>

theorem ledger_balances:
  assumes "\<forall>e\<in>set es. event_ok small_bracket e" and "ledger_bounds cfg small_bracket sl sr"
  shows "\<exists>s. memory_records cfg small_bracket sl sr memory_threshold es (memory_default, []) = Inr s \<and>
    slab_total small_bracket s = data_total s \<and> data_total s = (\<Sum>e\<leftarrow>es. bytes_bumped cfg small_bracket e) \<and>
    application_total small_bracket s = (\<Sum>e\<leftarrow>es. bytes_in_use e)"
proof -
  have "residues_small memory_threshold (memory_default :: small memory_recorder)"
    by (simp add: residues_small_def memory_default_def memory_threshold_def)
  moreover have "slab_total small_bracket (memory_default, []) = 0" "data_total (memory_default :: small memory_recorder, []) = 0"
    "application_total small_bracket (memory_default, []) = 0"
    by (simp_all add: slab_total_def data_total_def application_total_def memory_default_def class_sum_def)
  ultimately show ?thesis
    using small.memory_records_moves [of memory_threshold "(memory_default, [])" es cfg sl sr] assms
    by (auto simp: moves_def memory_threshold_def)
qed

theorem ledger_balances_witness:
  "\<exists>s. memory_records cfg_debug small_bracket 584 8 memory_threshold
      [Ev_Bump, Ev_UnsizedToSized (Small 1), Ev_Allocate 8, Ev_Free 8, Ev_SizedToUnsized (Small 1)] (memory_default, []) = Inr s \<and>
    slab_total small_bracket s = data_total s \<and> data_total s = int (SIZE_SLAB small_bracket) \<and> application_total small_bracket s = 0"
proof -
  let ?es = "[Ev_Bump, Ev_UnsizedToSized (Small 1), Ev_Allocate 8, Ev_Free 8, Ev_SizedToUnsized (Small 1)]"
  have "\<forall>e\<in>set ?es. event_ok small_bracket e"
    by (simp add: small_bracket_def size_values small_new_def u7_new_def next_multiple_of_def)
  moreover have "ledger_bounds cfg_debug small_bracket 584 8"
    by (simp add: ledger_bounds_def cfg_debug_def small_bracket_def size_values)
  moreover have "batch_bump_pop cfg_debug = 1" by (simp add: cfg_debug_def)
  ultimately show ?thesis using ledger_balances [of ?es cfg_debug 584 8] by (simp del: memory_records.simps)
qed

subsection \<open>Event counters\<close>

text \<open>The counter an event is added to, and when two events share it.\<close>

fun counter_of :: "'c bracket \<Rightarrow> 'c event \<Rightarrow> 'c event_recorder \<Rightarrow> 64 word option" where
  "counter_of B Ev_Bump r = Some (er_bump r)"
| "counter_of B Ev_GlobalToUnsized r = Some (er_global_to_unsized r)"
| "counter_of B (Ev_Allocate n) r = (case class_of_size B n of Inr c \<Rightarrow> Some (er_allocate r c) | _ \<Rightarrow> None)"
| "counter_of B (Ev_UnsizedToSized c) r = Some (er_unsized_to_sized r c)"
| "counter_of B (Ev_Free n) r = (case class_of_size B n of Inr c \<Rightarrow> Some (er_free r c) | _ \<Rightarrow> None)"
| "counter_of B (Ev_SizedToUnsized c) r = Some (er_sized_to_unsized r c)"
| "counter_of B Ev_UnsizedToGlobal r = Some (er_unsized_to_global r)"
| "counter_of B (Ev_Detach c) r = Some (er_detach r c)"
| "counter_of B (Ev_Disown c) r = Some (er_disown r c)"
| "counter_of B (Ev_Attach c) r = Some (er_attach r c)"
| "counter_of B (Ev_Claim c) r = Some (er_claim r c)"

fun same_counter :: "'c bracket \<Rightarrow> 'c event \<Rightarrow> 'c event \<Rightarrow> bool" where
  "same_counter B (Ev_Allocate n) (Ev_Allocate m) \<longleftrightarrow> class_of_size B n = class_of_size B m"
| "same_counter B (Ev_Free n) (Ev_Free m) \<longleftrightarrow> class_of_size B n = class_of_size B m"
| "same_counter B e e' \<longleftrightarrow> e = e'"

fun event_records :: "config \<Rightarrow> 'c bracket \<Rightarrow> 'c event list \<Rightarrow> 'c event_recorder \<Rightarrow> 'c event_recorder res" where
  "event_records cfg B [] r = Inr r"
| "event_records cfg B (e # es) r = andthen (event_record cfg B e r) (event_records cfg B es)"

lemma counter_step:
  assumes "event_record cfg B e' r = Inr r'" and "counter_of B e r = Some n"
  shows "counter_of B e r' = Some (if same_counter B e e' then n + 1 else n)"
proof -
  have inc: "counter_increment cfg x = Inr y \<Longrightarrow> y = x + 1" for x y
    by (auto simp: counter_increment_def inc_word_def split: if_splits)
  show ?thesis
    using assms
    by (cases e; cases e')
      (auto simp: andthen_Inr_conv bump_class_def fun_upd_apply dest!: inc split: sum.splits if_splits)
qed

lemma counters_run:
  assumes "event_records cfg B es r = Inr r'" and "counter_of B e r = Some n"
  shows "counter_of B e r' = Some (n + of_nat (length (filter (same_counter B e) es)))"
  using assms
proof (induction es arbitrary: r n)
  case (Cons e' es)
  then show ?case by (auto simp: andthen_Inr_conv dest!: counter_step [OF _ Cons.prems(2)] Cons.IH)
qed simp

lemma counter_increment_ok: "unat x + 1 < 2 ^ 64 \<Longrightarrow> counter_increment cfg x = Inr (x + 1)"
  by (auto simp: counter_increment_def inc_word_def unsigned_minus_1_eq_mask mask_eq_exp_minus_1)

lemma event_record_ok:
  assumes "event_ok B e" and "\<And>n. counter_of B e r = Some n \<Longrightarrow> unat n + 1 < 2 ^ 64"
  shows "\<exists>r'. event_record cfg B e r = Inr r'"
  using assms by (cases e) (auto simp: bump_class_def class_of_size_def counter_increment_ok)

lemma same_counter_of: "same_counter B e e' \<Longrightarrow> counter_of B e r = counter_of B e' r"
  by (cases e; cases e') auto

lemma counter_room:
  assumes "event_record cfg B e' r = Inr r'" and "counter_of B e r' = Some n"
    and "\<And>e n. counter_of B e r = Some n \<Longrightarrow> unat n + Suc k < 2 ^ 64"
  shows "unat n + k < 2 ^ 64"
proof -
  obtain m where m: "counter_of B e r = Some m" using assms(2) by (cases e) (auto split: sum.splits)
  have "unat (m + 1) \<le> unat m + 1" by (simp add: unat_word_ariths)
  then show ?thesis using counter_step [OF assms(1) m] assms(2) assms(3) [OF m] by (auto split: if_splits)
qed

lemma event_records_ok:
  assumes "\<forall>e\<in>set es. event_ok B e" and "\<And>e n. counter_of B e r = Some n \<Longrightarrow> unat n + length es < 2 ^ 64"
  shows "\<exists>r'. event_records cfg B es r = Inr r'"
  using assms
proof (induction es arbitrary: r)
  case (Cons e es)
  obtain r1 where r1: "event_record cfg B e r = Inr r1"
    using event_record_ok [of B e r cfg] Cons.prems by fastforce
  have "unat n + length es < 2 ^ 64" if "counter_of B e' r1 = Some n" for e' n
    using counter_room [OF r1 that, of "length es"] Cons.prems(2) by simp
  then show ?case using Cons.IH [of r1] Cons.prems(1) r1 by simp
qed simp

text \<open>
  A thread's event recorder counts exactly: after fewer than 2 to the 64 events of the
  bracket's classes, recording has not failed and each counter holds the number of events that
  belong to it.
\<close>

theorem events_counted:
  assumes "\<forall>e\<in>set es. event_ok B e" and "length es < 2 ^ 64" and "event_ok B e"
  shows "\<exists>r n. event_records cfg B es event_default = Inr r \<and> counter_of B e r = Some n \<and>
    counter_load n = length (filter (same_counter B e) es)"
proof -
  have zero: "counter_of B e event_default = Some n \<Longrightarrow> n = 0" for e n
    by (cases e) (auto simp: event_default_def split: sum.splits)
  then obtain r where r: "event_records cfg B es event_default = Inr r"
    using event_records_ok [of es B event_default cfg] assms(1,2) by fastforce
  have "counter_of B e event_default = Some 0"
    using assms(3) by (cases e) (auto simp: event_default_def class_of_size_def)
  moreover have "length (filter (same_counter B e) es) < 2 ^ 64" using assms(2) length_filter_le le_less_trans by blast
  ultimately show ?thesis using counters_run [OF r] r by (auto simp: counter_load_def unat_of_nat)
qed

theorem events_counted_witness:
  "\<exists>r n. event_records cfg_debug small_bracket [Ev_Allocate 3, Ev_Bump, Ev_Allocate 8] event_default = Inr r \<and>
    counter_of small_bracket (Ev_Allocate 5) r = Some n \<and> counter_load n = 2"
proof -
  have "\<forall>e\<in>set [Ev_Allocate 3, Ev_Bump, Ev_Allocate 8]. event_ok small_bracket e" "event_ok small_bracket (Ev_Allocate 5)"
    by (simp_all add: small_bracket_def size_values small_new_def u7_new_def next_multiple_of_def)
  moreover have "length (filter (same_counter small_bracket (Ev_Allocate 5)) [Ev_Allocate 3, Ev_Bump, Ev_Allocate 8]) = 2"
    by (simp add: class_of_size_def small_bracket_def size_values small_new_def u7_new_def next_multiple_of_def)
  ultimately show ?thesis
    using events_counted [of "[Ev_Allocate 3, Ev_Bump, Ev_Allocate 8]" small_bracket "Ev_Allocate 5" cfg_debug] by simp
qed

end
