(* ===== verification/Relative.thy ===== *)
theory Relative
  imports Stat
begin

text \<open>
  Relative pointers (\<open>cxlalloc/src/box.rs\<close>): a box stores the distance from its own address to what it points to, so that
  a structure of boxes stays valid wherever a process maps it.
\<close>

definition as_isize :: "nat \<Rightarrow> int" where
  "as_isize a = wrap_i64 (int a)"

text \<open>The contents of the box at an address after linking it; a box cannot point to itself.\<close>

definition box_link :: "config \<Rightarrow> nat \<Rightarrow> nat option \<Rightarrow> int option res" where
  "box_link cfg pointer pointee = (case pointee of
     None \<Rightarrow> Inr None
   | Some p \<Rightarrow>
       andthen (checked_i64 cfg (as_isize p - as_isize pointer)) (\<lambda>delta.
       if delta = 0 then Inl Unwrap_None else Inr (Some delta)))"

definition wrapping_add_signed :: "nat \<Rightarrow> int \<Rightarrow> nat" where
  "wrapping_add_signed a d = nat ((int a + d) mod 2 ^ 64)"

definition box_deref :: "nat \<Rightarrow> int \<Rightarrow> nat res" where
  "box_deref address delta = unwrap (nonzero (wrapping_add_signed address delta))"

lemma as_isize_small: "a < 2 ^ 63 \<Longrightarrow> as_isize a = int a"
  by (simp add: as_isize_def wrap_i64_def)

subsection \<open>Properties\<close>

text \<open>
  A relative pointer leads to its target, also after both have moved by the same distance, for all addresses of
  user space; linking fails only for a box that should point to itself.
\<close>

theorem box_relocatable:
  assumes "a < 2 ^ 63" "p < 2 ^ 63" "a + d < 2 ^ 63" "p + d < 2 ^ 63" "0 < p"
  shows "if p = a then box_link cfg a (Some p) = Inl Unwrap_None
    else \<exists>delta. box_link cfg a (Some p) = Inr (Some delta) \<and> box_deref a delta = Inr p \<and> box_deref (a + d) delta = Inr (p + d)"
proof -
  have "in_i64 (int p - int a)" using assms(1,2) by (simp add: in_i64_def)
  then have link: "box_link cfg a (Some p) = (if p = a then Inl Unwrap_None else Inr (Some (int p - int a)))"
    by (simp add: box_link_def as_isize_small [OF assms(1)] as_isize_small [OF assms(2)] checked_i64_def)
  have "box_deref (a + e) (int p - int a) = Inr (p + e)" if "p + e < 2 ^ 63" for e
  proof -
    have "int (a + e) + (int p - int a) = int (p + e)" by simp
    then have "wrapping_add_signed (a + e) (int p - int a) = p + e"
      using that unfolding wrapping_add_signed_def by (simp add: mod_pos_pos_trivial del: of_nat_add)
    then show ?thesis using assms(5) by (simp add: box_deref_def)
  qed
  from this [of 0] this [of d] show ?thesis using assms(2,4) unfolding link by simp
qed

theorem box_relocatable_witness:
  "\<exists>delta. box_link cfg_debug 4096 (Some 128) = Inr (Some delta) \<and> box_deref 4096 delta = Inr 128 \<and> box_deref 8192 delta = Inr 4224"
  using box_relocatable [of 4096 128 4096 cfg_debug] by simp

end
