(* ===== verification/Cache.thy ===== *)
theory Cache
  imports Bracket
begin

text \<open>
  Cache flushes (\<open>cxlalloc/src/cache.rs\<close>): which instructions are issued under which features, and which bytes
  they write back. The lines of a flush cover an object exactly when its last byte lies in the last of as many
  lines as its size fills, which the layout of slab descriptors ensures.
\<close>

subsection \<open>Instructions\<close>

record features =
  recover_flush :: bool
  cxl_limited :: bool
  cxl_mcas :: bool
  arch_gpf :: bool
  arch_clwb :: bool
  arch_clflushopt :: bool

datatype invalidate = Invalidate_No | Invalidate_Yes

datatype instr = Clwb nat | Clflushopt nat | Clflush nat | Sfence

definition clflush :: "features \<Rightarrow> nat \<Rightarrow> invalidate \<Rightarrow> instr" where
  "clflush F a iv = (if iv = Invalidate_No \<and> arch_clwb F then Clwb a else if arch_clflushopt F then Clflushopt a else Clflush a)"

definition clflush_all :: "features \<Rightarrow> nat \<Rightarrow> nat \<Rightarrow> invalidate \<Rightarrow> instr list" where
  "clflush_all F a n iv = map (\<lambda>line. clflush F ((a + line * SIZE_CACHE_LINE) mod 2 ^ 64) iv) [0..<next_multiple_of n SIZE_CACHE_LINE div SIZE_CACHE_LINE]"

definition flush_cxl :: "features \<Rightarrow> nat \<Rightarrow> nat \<Rightarrow> instr list" where
  "flush_cxl F a n = (if recover_flush F \<or> \<not> (cxl_limited F \<or> cxl_mcas F) then [] else clflush_all F a n Invalidate_Yes)"

definition fence_cxl :: "features \<Rightarrow> instr list" where
  "fence_cxl F = (if recover_flush F \<or> \<not> (cxl_limited F \<or> cxl_mcas F) \<or> \<not> (arch_clwb F \<or> arch_clflushopt F) then [] else [Sfence])"

definition cache_flush :: "features \<Rightarrow> nat \<Rightarrow> nat \<Rightarrow> invalidate \<Rightarrow> instr list" where
  "cache_flush F a n iv = (if \<not> recover_flush F \<or> arch_gpf F then [] else clflush_all F a n iv)"

definition cache_fence :: "features \<Rightarrow> instr list" where
  "cache_fence F = (if \<not> recover_flush F then [] else if arch_gpf F \<or> arch_clwb F \<or> arch_clflushopt F then [Sfence] else [])"

subsection \<open>The bytes that are written back\<close>

definition cache_line :: "nat \<Rightarrow> nat set" where
  "cache_line a = {a div 64 * 64 ..< a div 64 * 64 + 64}"

fun written_back :: "instr \<Rightarrow> nat set" where
  "written_back (Clwb a) = cache_line a"
| "written_back (Clflushopt a) = cache_line a"
| "written_back (Clflush a) = cache_line a"
| "written_back Sfence = {}"

text \<open>Only \<open>clflush\<close> is ordered with later stores by itself.\<close>

fun self_ordered :: "instr \<Rightarrow> bool" where
  "self_ordered (Clflush _) \<longleftrightarrow> True"
| "self_ordered _ \<longleftrightarrow> False"

lemma clflush_line [simp]: "written_back (clflush F a iv) = cache_line a"
  by (simp add: clflush_def)

lemma lines_union: "(\<Union>j<m. {(q + j) * 64 ..< (q + j) * 64 + 64}) = {q * 64 ..< (q + m) * (64::nat)}"
proof (induction m)
  case (Suc m)
  then show ?case by (auto simp: lessThan_Suc)
qed simp

lemma clflush_all_bytes:
  assumes "a + next_multiple_of n 64 \<le> 2 ^ 64"
  shows "(\<Union>i\<in>set (clflush_all F a n iv). written_back i) = {a div 64 * 64 ..< a div 64 * 64 + next_multiple_of n 64}"
proof -
  let ?m = "next_multiple_of n 64 div 64"
  have m: "?m * 64 = next_multiple_of n 64" by (simp add: next_multiple_of_def)
  have "cache_line ((a + j * 64) mod 2 ^ 64) = {(a div 64 + j) * 64 ..< (a div 64 + j) * 64 + 64}" if "j < ?m" for j
  proof -
    have "(j + 1) * 64 \<le> ?m * 64" using that by simp
    then have "a + j * 64 < 2 ^ 64" using assms m by simp
    moreover have "(a + j * 64) div 64 = a div 64 + j" by simp
    ultimately show ?thesis by (simp add: cache_line_def algebra_simps)
  qed
  then have "(\<Union>i\<in>set (clflush_all F a n iv). written_back i) = (\<Union>j<?m. {(a div 64 + j) * 64 ..< (a div 64 + j) * 64 + 64})"
    by (simp add: clflush_all_def SIZE_CACHE_LINE_def atLeast0LessThan)
  also have "\<dots> = {a div 64 * 64 ..< a div 64 * 64 + ?m * 64}" unfolding lines_union by (simp add: algebra_simps)
  finally show ?thesis unfolding m .
qed

lemma clflush_all_covers:
  assumes "a + next_multiple_of n 64 \<le> 2 ^ 64" "0 < n"
  shows "{a ..< a + n} \<subseteq> (\<Union>i\<in>set (clflush_all F a n iv). written_back i) \<longleftrightarrow> a mod 64 + n \<le> next_multiple_of n 64"
proof -
  have a: "a = a div 64 * 64 + a mod 64" by simp
  show ?thesis unfolding clflush_all_bytes [OF assms(1)] ivl_subset using a assms(2) by linarith
qed

text \<open>The size of a slab's local descriptor (\<open>slab/local.rs\<close>).\<close>

definition local_size :: "'c bracket \<Rightarrow> nat" where
  "local_size B = local_metadata + bitset_metadata + 8 * ROWS B"

lemma local_sizes: "local_size small_bracket = 512" "local_size large_bracket = 128"
  by (simp_all add: local_size_def small_bracket_def large_bracket_def size_values local_metadata_def bitset_metadata_def)

subsection \<open>Properties\<close>

text \<open>
  C28: flushing an object writes back all its bytes exactly when it ends within the lines counted from its start. The
  descriptors of the small and the large heap, in a region that starts at a line, meet this exactly: flushing one
  writes back all of it and no byte of another slab's descriptor.
\<close>

theorem flush_covers_object:
  assumes "a + next_multiple_of n 64 \<le> 2 ^ 64" "0 < n" and "64 dvd region" "region + (i + 1) * local_size B \<le> 2 ^ 64" "64 dvd local_size B"
  shows "({a ..< a + n} \<subseteq> (\<Union>x\<in>set (clflush_all F a n iv). written_back x) \<longleftrightarrow> a mod 64 + n \<le> next_multiple_of n 64) \<and>
    (\<Union>x\<in>set (clflush_all F (region + i * local_size B) (local_size B) iv). written_back x) =
      {region + i * local_size B ..< region + (i + 1) * local_size B}"
proof -
  let ?d = "region + i * local_size B"
  have "64 dvd ?d" using assms(3,5) by simp
  then have d: "?d div 64 * 64 = ?d" by simp
  obtain q where q: "local_size B = 64 * q" using assms(5) by blast
  then have n: "next_multiple_of (local_size B) 64 = local_size B" by (simp add: next_multiple_of_def)
  have "?d + next_multiple_of (local_size B) 64 \<le> 2 ^ 64" using assms(4) n by simp
  from clflush_all_bytes [OF this] have "(\<Union>x\<in>set (clflush_all F ?d (local_size B) iv). written_back x) = {?d ..< ?d + local_size B}" unfolding d n .
  then show ?thesis using clflush_all_covers [OF assms(1,2)] by (simp add: add.commute add.left_commute)
qed

theorem flush_covers_object_witness:
  "\<forall>F. \<not> {60 ..< 60 + 8} \<subseteq> (\<Union>x\<in>set (clflush_all F 60 8 Invalidate_Yes). written_back x) \<and>
    (\<Union>x\<in>set (clflush_all F (4096 + 3 * local_size small_bracket) (local_size small_bracket) Invalidate_Yes). written_back x) = {5632 ..< 6144}"
  using flush_covers_object [of 60 8 4096 3 small_bracket _ Invalidate_Yes] by (simp add: local_sizes next_multiple_of_def)

text \<open>
  Every flush that the processor may delay past later stores is followed by a fence: where the calls issue
  an instruction that is not ordered by itself, the fence that the code pairs with it is one.
\<close>

theorem flushes_are_fenced:
  "(\<forall>x\<in>set (cache_flush F a n iv). self_ordered x \<or> Sfence \<in> set (cache_fence F)) \<and>
   (\<forall>x\<in>set (flush_cxl F a n). self_ordered x \<or> Sfence \<in> set (fence_cxl F))"
  by (auto simp: cache_flush_def cache_fence_def flush_cxl_def fence_cxl_def clflush_all_def clflush_def)

end
