(* ===== verification/Crash.thy ===== *)
theory Crash
  imports Prelude "HOL-Library.Sublist"
begin

text \<open>
  Crash points (\<open>crash/src/lib.rs\<close>), with which the tests of recovery stop a thread at a named place: when a point is hit,
  the filter by the call stack, and the run of a closure that is expected to crash.
\<close>

subsection \<open>Points\<close>

text \<open>A point by its name, and optionally the functions that must be on the stack, outermost first.\<close>

record dynamic =
  dy_stack :: "string list"
  dy_point :: string

text \<open>
  A frame of a back trace: the symbols it resolves to, some of them without a name. The name that is compared is the
  last one resolved, also if it comes from an earlier frame.
\<close>

type_synonym frame = "string option list"

definition resolve_frame :: "frame \<Rightarrow> string \<Rightarrow> string" where
  "resolve_frame fr buffer = fold (\<lambda>symbol b. case symbol of None \<Rightarrow> b | Some name \<Rightarrow> name) fr buffer"

text \<open>The walk from the innermost frame outwards; the functions that are left when it ends.\<close>

fun backtrace :: "string list \<Rightarrow> string \<Rightarrow> frame list \<Rightarrow> string list" where
  "backtrace [] buffer frames = []"
| "backtrace (f # fs) buffer [] = f # fs"
| "backtrace (f # fs) buffer (fr # frs) =
     (let b = resolve_frame fr buffer in backtrace (if prefix f b then fs else f # fs) b frs)"

definition dynamic_matches :: "dynamic \<Rightarrow> string \<Rightarrow> frame list \<Rightarrow> bool" where
  "dynamic_matches d point frames =
     (if dy_point d \<noteq> point then False
      else if dy_stack d = [] then True
      else backtrace (rev (dy_stack d)) [] frames = [])"

text \<open>A point in the code: with a crash set for the thread, it panics with it when it matches.\<close>

definition crash_define :: "string \<Rightarrow> frame list \<Rightarrow> dynamic option \<Rightarrow> dynamic option" where
  "crash_define point frames local = (case local of None \<Rightarrow> None | Some d \<Rightarrow> if dynamic_matches d point frames then Some d else None)"

subsection \<open>Runs\<close>

text \<open>How a closure ends: normally, by the panic of a crash point, or by another panic.\<close>

datatype ending = Completed | Crash_Point dynamic | Other_Panic panic

text \<open>The crash set for the thread stays set when the run itself panics.\<close>

definition crash_run :: "dynamic \<Rightarrow> (dynamic option \<Rightarrow> 's \<Rightarrow> ending \<times> 's) \<Rightarrow> 's \<Rightarrow> (dynamic option \<times> 's) res" where
  "crash_run crash closure s = (case closure (Some crash) s of
     (Completed, s1) \<Rightarrow> Inl (Explicit ''did not crash'')
   | (Crash_Point actual, s1) \<Rightarrow> if actual = crash then Inr (None, s1) else Inl (Explicit ''crashed at'')
   | (Other_Panic p, s1) \<Rightarrow> Inl p)"

definition assert_coverage :: "string set \<Rightarrow> string set \<Rightarrow> unit res" where
  "assert_coverage defined covered =
     andthen (require (defined - covered = {}) (Assertion ''uncovered'')) (\<lambda>_. require (covered - defined = {}) (Assertion ''undefined''))"

subsection \<open>Lemmas\<close>

primrec names :: "string \<Rightarrow> frame list \<Rightarrow> string list" where
  "names buffer [] = []"
| "names buffer (fr # frs) = (let b = resolve_frame fr buffer in b # names b frs)"

lemma emb_greedy: "list_emb P (x # xs) (y # ys) \<longleftrightarrow> (if P x y then list_emb P xs ys else list_emb P (x # xs) ys)"
proof (cases "P x y")
  case True
  then show ?thesis by (auto dest: list_emb_ConsD)
qed auto

text \<open>The walk takes the first frame that matches each function, which loses nothing.\<close>

lemma backtrace_subsequence: "backtrace fs buffer frames = [] \<longleftrightarrow> list_emb prefix fs (names buffer frames)"
proof (induction fs buffer frames rule: backtrace.induct)
  case (3 f fs buffer fr frs)
  then show ?case by (simp add: emb_greedy Let_def)
qed auto

subsection \<open>Properties\<close>

text \<open>
  A crash point with a stack filter fires exactly when the functions of the filter occur among the resolved names of
  the frames in their order, with any frames between them, and one without a filter fires at its name alone.
\<close>

theorem crash_matches_stack:
  "dynamic_matches d point frames \<longleftrightarrow> dy_point d = point \<and> list_emb prefix (rev (dy_stack d)) (names [] frames)"
  by (auto simp: dynamic_matches_def backtrace_subsequence)

text \<open>A run returns exactly when the closure crashed at the expected point, and no crash is set afterwards.\<close>

theorem crash_run_exact:
  "crash_run crash closure s = Inr (local, s') \<longleftrightarrow> closure (Some crash) s = (Crash_Point crash, s') \<and> local = None"
  by (auto simp: crash_run_def split: prod.splits ending.splits if_splits)

theorem coverage_exact: "assert_coverage defined covered = Inr () \<longleftrightarrow> defined = covered"
  by (auto simp: assert_coverage_def andthen_Inr_conv)

end
