(* ===== verification/Intervals.thy ===== *)
theory Intervals
  imports Main
begin

text \<open>
  The interval sets the huge allocator keeps its free address space in. The type comes from the
  \<open>interval\<close> crate, which is not part of this repository: the operations the allocator calls are a
  record, a parameter of the model, and what it relies on is the locale \<open>interval_laws\<close>. Sorted lists of
  separated intervals give an instance.
\<close>

record 's interval_ops =
  iv_empty :: 's
  iv_of :: "nat \<Rightarrow> nat \<Rightarrow> 's"
  iv_iter :: "'s \<Rightarrow> (nat \<times> nat) list"
  iv_inter :: "'s \<Rightarrow> 's \<Rightarrow> 's"
  iv_diff :: "'s \<Rightarrow> 's \<Rightarrow> 's"
  iv_extend :: "'s \<Rightarrow> 's \<Rightarrow> 's"
  iv_ok :: "'s \<Rightarrow> bool"

definition span :: "(nat \<times> nat) list \<Rightarrow> nat set" where
  "span xs = (\<Union>(l, h)\<in>set xs. {l..h})"

definition iv_set :: "'s interval_ops \<Rightarrow> 's \<Rightarrow> nat set" where
  "iv_set IV s = span (iv_iter IV s)"

text \<open>\<open>size()\<close> of an interval and of a set of disjoint intervals.\<close>

definition interval_size :: "nat \<times> nat \<Rightarrow> nat" where
  "interval_size x = snd x - fst x + 1"

definition iv_size :: "'s interval_ops \<Rightarrow> 's \<Rightarrow> nat" where
  "iv_size IV s = sum_list (map interval_size (iv_iter IV s))"

text \<open>Separated intervals in ascending order: neither overlapping nor adjacent.\<close>

fun separated :: "(nat \<times> nat) list \<Rightarrow> bool" where
  "separated [] \<longleftrightarrow> True"
| "separated [(l, h)] \<longleftrightarrow> l \<le> h"
| "separated ((l, h) # (l', h') # xs) \<longleftrightarrow> l \<le> h \<and> h + 1 < l' \<and> separated ((l', h') # xs)"

locale interval_laws =
  fixes IV :: "'s interval_ops"
  assumes iter_separated: "iv_ok IV s \<Longrightarrow> separated (iv_iter IV s)"
    and empty_set: "iv_set IV (iv_empty IV) = {}"
    and of_set: "a \<le> b \<Longrightarrow> iv_set IV (iv_of IV a b) = {a..b}"
    and inter_set: "iv_ok IV s \<Longrightarrow> iv_ok IV s' \<Longrightarrow> iv_set IV (iv_inter IV s s') = iv_set IV s \<inter> iv_set IV s'"
    and diff_set: "iv_ok IV s \<Longrightarrow> iv_ok IV s' \<Longrightarrow> iv_set IV (iv_diff IV s s') = iv_set IV s - iv_set IV s'"
    and extend_set: "iv_ok IV s \<Longrightarrow> iv_ok IV s' \<Longrightarrow> iv_set IV (iv_extend IV s s') = iv_set IV s \<union> iv_set IV s'"
    and ok_empty: "iv_ok IV (iv_empty IV)"
    and ok_of: "a \<le> b \<Longrightarrow> iv_ok IV (iv_of IV a b)"
    and ok_inter: "iv_ok IV s \<Longrightarrow> iv_ok IV s' \<Longrightarrow> iv_ok IV (iv_inter IV s s')"
    and ok_diff: "iv_ok IV s \<Longrightarrow> iv_ok IV s' \<Longrightarrow> iv_ok IV (iv_diff IV s s')"
    and ok_extend: "iv_ok IV s \<Longrightarrow> iv_ok IV s' \<Longrightarrow> iv_ok IV (iv_extend IV s s')"

lemma span_simps [simp]: "span [] = {}" "span ((l, h) # xs) = {l..h} \<union> span xs" "span (xs @ ys) = span xs \<union> span ys"
  by (auto simp: span_def)

lemma finite_span [simp]: "finite (span xs)"
  by (auto simp: span_def)

lemma separated_Cons:
  "separated ((l, h) # xs) \<longleftrightarrow> l \<le> h \<and> separated xs \<and> (\<forall>x\<in>span xs. h + 1 < x)"
proof (induction xs arbitrary: l h)
  case (Cons x xs)
  obtain l' h' where x: "x = (l', h')" by (cases x)
  show ?case
  proof
    assume a: "separated ((l, h) # x # xs)"
    then have "separated ((l', h') # xs)" by (simp add: x)
    with Cons.IH [of l' h'] a show "l \<le> h \<and> separated (x # xs) \<and> (\<forall>y\<in>span (x # xs). h + 1 < y)"
      by (fastforce simp: x)
  next
    assume a: "l \<le> h \<and> separated (x # xs) \<and> (\<forall>y\<in>span (x # xs). h + 1 < y)"
    then have "l' \<le> h'" using Cons.IH [of l' h'] by (simp add: x)
    with a show "separated ((l, h) # x # xs)" by (auto simp: x)
  qed
qed simp

lemma separated_size: "separated xs \<Longrightarrow> sum_list (map interval_size xs) = card (span xs)"
proof (induction xs)
  case (Cons x xs)
  obtain l h where x: "x = (l, h)" by (cases x)
  have "{l..h} \<inter> span xs = {}" using Cons.prems by (force simp: x separated_Cons)
  then show ?case using Cons by (auto simp: x separated_Cons interval_size_def card_Un_disjoint Suc_diff_le)
qed simp

text \<open>A gapless range inside a separated list lies inside one of its intervals.\<close>

lemma separated_range:
  assumes "separated xs" "a \<le> b" "{a..b} \<subseteq> span xs"
  shows "\<exists>(l, h)\<in>set xs. l \<le> a \<and> b \<le> h"
  using assms
proof (induction xs)
  case (Cons x xs)
  obtain l h where x: "x = (l, h)" by (cases x)
  note S = Cons.prems(1) [unfolded x separated_Cons]
  show ?case
  proof (cases "a \<le> h")
    case True
    have "l \<le> a" using Cons.prems(2,3) S True by (force simp: x)
    moreover have "b \<le> h"
    proof (rule ccontr)
      assume "\<not> b \<le> h"
      then have "h + 1 \<in> {a..b}" using True by simp
      then show False using Cons.prems(3) S by (force simp: x)
    qed
    ultimately show ?thesis by (auto simp: x)
  next
    case False
    then have "{a..b} \<subseteq> span xs" using Cons.prems(3) by (auto simp: x)
    then show ?thesis using Cons.IH Cons.prems(2) S by auto
  qed
qed simp

lemma separated_mem: "separated xs \<Longrightarrow> (l, h) \<in> set xs \<Longrightarrow> l \<le> h"
  by (induction xs) (auto simp: separated_Cons)

context interval_laws
begin

lemma size_card: "iv_ok IV s \<Longrightarrow> iv_size IV s = card (iv_set IV s)"
  using separated_size [OF iter_separated] by (simp add: iv_size_def iv_set_def)

lemma iter_set: "(l, h) \<in> set (iv_iter IV s) \<Longrightarrow> {l..h} \<subseteq> iv_set IV s"
  by (auto simp: iv_set_def span_def)

lemma iter_le: "iv_ok IV s \<Longrightarrow> (l, h) \<in> set (iv_iter IV s) \<Longrightarrow> l \<le> h"
  using separated_mem iter_separated by blast

lemma iter_range: "iv_ok IV s \<Longrightarrow> a \<le> b \<Longrightarrow> {a..b} \<subseteq> iv_set IV s \<Longrightarrow> \<exists>(l, h)\<in>set (iv_iter IV s). l \<le> a \<and> b \<le> h"
  using separated_range [OF iter_separated] by (simp add: iv_set_def)

lemma finite_iv: "finite (iv_set IV s)"
  by (auto simp: iv_set_def span_def)

lemma inter_size:
  assumes "iv_ok IV s" "a \<le> b"
  shows "iv_size IV (iv_inter IV s (iv_of IV a b)) = iv_size IV (iv_of IV a b) \<longleftrightarrow> {a..b} \<subseteq> iv_set IV s"
proof -
  have "iv_size IV (iv_inter IV s (iv_of IV a b)) = card (iv_set IV s \<inter> {a..b})" "iv_size IV (iv_of IV a b) = card {a..b}"
    using assms by (simp_all add: size_card ok_inter ok_of inter_set of_set)
  then show ?thesis by (metis card_subset_eq finite_atLeastAtMost inf.absorb_iff2 inf_le2)
qed

end

subsection \<open>Sorted lists of separated intervals\<close>

fun il_add :: "nat \<times> nat \<Rightarrow> (nat \<times> nat) list \<Rightarrow> (nat \<times> nat) list" where
  "il_add (a, b) [] = [(a, b)]"
| "il_add (a, b) ((l, h) # xs) =
     (if b + 1 < l then (a, b) # (l, h) # xs
      else if h + 1 < a then (l, h) # il_add (a, b) xs
      else il_add (min a l, max b h) xs)"

fun il_cut :: "nat \<times> nat \<Rightarrow> (nat \<times> nat) list \<Rightarrow> (nat \<times> nat) list" where
  "il_cut (a, b) [] = []"
| "il_cut (a, b) ((l, h) # xs) =
     (if l < a then [(l, min h (a - 1))] else []) @ (if b < h then [(max l (b + 1), h)] else []) @ il_cut (a, b) xs"

fun il_clip :: "nat \<times> nat \<Rightarrow> (nat \<times> nat) list \<Rightarrow> (nat \<times> nat) list" where
  "il_clip (a, b) [] = []"
| "il_clip (a, b) ((l, h) # xs) = (if max a l \<le> min b h then [(max a l, min b h)] else []) @ il_clip (a, b) xs"

definition interval_lists :: "(nat \<times> nat) list interval_ops" where
  "interval_lists = \<lparr>iv_empty = [], iv_of = (\<lambda>a b. [(a, b)]), iv_iter = (\<lambda>xs. xs),
     iv_inter = (\<lambda>xs ys. concat (map (\<lambda>y. il_clip y xs) ys)),
     iv_diff = (\<lambda>xs ys. foldl (\<lambda>zs y. il_cut y zs) xs ys),
     iv_extend = (\<lambda>xs ys. foldl (\<lambda>zs y. il_add y zs) xs ys), iv_ok = separated\<rparr>"

lemma il_add_span: "a \<le> b \<Longrightarrow> separated xs \<Longrightarrow> span (il_add (a, b) xs) = {a..b} \<union> span xs"
proof (induction "(a, b)" xs arbitrary: a b rule: il_add.induct)
  case (2 a b l h xs)
  then show ?case by (auto simp: separated_Cons)
qed simp

lemma il_add_separated: "a \<le> b \<Longrightarrow> separated xs \<Longrightarrow> separated (il_add (a, b) xs)"
proof (induction "(a, b)" xs arbitrary: a b rule: il_add.induct)
  case (2 a b l h xs)
  then show ?case by (force simp: separated_Cons il_add_span)
qed simp

lemma il_cut_span: "a \<le> b \<Longrightarrow> span (il_cut (a, b) xs) = span xs - {a..b}"
proof (induction xs)
  case (Cons x xs)
  obtain l h where x: "x = (l, h)" by (cases x)
  have "(y \<in> {l..h} - {a..b}) \<longleftrightarrow> l < a \<and> y \<in> {l..min h (a - 1)} \<or> b < h \<and> y \<in> {max l (b + 1)..h}" for y
    using Cons.prems by auto
  then have "{l..h} - {a..b} = (if l < a then {l..min h (a - 1)} else {}) \<union> (if b < h then {max l (b + 1)..h} else {})"
    by (simp add: set_eq_iff)
  then show ?case using Cons by (simp add: x Un_Diff Un_assoc)
qed simp

lemma il_cut_separated: "a \<le> b \<Longrightarrow> separated xs \<Longrightarrow> separated (il_cut (a, b) xs)"
proof (induction "(a, b)" xs rule: il_cut.induct)
  case (2 l h xs)
  then show ?case by (auto simp: separated_Cons il_cut_span)
qed simp

lemma il_clip_span: "span (il_clip (a, b) xs) = span xs \<inter> {a..b}"
proof (induction xs)
  case (Cons x xs)
  obtain l h where x: "x = (l, h)" by (cases x)
  have "{l..h} \<inter> {a..b} = (if max a l \<le> min b h then {max a l..min b h} else {})" by auto
  then show ?case using Cons.IH by (auto simp: x)
qed simp

lemma il_clip_separated: "separated xs \<Longrightarrow> separated (il_clip (a, b) xs)"
proof (induction "(a, b)" xs rule: il_clip.induct)
  case (2 l h xs)
  then show ?case by (auto simp: separated_Cons il_clip_span)
qed simp

lemma separated_append:
  "separated xs \<Longrightarrow> separated ys \<Longrightarrow> (\<And>x y. x \<in> span xs \<Longrightarrow> y \<in> span ys \<Longrightarrow> x + 1 < y) \<Longrightarrow> separated (xs @ ys)"
proof (induction xs)
  case (Cons x xs)
  obtain l h where x: "x = (l, h)" by (cases x)
  have "h \<in> span (x # xs)" using Cons.prems(1) by (simp add: x separated_Cons)
  then show ?case using Cons.IH Cons.prems by (auto simp: x separated_Cons)
qed simp

lemma clip_all:
  "separated ys \<Longrightarrow> separated xs \<Longrightarrow> span (concat (map (\<lambda>y. il_clip y xs) ys)) = span xs \<inter> span ys \<and>
    separated (concat (map (\<lambda>y. il_clip y xs) ys))"
proof (induction ys)
  case (Cons y ys)
  obtain l h where y: "y = (l, h)" by (cases y)
  have IH: "span (concat (map (\<lambda>y. il_clip y xs) ys)) = span xs \<inter> span ys" "separated (concat (map (\<lambda>y. il_clip y xs) ys))"
    using Cons by (auto simp: y separated_Cons)
  have "x + 1 < z" if "x \<in> span (il_clip (l, h) xs)" "z \<in> span xs \<inter> span ys" for x z
    using that Cons.prems(1) by (fastforce simp: y il_clip_span separated_Cons)
  then show ?case using Cons.prems(2) IH
    by (auto simp: y il_clip_span intro!: separated_append il_clip_separated)
qed simp

lemma cut_all:
  "separated ys \<Longrightarrow> separated xs \<Longrightarrow> span (foldl (\<lambda>zs y. il_cut y zs) xs ys) = span xs - span ys \<and>
    separated (foldl (\<lambda>zs y. il_cut y zs) xs ys)"
proof (induction ys arbitrary: xs)
  case (Cons y ys)
  obtain l h where y: "y = (l, h)" by (cases y)
  then show ?case using Cons.IH [of "il_cut y xs"] Cons.prems by (auto simp: separated_Cons il_cut_separated il_cut_span)
qed simp

lemma add_all:
  "separated ys \<Longrightarrow> separated xs \<Longrightarrow> span (foldl (\<lambda>zs y. il_add y zs) xs ys) = span xs \<union> span ys \<and>
    separated (foldl (\<lambda>zs y. il_add y zs) xs ys)"
proof (induction ys arbitrary: xs)
  case (Cons y ys)
  obtain l h where y: "y = (l, h)" by (cases y)
  then show ?case using Cons.IH [of "il_add y xs"] Cons.prems by (auto simp: separated_Cons il_add_separated il_add_span)
qed simp

interpretation ivl: interval_laws interval_lists
  by standard (simp_all add: interval_lists_def iv_set_def clip_all cut_all add_all)

end
