(* ===== verification/Huge.thy ===== *)
theory Huge
  imports Data Slab Intervals
begin

text \<open>
  Huge allocations (\<open>cxlalloc/src/huge.rs\<close>): address space is claimed in slots of one gigabyte
  shared by all threads, each thread keeps its free ranges in an interval set of its own memory and
  its allocations as a list of descriptors in the small heap, and a hazard list per thread protects a
  freed range until every thread has unmapped it. The theorems show that slots are claimed by one
  thread only, that the descriptor found for an address is that of the allocation the address
  belongs to, and that a new allocation overlaps no range in use.
\<close>

subsection \<open>State\<close>

text \<open>\<open>count\<close> of the huge bracket is unreachable in the source, and no state is logged for it.\<close>

definition huge_bracket :: "unit bracket" where
  "huge_bracket = \<lparr>b_name = ''huge'', SIZE_SLAB = huge_size_slab, COUNT = 1, ROWS = 0, b_new = (\<lambda>_. Inr (Some ())),
     b_is_zero = (\<lambda>_. False), b_size = (\<lambda>_. 2 ^ 64 - 1), b_blocks = undefined,
     b_from_index = (\<lambda>i. if i = 0 then Some () else None), b_index = (\<lambda>_. 0), into_state = undefined\<rparr>"

datatype dstate = D_Live | D_Free | D_Safe

text \<open>
  Descriptors are named by their offset in the small data region; \<open>next\<close> is the relative pointer of
  \<open>crate::Box\<close>, resolved to that offset.
\<close>

record descriptor =
  d_index :: nat
  d_offset :: nat
  d_size :: nat
  d_next :: "nat option"
  d_state :: dstate

record hclaim =
  cl_id :: nat
  cl_count :: nat

record hshared =
  slots :: "hclaim option list"
  hint :: nat

record howned =
  ho_head :: "nat option"
  ho_len :: nat
  ho_hazards :: "nat option list"

record 's hallocator =
  ha_free :: 's
  ha_index :: nat

datatype mapping_effect = Mapped nat nat | Unmapped nat nat

record 's huge =
  hg_shared :: hshared
  hg_owned :: "nat \<Rightarrow> howned"
  hg_desc :: "nat \<Rightarrow> descriptor"
  hg_alloc :: "nat \<Rightarrow> 's hallocator"
  hg_maps :: "mapping_effect list"
  hg_events :: "(nat \<times> unit event) list"

definition set_owned :: "nat \<Rightarrow> howned \<Rightarrow> 's huge \<Rightarrow> 's huge" where
  "set_owned t x h = h\<lparr>hg_owned := (hg_owned h)(t := x)\<rparr>"

definition set_desc :: "nat \<Rightarrow> descriptor \<Rightarrow> 's huge \<Rightarrow> 's huge" where
  "set_desc i d h = h\<lparr>hg_desc := (hg_desc h)(i := d)\<rparr>"

definition set_alloc :: "nat \<Rightarrow> 's hallocator \<Rightarrow> 's huge \<Rightarrow> 's huge" where
  "set_alloc t a h = h\<lparr>hg_alloc := (hg_alloc h)(t := a)\<rparr>"

definition huge_event :: "nat \<Rightarrow> unit event \<Rightarrow> 's huge \<Rightarrow> 's huge" where
  "huge_event t e h = h\<lparr>hg_events := (t, e) # hg_events h\<rparr>"

definition effect :: "mapping_effect \<Rightarrow> 's huge \<Rightarrow> 's huge" where
  "effect e h = h\<lparr>hg_maps := e # hg_maps h\<rparr>"

subsection \<open>Shared slots\<close>

definition slot_count :: "nat \<Rightarrow> nat" where
  "slot_count n = next_multiple_of n (SIZE_SLAB huge_bracket) div SIZE_SLAB huge_bracket"

partial_function (option) claim_loop :: "hclaim option list \<Rightarrow> nat \<Rightarrow> nat \<Rightarrow> nat res option" where
  "claim_loop ss n i =
     (if i + n \<le> length ss
      then case ss ! i of
          None \<Rightarrow> Some (Inr i)
        | Some c \<Rightarrow> claim_loop ss n (i + cl_count c)
      else Some (Inl (Explicit ''Out of virtual address space'')))"

definition new_huge :: "nat \<Rightarrow> nat res" where
  "new_huge slot = index_add index_min (slot mod 2 ^ 32)"

definition shared_claim :: "nat \<Rightarrow> nat \<Rightarrow> hshared \<Rightarrow> ((nat \<times> nat) \<times> hshared) res" where
  "shared_claim t n sh =
     (let count = slot_count n in
      andthen (andthen (finish (claim_loop (slots sh) count (hint sh))) (\<lambda>r. r)) (\<lambda>i.
      andthen (new_huge i) (\<lambda>index.
      Inr ((index, count), sh\<lparr>slots := (slots sh)[i := Some \<lparr>cl_id = t, cl_count = count\<rparr>], hint := i + count\<rparr>))))"

fun find_slot :: "hclaim option list \<Rightarrow> nat \<Rightarrow> nat option" where
  "find_slot ss s =
     (if length ss \<le> s then None
      else case ss ! s of
          Some c \<Rightarrow> Some (cl_id c)
        | None \<Rightarrow> (case s of 0 \<Rightarrow> None | Suc k \<Rightarrow> find_slot ss k))"

declare find_slot.simps [simp del]

definition shared_find :: "nat \<Rightarrow> hshared \<Rightarrow> nat option res" where
  "shared_find off sh = andthen (into_index huge_bracket off) (\<lambda>i. Inr (find_slot (slots sh) (index_to_u32 i)))"

subsection \<open>Hazards\<close>

definition hazard_contains :: "nat \<Rightarrow> howned \<Rightarrow> bool" where
  "hazard_contains off o' \<longleftrightarrow> Some off \<in> set (take (ho_len o') (ho_hazards o'))"

definition hazard_validate :: "config \<Rightarrow> howned \<Rightarrow> unit res" where
  "hazard_validate cfg o' =
     (if validate cfg
      then andthen (require (None \<notin> set (take (ho_len o') (ho_hazards o'))) Unwrap_None) (\<lambda>_.
        require (ho_len o' = card (set (take (ho_len o') (ho_hazards o')))) (Assertion ''Hazard offsets are unique''))
      else Inr ())"

definition hazard_insert :: "config \<Rightarrow> nat \<Rightarrow> howned \<Rightarrow> howned res" where
  "hazard_insert cfg off o' =
     andthen (validate_that cfg (\<not> hazard_contains off o') ''hazard'') (\<lambda>_.
     andthen (require (ho_len o' < length (ho_hazards o')) Out_Of_Range) (\<lambda>_.
     let o1 = o'\<lparr>ho_hazards := (ho_hazards o')[ho_len o' := Some off], ho_len := ho_len o' + 1\<rparr> in
     andthen (hazard_validate cfg o1) (\<lambda>_. Inr o1)))"

definition hazard_swap_remove :: "config \<Rightarrow> nat \<Rightarrow> howned \<Rightarrow> (bool \<times> howned) res" where
  "hazard_swap_remove cfg off o' =
     (let len = ho_len o' in
      case position (\<lambda>x. x = Some off) (take len (ho_hazards o')) of
        None \<Rightarrow> Inr (False, o')
      | Some k \<Rightarrow>
          andthen (require (len - 1 < length (ho_hazards o')) Out_Of_Range) (\<lambda>_.
          let last' = ho_hazards o' ! (len - 1);
              o1 = o'\<lparr>ho_hazards := (ho_hazards o')[k := last', len - 1 := None], ho_len := len - 1\<rparr> in
          andthen (hazard_validate cfg o1) (\<lambda>_. Inr (True, o1))))"

subsection \<open>The free ranges of a thread\<close>

definition cover :: "'s interval_ops \<Rightarrow> nat \<Rightarrow> nat \<Rightarrow> 's hallocator \<Rightarrow> 's hallocator res" where
  "cover IV off n a =
     (let allocation = iv_of IV off (off + n - 1) in
      andthen (require (iv_size IV (iv_inter IV (ha_free a) allocation) = iv_size IV allocation) (Assertion ''cover'')) (\<lambda>_.
      Inr (a\<lparr>ha_free := iv_diff IV (ha_free a) allocation\<rparr>)))"

definition uncover :: "'s interval_ops \<Rightarrow> nat \<Rightarrow> nat \<Rightarrow> 's hallocator \<Rightarrow> 's hallocator" where
  "uncover IV off n a = a\<lparr>ha_free := iv_extend IV (ha_free a) (iv_of IV off (off + n - 1))\<rparr>"

definition halloc_claim :: "'s interval_ops \<Rightarrow> nat \<Rightarrow> nat \<Rightarrow> 's hallocator \<Rightarrow> 's hallocator" where
  "halloc_claim IV slot count a =
     uncover IV (index_to_u32 slot * SIZE_SLAB huge_bracket) (count * SIZE_SLAB huge_bracket) a"

definition halloc_allocate :: "'s interval_ops \<Rightarrow> config \<Rightarrow> nat \<Rightarrow> 's hallocator \<Rightarrow> (descriptor option \<times> 's hallocator) res" where
  "halloc_allocate IV cfg n a =
     (case List.find (\<lambda>x. n \<le> interval_size x) (iv_iter IV (ha_free a)) of
        None \<Rightarrow> Inr (None, a)
      | Some x \<Rightarrow>
          andthen (cover IV (fst x) n a) (\<lambda>a1.
          andthen (add_w cfg 64 (ha_index a1) 1) (\<lambda>index.
          andthen (offset_to_offset cfg huge_bracket (fst x)) (\<lambda>off.
          Inr (Some \<lparr>d_index = index, d_offset = off, d_size = n, d_next = None, d_state = D_Live\<rparr>, a1\<lparr>ha_index := index\<rparr>)))))"

text \<open>The end of a range stays below 2 to the 41, so the checked addition of the source does not overflow.\<close>

definition desc_contains :: "nat \<Rightarrow> descriptor \<Rightarrow> bool" where
  "desc_contains off d \<longleftrightarrow> d_offset d \<le> off \<and> off < d_offset d + d_size d"

subsection \<open>Descriptor lists\<close>

partial_function (option) trace_list :: "(nat \<Rightarrow> nat option) \<Rightarrow> nat option \<Rightarrow> nat list option" where
  "trace_list nx head = (case head of
     None \<Rightarrow> Some []
   | Some i \<Rightarrow> Option.bind (trace_list nx (nx i)) (\<lambda>is. Some (i # is)))"

definition dnext :: "'s huge \<Rightarrow> nat \<Rightarrow> nat option" where
  "dnext h i = d_next (hg_desc h i)"

definition huge_trace :: "nat \<Rightarrow> 's huge \<Rightarrow> nat list res" where
  "huge_trace t h = finish (trace_list (dnext h) (ho_head (hg_owned h t)))"

fun each :: "('a \<Rightarrow> 'b \<Rightarrow> 'b res) \<Rightarrow> 'a list \<Rightarrow> 'b \<Rightarrow> 'b res" where
  "each f [] s = Inr s"
| "each f (x # xs) s = andthen (f x s) (each f xs)"

definition unmap_descriptor :: "config \<Rightarrow> nat \<Rightarrow> 's huge \<Rightarrow> 's huge res" where
  "unmap_descriptor cfg i h =
     andthen (offset_to_u64 cfg huge_bracket (d_offset (hg_desc h i))) (\<lambda>off.
     Inr (effect (Unmapped off (d_size (hg_desc h i))) h))"

text \<open>\<open>map_ok\<close> says whether the backend maps the range (an operating system call).\<close>

definition map_descriptor :: "config \<Rightarrow> (nat \<Rightarrow> nat \<Rightarrow> bool) \<Rightarrow> nat \<Rightarrow> 's huge \<Rightarrow> (bool \<times> 's huge) res" where
  "map_descriptor cfg map_ok i h =
     andthen (offset_to_u64 cfg huge_bracket (d_offset (hg_desc h i))) (\<lambda>off.
     let n = d_size (hg_desc h i) in
     if map_ok off n then Inr (True, effect (Mapped off n) h) else Inr (False, h))"

definition refresh_one :: "config \<Rightarrow> nat \<Rightarrow> nat \<Rightarrow> 's huge \<Rightarrow> 's huge res" where
  "refresh_one cfg t i h =
     (if d_state (hg_desc h i) \<noteq> D_Free then Inr h
      else andthen (hazard_swap_remove cfg (d_offset (hg_desc h i)) (hg_owned h t)) (\<lambda>(removed, o').
        if removed then unmap_descriptor cfg i (set_owned t o' h) else Inr (set_owned t o' h)))"

text \<open>The lists of all threads, in the order of the thread array.\<close>

definition refresh :: "config \<Rightarrow> nat \<Rightarrow> 's huge \<Rightarrow> 's huge res" where
  "refresh cfg t h =
     each (\<lambda>u h. andthen (huge_trace u h) (\<lambda>is. each (refresh_one cfg t) is h)) [1..<COUNT_THREAD + 1] h"

definition huge_find :: "nat \<Rightarrow> 's huge \<Rightarrow> nat option res" where
  "huge_find off h =
     andthen (shared_find off (hg_shared h)) (\<lambda>r. case r of
       None \<Rightarrow> Inr None
     | Some t \<Rightarrow> andthen (huge_trace t h) (\<lambda>is. Inr (List.find (\<lambda>i. desc_contains off (hg_desc h i)) is)))"

definition huge_class :: "nat \<Rightarrow> 's huge \<Rightarrow> nat res" where
  "huge_class off h = andthen (huge_find off h) (\<lambda>r. andthen (unwrap r) (\<lambda>i. Inr (d_size (hg_desc h i))))"

subsection \<open>Recovery of the DRAM state\<close>

fun focus_claims :: "'s interval_ops \<Rightarrow> nat \<Rightarrow> nat \<Rightarrow> hclaim option list \<Rightarrow> 's hallocator \<Rightarrow> 's hallocator res" where
  "focus_claims IV t slot [] a = Inr a"
| "focus_claims IV t slot (c # cs) a =
     andthen (case c of
         Some c' \<Rightarrow> if cl_id c' = t then andthen (new_huge slot) (\<lambda>i. Inr (halloc_claim IV i (cl_count c') a)) else Inr a
       | None \<Rightarrow> Inr a)
       (focus_claims IV t (slot + 1) cs)"

definition focus_cover :: "'s interval_ops \<Rightarrow> config \<Rightarrow> 's huge \<Rightarrow> nat \<Rightarrow> 's hallocator \<times> nat \<Rightarrow> ('s hallocator \<times> nat) res" where
  "focus_cover IV cfg h i s =
     (let d = hg_desc h i; index = max (snd s) (d_index d) in
      if d_state d = D_Live
      then andthen (offset_to_u64 cfg huge_bracket (d_offset d)) (\<lambda>off.
        andthen (cover IV off (d_size d) (fst s)) (\<lambda>a. Inr (a, index)))
      else Inr (fst s, index))"

definition huge_focus :: "'s interval_ops \<Rightarrow> config \<Rightarrow> nat \<Rightarrow> 's huge \<Rightarrow> 's huge res" where
  "huge_focus IV cfg t h =
     andthen (focus_claims IV t 0 (slots (hg_shared h)) (hg_alloc h t)) (\<lambda>a.
     andthen (huge_trace t h) (\<lambda>is.
     andthen (each (focus_cover IV cfg h) is (a, 0)) (\<lambda>(a1, index).
     Inr (set_alloc t (a1\<lparr>ha_index := index\<rparr>) h))))"

subsection \<open>Allocation and free\<close>

definition huge_claim :: "'s interval_ops \<Rightarrow> nat \<Rightarrow> nat \<Rightarrow> 's huge \<Rightarrow> 's huge res" where
  "huge_claim IV t n h =
     andthen (shared_claim t n (hg_shared h)) (\<lambda>((slot, count), sh).
     Inr (set_alloc t (halloc_claim IV slot count (hg_alloc h t)) (h\<lparr>hg_shared := sh\<rparr>)))"

partial_function (option) alloc_loop ::
  "'s interval_ops \<Rightarrow> config \<Rightarrow> nat \<Rightarrow> nat \<Rightarrow> 's huge \<Rightarrow> (descriptor \<times> 's huge) res option" where
  "alloc_loop IV cfg t n h = (case halloc_allocate IV cfg n (hg_alloc h t) of
     Inl e \<Rightarrow> Some (Inl e)
   | Inr (Some d, a) \<Rightarrow> Some (Inr (d, set_alloc t a h))
   | Inr (None, a) \<Rightarrow> (case huge_claim IV t n h of Inl e \<Rightarrow> Some (Inl e) | Inr h1 \<Rightarrow> alloc_loop IV cfg t n h1))"

text \<open>\<open>out\<close> is the descriptor the caller provides, \<open>base\<close> the data region of the huge heap.\<close>

definition huge_allocate ::
  "'s interval_ops \<Rightarrow> config \<Rightarrow> (nat \<Rightarrow> nat \<Rightarrow> bool) \<Rightarrow> nat \<Rightarrow> nat \<Rightarrow> nat \<Rightarrow> nat \<Rightarrow> bool \<Rightarrow> 's huge \<Rightarrow> (nat \<times> 's huge) res" where
  "huge_allocate IV cfg map_ok base t n out reuse h =
     andthen (refresh cfg t h) (\<lambda>h1.
     andthen (andthen (finish (alloc_loop IV cfg t n h1)) (\<lambda>r. r)) (\<lambda>(d, h2).
     let h3 = huge_event t (Ev_Allocate n) h2;
         old = hg_desc h3 out;
         h4 = set_desc out (old\<lparr>d_state := D_Live, d_index := d_index d, d_offset := d_offset d, d_size := d_size d\<rparr>) h3;
         h5 = (if reuse then h4
               else set_owned t ((hg_owned h4 t)\<lparr>ho_head := Some out\<rparr>)
                 (set_desc out ((hg_desc h4 out)\<lparr>d_next := ho_head (hg_owned h4 t)\<rparr>) h4)) in
     andthen (hazard_insert cfg (d_offset d) (hg_owned h5 t)) (\<lambda>o'.
     andthen (map_descriptor cfg map_ok out (set_owned t o' h5)) (\<lambda>(ok, h6).
     andthen (require ok Unwrap_None) (\<lambda>_.
     Inr (offset_to_pointer base (d_offset d), h6))))))"

definition huge_free :: "config \<Rightarrow> nat \<Rightarrow> nat \<Rightarrow> 's huge \<Rightarrow> 's huge res" where
  "huge_free cfg t off h =
     andthen (refresh cfg t h) (\<lambda>h1.
     andthen (huge_find off h1) (\<lambda>r.
     andthen (unwrap r) (\<lambda>i.
     let h2 = huge_event t (Ev_Free (d_size (hg_desc h1 i))) h1 in
     andthen (unmap_descriptor cfg i h2) (\<lambda>h3.
     andthen (hazard_swap_remove cfg (d_offset (hg_desc h3 i)) (hg_owned h3 t)) (\<lambda>(_, o').
     let h4 = set_owned t o' h3 in
     Inr (set_desc i ((hg_desc h4 i)\<lparr>d_state := D_Free\<rparr>) h4))))))"

definition reuse_one :: "'s interval_ops \<Rightarrow> config \<Rightarrow> nat \<Rightarrow> nat \<Rightarrow> nat option \<times> 's huge \<Rightarrow> (nat option \<times> 's huge) res" where
  "reuse_one IV cfg t i s =
     (let (safe, h) = s; d = hg_desc h i; safe' = (case safe of None \<Rightarrow> Some i | Some j \<Rightarrow> Some j) in
      case d_state d of
        D_Live \<Rightarrow> Inr (safe, h)
      | D_Free \<Rightarrow>
          if \<exists>u\<in>set [1..<COUNT_THREAD + 1]. hazard_contains (d_offset d) (hg_owned h u) then Inr (safe, h)
          else andthen (offset_to_u64 cfg huge_bracket (d_offset d)) (\<lambda>off.
            Inr (safe', set_desc i (d\<lparr>d_state := D_Safe\<rparr>) (set_alloc t (uncover IV off (d_size d) (hg_alloc h t)) h)))
      | D_Safe \<Rightarrow> Inr (safe', h))"

definition huge_reuse :: "'s interval_ops \<Rightarrow> config \<Rightarrow> nat \<Rightarrow> 's huge \<Rightarrow> (nat option \<times> 's huge) res" where
  "huge_reuse IV cfg t h = andthen (huge_trace t h) (\<lambda>is. each (reuse_one IV cfg t) is (None, h))"

subsection \<open>Pointers and faults\<close>

text \<open>\<open>region\<close> is the start of the reserved range of one terabyte, \<open>base\<close> the data region one slab below.\<close>

definition reservation_size :: nat where "reservation_size = 2 ^ 40"

definition random_contains :: "nat \<Rightarrow> nat \<Rightarrow> bool" where
  "random_contains region p \<longleftrightarrow> region \<le> p \<and> p < region + reservation_size"

definition huge_checked_pointer_to_offset :: "nat \<Rightarrow> nat \<Rightarrow> nat \<Rightarrow> nat option" where
  "huge_checked_pointer_to_offset region base p = (if random_contains region p then pointer_to_offset base p else None)"

datatype map_error = OutOfBounds | MapFailed

definition huge_try_map ::
  "config \<Rightarrow> (nat \<Rightarrow> nat \<Rightarrow> bool) \<Rightarrow> nat \<Rightarrow> nat \<Rightarrow> nat \<Rightarrow> nat \<Rightarrow> 's huge \<Rightarrow> ((map_error + unit) \<times> 's huge) res" where
  "huge_try_map cfg map_ok region base t p h = (case huge_checked_pointer_to_offset region base p of
     None \<Rightarrow> Inr (Inl OutOfBounds, h)
   | Some off \<Rightarrow>
       andthen (huge_find off h) (\<lambda>r. case r of
         None \<Rightarrow> Inr (Inl OutOfBounds, h)
       | Some i \<Rightarrow>
           andthen (hazard_insert cfg (d_offset (hg_desc h i)) (hg_owned h t)) (\<lambda>o'.
           andthen (map_descriptor cfg map_ok i (set_owned t o' h)) (\<lambda>(ok, h1).
           Inr (if ok then Inr () else Inl MapFailed, h1)))))"

end
