(* ===== verification/Allocator.thy ===== *)
theory Allocator
  imports Recover Huge
begin

text \<open>
  The allocator of one process (\<open>cxlalloc/src/allocator.rs\<close>): the small, large and huge heap behind one
  interface, sharing the help array and the per-thread log, with the typed and untyped calls, the
  roots and recovery (\<open>recover.rs\<close>).
\<close>

subsection \<open>State\<close>

text \<open>
  The starts of the reserved data regions. The base of each heap's offsets lies one slab below its
  region, so that offset zero is never used.
\<close>

record layout =
  ly_small :: nat
  ly_large :: nat
  ly_huge :: nat

definition base_of :: "'c bracket \<Rightarrow> nat \<Rightarrow> nat" where
  "base_of B region = region - SIZE_SLAB B"

text \<open>
  \<open>a_help\<close> and \<open>a_log\<close> are the help array of \<open>Shared\<close> and the logged states of \<open>Owned\<close>, which both
  slab heaps use; \<open>a_mem\<close> is the memory of the data regions.
\<close>

record 's allocator =
  a_help :: "nat \<Rightarrow> nat \<Rightarrow> 16 word"
  a_log :: "nat \<Rightarrow> state option"
  a_small :: "small heap"
  a_large :: "large heap"
  a_huge :: "'s huge"
  a_root :: "nat option"
  a_roots :: "nat option list"
  a_owned_root :: "nat \<Rightarrow> nat"
  a_mem :: "nat \<Rightarrow> 8 word"

text \<open>A call into one slab heap: the heap runs with the shared help array and log.\<close>

definition with_ctx :: "(nat \<Rightarrow> nat \<Rightarrow> 16 word) \<Rightarrow> (nat \<Rightarrow> state option) \<Rightarrow> 'c heap \<Rightarrow> 'c heap" where
  "with_ctx hp lg h = h\<lparr>help_arr := hp, log_state := lg\<rparr>"

definition on_small :: "(small heap \<Rightarrow> ('x \<times> small heap) res) \<Rightarrow> 's allocator \<Rightarrow> ('x \<times> 's allocator) res" where
  "on_small f a = andthen (f (with_ctx (a_help a) (a_log a) (a_small a))) (\<lambda>(x, h).
     Inr (x, a\<lparr>a_small := h, a_help := help_arr h, a_log := log_state h\<rparr>))"

definition on_large :: "(large heap \<Rightarrow> ('x \<times> large heap) res) \<Rightarrow> 's allocator \<Rightarrow> ('x \<times> 's allocator) res" where
  "on_large f a = andthen (f (with_ctx (a_help a) (a_log a) (a_large a))) (\<lambda>(x, h).
     Inr (x, a\<lparr>a_large := h, a_help := help_arr h, a_log := log_state h\<rparr>))"

definition no_value :: "('c heap \<Rightarrow> 'c heap res) \<Rightarrow> 'c heap \<Rightarrow> (unit \<times> 'c heap) res" where
  "no_value f h = andthen (f h) (\<lambda>h1. Inr ((), h1))"

definition clear_log :: "nat \<Rightarrow> 's allocator \<Rightarrow> 's allocator" where
  "clear_log t a = a\<lparr>a_log := (a_log a)(t := None)\<rparr>"

subsection \<open>Pointers\<close>

definition checked_pointer_to_offset :: "config \<Rightarrow> 'c bracket \<Rightarrow> nat \<Rightarrow> nat \<Rightarrow> nat option res" where
  "checked_pointer_to_offset cfg B base p = (case pointer_to_offset base p of
     None \<Rightarrow> Inr None
   | Some off \<Rightarrow> andthen (offset_to_u64 cfg B off) (\<lambda>v. Inr (if v < reservation_size then Some off else None)))"

definition allocator_pointer_to_offset :: "config \<Rightarrow> layout \<Rightarrow> nat \<Rightarrow> nat res" where
  "allocator_pointer_to_offset cfg ly p = sub_w cfg 64 p (base_of small_bracket (ly_small ly))"

definition allocator_offset_to_pointer :: "layout \<Rightarrow> nat \<Rightarrow> nat" where
  "allocator_offset_to_pointer ly off = base_of small_bracket (ly_small ly) + off"

subsection \<open>Roots\<close>

definition root_shared :: "layout \<Rightarrow> 's allocator \<Rightarrow> nat option" where
  "root_shared ly a = map_option (offset_to_pointer (base_of small_bracket (ly_small ly))) (a_root a)"

definition set_root_shared :: "layout \<Rightarrow> nat \<Rightarrow> 's allocator \<Rightarrow> 's allocator res" where
  "set_root_shared ly p a =
     andthen (unwrap (pointer_to_offset (base_of small_bracket (ly_small ly)) p)) (\<lambda>off. Inr (a\<lparr>a_root := Some off\<rparr>))"

definition root_owned :: "config \<Rightarrow> layout \<Rightarrow> nat \<Rightarrow> 's allocator \<Rightarrow> nat res" where
  "root_owned cfg ly t a =
     andthen (offset_to_offset cfg small_bracket (a_owned_root a t)) (\<lambda>off.
     Inr (offset_to_pointer (base_of small_bracket (ly_small ly)) off))"

definition root_untyped :: "layout \<Rightarrow> nat \<Rightarrow> 's allocator \<Rightarrow> nat option res" where
  "root_untyped ly i a =
     andthen (require (i < length (a_roots a)) Out_Of_Range) (\<lambda>_.
     Inr (map_option (offset_to_pointer (base_of small_bracket (ly_small ly))) (a_roots a ! i)))"

definition set_root_untyped :: "layout \<Rightarrow> nat \<Rightarrow> nat \<Rightarrow> 's allocator \<Rightarrow> 's allocator res" where
  "set_root_untyped ly i p a =
     andthen (require (i < length (a_roots a)) Out_Of_Range) (\<lambda>_.
     Inr (a\<lparr>a_roots := (a_roots a)[i :=
       Option.bind (nonzero p) (pointer_to_offset (base_of small_bracket (ly_small ly)))]\<rparr>))"

subsection \<open>Untyped calls\<close>

text \<open>The class of a descriptor, whose 40 bytes are aligned to 64.\<close>

definition descriptor_class :: small where
  "descriptor_class = (case small_new 64 of Inr (Some c) \<Rightarrow> c | _ \<Rightarrow> Small 0)"

definition allocate_huge ::
  "'s interval_ops \<Rightarrow> config \<Rightarrow> (nat \<Rightarrow> nat \<Rightarrow> bool) \<Rightarrow> layout \<Rightarrow> nat \<Rightarrow> nat \<Rightarrow> 's allocator \<Rightarrow> (nat option \<times> 's allocator) res" where
  "allocate_huge IV cfg map_ok ly t n a =
     andthen (andthen (next_multiple_of_w cfg n SIZE_PAGE) (\<lambda>m. unwrap (nonzero m))) (\<lambda>sz.
     andthen (huge_reuse IV cfg t (a_huge a)) (\<lambda>(r, hg). let a1 = a\<lparr>a_huge := hg\<rparr> in
     case r of
       Some out \<Rightarrow>
         andthen (huge_allocate IV cfg map_ok (base_of huge_bracket (ly_huge ly)) t sz out True (a_huge a1)) (\<lambda>(p, hg2).
         Inr (Some p, a1\<lparr>a_huge := hg2\<rparr>))
     | None \<Rightarrow>
         andthen (on_small (heap_peek cfg small_bracket t descriptor_class) a1) (\<lambda>(q, a2).
         andthen (unwrap q) (\<lambda>(i, block).
         andthen (from_block cfg small_bracket descriptor_class i block) (\<lambda>out.
         andthen (huge_allocate IV cfg map_ok (base_of huge_bracket (ly_huge ly)) t sz out False (a_huge a2)) (\<lambda>(p, hg2).
         andthen (on_small (heap_pop cfg small_bracket (base_of small_bracket (ly_small ly)) t descriptor_class i block)
           (a2\<lparr>a_huge := hg2\<rparr>)) (\<lambda>(_, a3).
         Inr (Some p, a3))))))))"

definition allocate_large ::
  "'s interval_ops \<Rightarrow> config \<Rightarrow> (nat \<Rightarrow> nat \<Rightarrow> bool) \<Rightarrow> layout \<Rightarrow> nat \<Rightarrow> nat \<Rightarrow> 's allocator \<Rightarrow> (nat option \<times> 's allocator) res" where
  "allocate_large IV cfg map_ok ly t n a = andthen (large_new n) (\<lambda>r. case r of
     None \<Rightarrow> allocate_huge IV cfg map_ok ly t n a
   | Some c \<Rightarrow> on_large (heap_take cfg large_bracket (base_of large_bracket (ly_large ly)) t c) a)"

definition allocate_untyped ::
  "'s interval_ops \<Rightarrow> config \<Rightarrow> (nat \<Rightarrow> nat \<Rightarrow> bool) \<Rightarrow> layout \<Rightarrow> nat \<Rightarrow> nat \<Rightarrow> 's allocator \<Rightarrow> (nat option \<times> 's allocator) res" where
  "allocate_untyped IV cfg map_ok ly t n a = andthen (small_new n) (\<lambda>r. case r of
     None \<Rightarrow> allocate_large IV cfg map_ok ly t n a
   | Some c \<Rightarrow> andthen (on_small (heap_take cfg small_bracket (base_of small_bracket (ly_small ly)) t c) a) (\<lambda>(p, a1).
       Inr (p, if p = None then a1 else clear_log t a1)))"

definition free_huge_untyped :: "config \<Rightarrow> layout \<Rightarrow> nat \<Rightarrow> nat \<Rightarrow> 's allocator \<Rightarrow> 's allocator res" where
  "free_huge_untyped cfg ly t p a = (case huge_checked_pointer_to_offset (ly_huge ly) (base_of huge_bracket (ly_huge ly)) p of
     None \<Rightarrow> Inr a
   | Some off \<Rightarrow> andthen (huge_free cfg t off (a_huge a)) (\<lambda>hg. Inr (a\<lparr>a_huge := hg\<rparr>)))"

definition free_large_untyped :: "config \<Rightarrow> layout \<Rightarrow> nat \<Rightarrow> nat \<Rightarrow> 's allocator \<Rightarrow> 's allocator res" where
  "free_large_untyped cfg ly t p a =
     andthen (checked_pointer_to_offset cfg large_bracket (base_of large_bracket (ly_large ly)) p) (\<lambda>r. case r of
       None \<Rightarrow> free_huge_untyped cfg ly t p a
     | Some off \<Rightarrow> andthen (on_large (no_value (heap_free cfg large_bracket t off)) a) (\<lambda>(_, a1). Inr a1))"

definition free_untyped :: "config \<Rightarrow> layout \<Rightarrow> nat \<Rightarrow> nat \<Rightarrow> 's allocator \<Rightarrow> 's allocator res" where
  "free_untyped cfg ly t p a =
     andthen (checked_pointer_to_offset cfg small_bracket (base_of small_bracket (ly_small ly)) p) (\<lambda>r. case r of
       None \<Rightarrow> free_large_untyped cfg ly t p a
     | Some off \<Rightarrow> andthen (on_small (no_value (heap_free cfg small_bracket t off)) a) (\<lambda>(_, a1). Inr (clear_log t a1)))"

definition class_untyped :: "config \<Rightarrow> layout \<Rightarrow> nat \<Rightarrow> 's allocator \<Rightarrow> nat res" where
  "class_untyped cfg ly p a =
     andthen (checked_pointer_to_offset cfg small_bracket (base_of small_bracket (ly_small ly)) p) (\<lambda>r. case r of
       Some off \<Rightarrow> andthen (heap_class small_bracket off (a_small a)) (\<lambda>c. Inr (b_size small_bracket c))
     | None \<Rightarrow>
         andthen (checked_pointer_to_offset cfg large_bracket (base_of large_bracket (ly_large ly)) p) (\<lambda>r. case r of
           Some off \<Rightarrow> andthen (heap_class large_bracket off (a_large a)) (\<lambda>c. Inr (b_size large_bracket c))
         | None \<Rightarrow> (case huge_checked_pointer_to_offset (ly_huge ly) (base_of huge_bracket (ly_huge ly)) p of
             Some off \<Rightarrow> huge_class off (a_huge a)
           | None \<Rightarrow> Inl (Explicit ''Unrecognized pointer''))))"

definition realloc_untyped ::
  "'s interval_ops \<Rightarrow> config \<Rightarrow> (nat \<Rightarrow> nat \<Rightarrow> bool) \<Rightarrow> layout \<Rightarrow> nat \<Rightarrow> nat \<Rightarrow> nat \<Rightarrow> 's allocator \<Rightarrow> (nat \<times> 's allocator) res" where
  "realloc_untyped IV cfg map_ok ly t p n a =
     andthen (class_untyped cfg ly p a) (\<lambda>old.
     if n \<le> old then Inr (p, a)
     else
       andthen (allocate_untyped IV cfg map_ok ly t n a) (\<lambda>(r, a1).
       andthen (case r of None \<Rightarrow> Inl Undefined | Some q \<Rightarrow> Inr q) (\<lambda>q.
       let a2 = a1\<lparr>a_mem := (\<lambda>x. if q \<le> x \<and> x < q + old then a_mem a1 (p + (x - q)) else a_mem a1 x)\<rparr> in
       andthen (free_untyped cfg ly t p a2) (\<lambda>a3. Inr (q, a3)))))"

subsection \<open>Typed calls\<close>

text \<open>\<open>n\<close> is the size of the type.\<close>

definition reserve_heap :: "config \<Rightarrow> 'c bracket \<Rightarrow> nat \<Rightarrow> nat \<Rightarrow> 'c \<Rightarrow> 'c heap \<Rightarrow> (nat \<times> 'c heap) res" where
  "reserve_heap cfg B base t c h =
     andthen (heap_peek cfg B t c h) (\<lambda>(r, h1). case r of
       None \<Rightarrow> Inl (Explicit ''Out of memory'')
     | Some (i, block) \<Rightarrow> andthen (from_block cfg B c i block) (\<lambda>off. Inr (offset_to_pointer base off, h1)))"

definition reserve_large :: "config \<Rightarrow> layout \<Rightarrow> nat \<Rightarrow> nat \<Rightarrow> 's allocator \<Rightarrow> (nat \<times> 's allocator) res" where
  "reserve_large cfg ly t n a = andthen (large_new n) (\<lambda>r. case r of
     None \<Rightarrow> Inl Todo
   | Some c \<Rightarrow> on_large (reserve_heap cfg large_bracket (base_of large_bracket (ly_large ly)) t c) a)"

definition reserve :: "config \<Rightarrow> layout \<Rightarrow> nat \<Rightarrow> nat \<Rightarrow> 's allocator \<Rightarrow> (nat \<times> 's allocator) res" where
  "reserve cfg ly t n a = andthen (small_new n) (\<lambda>r. case r of
     None \<Rightarrow> reserve_large cfg ly t n a
   | Some c \<Rightarrow> on_small (reserve_heap cfg small_bracket (base_of small_bracket (ly_small ly)) t c) a)"

definition free_large_typed :: "config \<Rightarrow> layout \<Rightarrow> nat \<Rightarrow> nat \<Rightarrow> nat \<Rightarrow> 's allocator \<Rightarrow> 's allocator res" where
  "free_large_typed cfg ly t n p a = andthen (large_new n) (\<lambda>r. case r of
     None \<Rightarrow> Inl Todo
   | Some _ \<Rightarrow>
       andthen (unwrap (pointer_to_offset (base_of large_bracket (ly_large ly)) p)) (\<lambda>off.
       andthen (on_large (no_value (heap_free cfg large_bracket t off)) a) (\<lambda>(_, a1). Inr a1)))"

definition free_typed :: "config \<Rightarrow> layout \<Rightarrow> nat \<Rightarrow> nat \<Rightarrow> nat \<Rightarrow> 's allocator \<Rightarrow> 's allocator res" where
  "free_typed cfg ly t n p a = andthen (small_new n) (\<lambda>r. case r of
     None \<Rightarrow> free_large_typed cfg ly t n p a
   | Some _ \<Rightarrow>
       andthen (unwrap (pointer_to_offset (base_of small_bracket (ly_small ly)) p)) (\<lambda>off.
       andthen (on_small (no_value (heap_free cfg small_bracket t off)) a) (\<lambda>(_, a1). Inr a1)))"

subsection \<open>Recovery\<close>

definition allocator_recover :: "config \<Rightarrow> nat \<Rightarrow> 's allocator \<Rightarrow> 's allocator res" where
  "allocator_recover cfg t a = (case a_log a t of
     None \<Rightarrow> Inr a
   | Some (SmallState st) \<Rightarrow> andthen (on_small (no_value (recover_heap cfg small_bracket t st)) a) (\<lambda>(_, a1). Inr a1)
   | Some (LargeState st) \<Rightarrow> andthen (on_large (no_value (recover_heap cfg large_bracket t st)) a) (\<lambda>(_, a1). Inr a1))"

text \<open>A thread that takes up its identity: it rebuilds its free address ranges, then recovers from its log.\<close>

definition allocator_focus :: "'s interval_ops \<Rightarrow> config \<Rightarrow> nat \<Rightarrow> bool \<Rightarrow> 's allocator \<Rightarrow> 's allocator res" where
  "allocator_focus IV cfg t recover a =
     andthen (huge_focus IV cfg t (a_huge a)) (\<lambda>hg.
     let a1 = a\<lparr>a_huge := hg\<rparr> in if recover then allocator_recover cfg t a1 else Inr a1)"

end
