(* ===== verification/Huge_Inv.thy ===== *)
theory Huge_Inv
  imports Huge
begin

text \<open>
  The invariant of the huge heap and its preservation by claims, reuse, allocation, free and
  refresh. Claims tile the slot array from the left; a thread's descriptors and free ranges lie in
  its own claims; of two descriptors in a thread's list, the later one, unless it is reclaimed,
  overlaps no earlier one, so that the first hit of the search is the right one; and the hazards name
  ranges that are not reclaimed.
\<close>

subsection \<open>Slots\<close>

abbreviation "S \<equiv> SIZE_SLAB huge_bracket"

lemma S_value: "S = 2 ^ 30"
  by (simp add: huge_bracket_def huge_size_slab_def)

lemma S_pos [simp]: "0 < S"
  by (simp add: S_value)

inductive tiles :: "hclaim option list \<Rightarrow> nat \<Rightarrow> nat \<Rightarrow> bool" for ss where
  stop: "i \<le> length ss \<Longrightarrow> tiles ss i i"
| tile: "ss ! i = Some c \<Longrightarrow> 0 < cl_count c \<Longrightarrow> i + cl_count c \<le> length ss \<Longrightarrow>
    (\<And>j. i < j \<Longrightarrow> j < i + cl_count c \<Longrightarrow> ss ! j = None) \<Longrightarrow> tiles ss (i + cl_count c) k \<Longrightarrow> tiles ss i k"

definition slots_inv :: "hshared \<Rightarrow> nat \<Rightarrow> bool" where
  "slots_inv sh k \<longleftrightarrow> length (slots sh) = 1024 \<and> tiles (slots sh) 0 k \<and> tiles (slots sh) (hint sh) k \<and>
     (\<forall>j. k \<le> j \<and> j < 1024 \<longrightarrow> slots sh ! j = None)"

definition owner :: "hclaim option list \<Rightarrow> nat \<Rightarrow> nat \<Rightarrow> bool" where
  "owner ss s t \<longleftrightarrow> (\<exists>i c. i < length ss \<and> ss ! i = Some c \<and> cl_id c = t \<and> i \<le> s \<and> s < i + cl_count c)"

lemma tiles_le: "tiles ss i k \<Longrightarrow> i \<le> k \<and> k \<le> length ss"
  by (induction rule: tiles.induct) auto

lemma claim_loop_tiles:
  assumes "tiles ss i k" and "k + n \<le> length ss" "k < length ss \<longrightarrow> ss ! k = None" "0 < n"
  shows "claim_loop ss n i = Some (Inr k)"
  using assms
proof (induction rule: tiles.induct)
  case (stop i)
  then show ?case by (subst claim_loop.simps) simp
next
  case (tile i c k)
  then have "i + n \<le> length ss" using tiles_le [of ss "i + cl_count c" k] by simp
  with tile show ?case by (subst claim_loop.simps) simp
qed

lemma claim_loop_full:
  assumes "tiles ss i k" and "length ss < k + n"
    and "\<And>j. k \<le> j \<Longrightarrow> j < length ss \<Longrightarrow> ss ! j = None" and "0 < n"
  shows "claim_loop ss n i = Some (Inl (Explicit ''Out of virtual address space''))"
  using assms
proof (induction rule: tiles.induct)
  case (stop i)
  then show ?case by (subst claim_loop.simps) simp
next
  case (tile i c k)
  then show ?case by (cases "i + n \<le> length ss") (simp_all add: claim_loop.simps [of ss n i])
qed

text \<open>An index inside a tiling lies in one of its tiles, and the search walks back to its start.\<close>

lemma find_slot_back:
  assumes "ss ! i = Some c" and "i \<le> s" "s < length ss" and "\<And>j. i < j \<Longrightarrow> j \<le> s \<Longrightarrow> ss ! j = None"
  shows "find_slot ss s = Some (cl_id c)"
  using assms
proof (induction s)
  case 0
  then show ?case by (subst find_slot.simps) simp
next
  case (Suc s)
  show ?case
  proof (cases "i = Suc s")
    case True
    then show ?thesis using Suc.prems by (subst find_slot.simps) simp
  next
    case False
    then show ?thesis using Suc by (subst find_slot.simps) simp
  qed
qed

lemma tiles_member:
  assumes "tiles ss a k" "a \<le> i" "i < k" "ss ! i = Some c"
  shows "0 < cl_count c \<and> i + cl_count c \<le> k \<and> (\<forall>j. i < j \<and> j < i + cl_count c \<longrightarrow> ss ! j = None)"
  using assms
proof (induction rule: tiles.induct)
  case (tile a d k)
  show ?case
  proof (cases "a = i")
    case True
    then show ?thesis using tile tiles_le [of ss "a + cl_count d" k] by auto
  next
    case False
    then have "a + cl_count d \<le> i" using tile.prems tile.hyps(4) [of i] by force
    then show ?thesis using tile by blast
  qed
qed simp

lemma slots_inv_member:
  assumes "slots_inv sh k" "i < length (slots sh)" "slots sh ! i = Some c"
  shows "i < k \<and> 0 < cl_count c \<and> i + cl_count c \<le> k \<and> (\<forall>j. i < j \<and> j < i + cl_count c \<longrightarrow> slots sh ! j = None)"
proof -
  have "i < k" using assms by (metis option.distinct(1) not_le_imp_less slots_inv_def)
  then show ?thesis using tiles_member [of "slots sh" 0 k i c] assms by (simp add: slots_inv_def)
qed

lemma owner_find:
  assumes "slots_inv sh k" "owner (slots sh) s t"
  shows "find_slot (slots sh) s = Some t" and "s < 1024" "s < k"
proof -
  obtain i c where c: "i < length (slots sh)" "slots sh ! i = Some c" "cl_id c = t" "i \<le> s" "s < i + cl_count c"
    using assms(2) by (auto simp: owner_def)
  note M = slots_inv_member [OF assms(1) c(1,2)]
  show "s < k" using M c by simp
  then show "s < 1024" using assms(1) tiles_le [of "slots sh" 0 k] by (simp add: slots_inv_def)
  then show "find_slot (slots sh) s = Some t"
    using find_slot_back [OF c(2,4)] M c assms(1) by (auto simp: slots_inv_def)
qed

lemma owner_unique: "slots_inv sh k \<Longrightarrow> owner (slots sh) s t \<Longrightarrow> owner (slots sh) s u \<Longrightarrow> t = u"
  using owner_find(1) [of sh k s t] owner_find(1) [of sh k s u] by simp

lemma slot_count_pos: "0 < n \<Longrightarrow> 0 < slot_count n" and slot_count_le: "n \<le> slot_count n * S"
proof -
  show "n \<le> slot_count n * S"
    unfolding slot_count_def next_multiple_of_def
    using dividend_less_div_times [of S "n + S - 1"] S_pos by (simp add: field_simps)
  then show "0 < n \<Longrightarrow> 0 < slot_count n" by (cases "slot_count n") auto
qed

lemma tiles_append:
  assumes "tiles ss i m" "m = k" "k < length ss" "k + n \<le> length ss" "0 < n" "\<And>j. k \<le> j \<Longrightarrow> j < length ss \<Longrightarrow> ss ! j = None"
    and "cl_count c = n"
  shows "tiles (ss[k := Some c]) i (k + n)"
  using assms
proof (induction rule: tiles.induct)
  case (stop i)
  show ?case
  proof (rule tiles.tile [of _ i c])
    show "tiles (ss[k := Some c]) (i + cl_count c) (k + n)" using stop tiles.stop [of "k + n" "ss[k := Some c]"] by simp
  qed (use stop in auto)
next
  case (tile i c' m)
  have lt: "i + cl_count c' \<le> k" using tiles_le [OF tile.hyps(5)] tile.prems by simp
  show ?case
  proof (rule tiles.tile [of _ i c'])
    show "ss[k := Some c] ! j = None" if "i < j" "j < i + cl_count c'" for j
      using that tile.hyps(4) [of j] lt by simp
    show "ss[k := Some c] ! i = Some c'" using tile.hyps(1,2) lt by simp
  qed (use tile in simp_all)
qed

lemma owner_update:
  assumes "k < length ss" "ss ! k = None"
  shows "owner (ss[k := Some c]) s u \<longleftrightarrow> owner ss s u \<or> u = cl_id c \<and> k \<le> s \<and> s < k + cl_count c"
proof
  assume "owner (ss[k := Some c]) s u"
  then obtain i d where "i < length ss" "ss[k := Some c] ! i = Some d" "cl_id d = u" "i \<le> s" "s < i + cl_count d"
    by (auto simp: owner_def)
  then show "owner ss s u \<or> u = cl_id c \<and> k \<le> s \<and> s < k + cl_count c"
    unfolding owner_def by (cases "i = k") auto
next
  assume "owner ss s u \<or> u = cl_id c \<and> k \<le> s \<and> s < k + cl_count c"
  then show "owner (ss[k := Some c]) s u"
  proof
    assume "owner ss s u"
    then obtain i d where d: "i < length ss" "ss ! i = Some d" "cl_id d = u" "i \<le> s" "s < i + cl_count d"
      by (auto simp: owner_def)
    moreover have "i \<noteq> k" using d(2) assms(2) by auto
    ultimately show ?thesis unfolding owner_def by (intro exI [of _ i] exI [of _ d]) simp
  next
    assume "u = cl_id c \<and> k \<le> s \<and> s < k + cl_count c"
    then show ?thesis unfolding owner_def using assms(1) by (intro exI [of _ k] exI [of _ c]) simp
  qed
qed

lemma shared_claim_ok:
  assumes inv: "slots_inv sh k" and n: "0 < n" and room: "k + slot_count n \<le> 1024"
  shows "\<exists>sh'. shared_claim t n sh = Inr ((k + 1, slot_count n), sh') \<and> slots_inv sh' (k + slot_count n) \<and>
    (\<forall>s u. owner (slots sh') s u \<longleftrightarrow> owner (slots sh) s u \<or> u = t \<and> k \<le> s \<and> s < k + slot_count n)"
proof -
  let ?n = "slot_count n" and ?c = "\<lparr>cl_id = t, cl_count = slot_count n\<rparr>"
  let ?sh = "sh\<lparr>slots := (slots sh)[k := Some ?c], hint := k + ?n\<rparr>"
  have len: "length (slots sh) = 1024" and kl: "k < 1024" and none: "\<And>j. k \<le> j \<Longrightarrow> j < 1024 \<Longrightarrow> slots sh ! j = None"
    using inv room slot_count_pos [OF n] by (auto simp: slots_inv_def)
  have "claim_loop (slots sh) ?n (hint sh) = Some (Inr k)"
    using inv room none slot_count_pos [OF n] by (intro claim_loop_tiles) (auto simp: slots_inv_def)
  then have run: "shared_claim t n sh = Inr ((k + 1, ?n), ?sh)"
    using kl by (simp add: shared_claim_def Let_def new_huge_def index_add_def checked_add_w_def index_min_def)
  have "tiles (slots sh) 0 k" using inv by (simp add: slots_inv_def)
  then have "tiles (slots ?sh) 0 (k + ?n)"
    using tiles_append [of "slots sh" 0 k k ?n ?c] none len kl room slot_count_pos [OF n] by simp
  then have "slots_inv ?sh (k + ?n)"
    using inv none len room tiles.stop [of "k + ?n" "slots ?sh"] slot_count_pos [OF n] by (auto simp: slots_inv_def nth_list_update)
  moreover have "owner (slots ?sh) s u \<longleftrightarrow> owner (slots sh) s u \<or> u = t \<and> k \<le> s \<and> s < k + ?n" for s u
    using owner_update [of k "slots sh" ?c] none [of k] len kl by simp
  ultimately show ?thesis using run by blast
qed

lemma shared_claim_full:
  assumes "slots_inv sh k" "0 < n" "1024 < k + slot_count n"
  shows "shared_claim t n sh = Inl (Explicit ''Out of virtual address space'')"
proof -
  have "claim_loop (slots sh) (slot_count n) (hint sh) = Some (Inl (Explicit ''Out of virtual address space''))"
    using assms slot_count_pos [OF assms(2)] by (intro claim_loop_full [of _ _ k]) (auto simp: slots_inv_def)
  then show ?thesis by (simp add: shared_claim_def Let_def)
qed

subsection \<open>Descriptors\<close>

definition drange :: "descriptor \<Rightarrow> nat set" where
  "drange d = {d_offset d..<d_offset d + d_size d}"

abbreviation held :: "descriptor \<Rightarrow> bool" where "held d \<equiv> d_state d \<noteq> D_Safe"

text \<open>The offsets of the free positions, which the interval set counts from the start of the region.\<close>

definition free_offsets :: "'s interval_ops \<Rightarrow> 's \<Rightarrow> nat set" where
  "free_offsets IV F = (\<lambda>p. p + S) ` iv_set IV F"

lemma mem_free_offsets: "off \<in> free_offsets IV F \<longleftrightarrow> S \<le> off \<and> off - S \<in> iv_set IV F"
  unfolding free_offsets_def by force

definition mine :: "hclaim option list \<Rightarrow> nat \<Rightarrow> nat set" where
  "mine ss t = {off. S \<le> off \<and> owner ss (off div S - 1) t}"

definition thread_inv :: "'s interval_ops \<Rightarrow> (nat \<Rightarrow> descriptor) \<Rightarrow> hclaim option list \<Rightarrow> nat \<Rightarrow> nat list \<Rightarrow> 's \<Rightarrow> bool" where
  "thread_inv IV D ss t is F \<longleftrightarrow>
     iv_ok IV F \<and> free_offsets IV F \<subseteq> mine ss t \<and> distinct is \<and>
     (\<forall>i\<in>set is. 0 < d_size (D i) \<and> drange (D i) \<subseteq> mine ss t) \<and>
     (\<forall>i\<in>set is. held (D i) \<longrightarrow> drange (D i) \<inter> free_offsets IV F = {}) \<and>
     sorted_wrt (\<lambda>i j. held (D j) \<longrightarrow> drange (D i) \<inter> drange (D j) = {}) is"

definition hazards_inv :: "(nat \<Rightarrow> descriptor) \<Rightarrow> nat set \<Rightarrow> howned \<Rightarrow> bool" where
  "hazards_inv D I o' \<longleftrightarrow> length (ho_hazards o') = 1024 \<and> ho_len o' \<le> 1024 \<and> distinct (take (ho_len o') (ho_hazards o')) \<and>
     set (take (ho_len o') (ho_hazards o')) \<subseteq> {Some (d_offset (D i)) | i. i \<in> I \<and> held (D i)}"

definition huge_inv :: "'s interval_ops \<Rightarrow> 's huge \<Rightarrow> (nat \<Rightarrow> nat list) \<Rightarrow> nat \<Rightarrow> bool" where
  "huge_inv IV h dl k \<longleftrightarrow>
     slots_inv (hg_shared h) k \<and>
     (\<forall>t. chain (dnext h) (ho_head (hg_owned h t)) (dl t)) \<and>
     (\<forall>t u. t \<noteq> u \<longrightarrow> set (dl t) \<inter> set (dl u) = {}) \<and>
     (\<forall>t. thread_inv IV (hg_desc h) (slots (hg_shared h)) t (dl t) (ha_free (hg_alloc h t))) \<and>
     (\<forall>t. thread_ok t \<longrightarrow> hazards_inv (hg_desc h) (\<Union>u. set (dl u)) (hg_owned h t))"

lemma huge_invD:
  assumes "huge_inv IV h dl k"
  shows "slots_inv (hg_shared h) k" and "chain (dnext h) (ho_head (hg_owned h t)) (dl t)"
    and "t \<noteq> u \<Longrightarrow> set (dl t) \<inter> set (dl u) = {}"
    and "thread_inv IV (hg_desc h) (slots (hg_shared h)) t (dl t) (ha_free (hg_alloc h t))"
    and "thread_ok t \<Longrightarrow> hazards_inv (hg_desc h) (\<Union>u. set (dl u)) (hg_owned h t)"
  using assms by (auto simp: huge_inv_def)

lemma thread_invD:
  assumes "thread_inv IV D ss t is F"
  shows "iv_ok IV F" "free_offsets IV F \<subseteq> mine ss t" "distinct is"
    and "i \<in> set is \<Longrightarrow> 0 < d_size (D i)" "i \<in> set is \<Longrightarrow> drange (D i) \<subseteq> mine ss t"
    and "i \<in> set is \<Longrightarrow> held (D i) \<Longrightarrow> drange (D i) \<inter> free_offsets IV F = {}"
    and "sorted_wrt (\<lambda>i j. held (D j) \<longrightarrow> drange (D i) \<inter> drange (D j) = {}) is"
  using assms by (auto simp: thread_inv_def)

lemma thread_held_disjoint:
  assumes "thread_inv IV D ss t is F" "i \<in> set is" "j \<in> set is" "i \<noteq> j" "held (D i)" "held (D j)"
  shows "drange (D i) \<inter> drange (D j) = {}"
proof -
  have "sorted_wrt (\<lambda>i j. held (D j) \<longrightarrow> drange (D i) \<inter> drange (D j) = {}) is" using thread_invD(7) [OF assms(1)] .
  then show ?thesis using assms(2-6)
  proof (induction "is")
    case (Cons x xs)
    then show ?case by auto
  qed simp
qed

lemma mine_disjoint:
  assumes "slots_inv sh k" "t \<noteq> u"
  shows "mine (slots sh) t \<inter> mine (slots sh) u = {}"
  using owner_unique [OF assms(1)] assms(2) by (auto simp: mine_def)

text \<open>No two descriptors in use overlap, whichever threads they belong to.\<close>

lemma held_disjoint:
  assumes inv: "huge_inv IV h dl k" and "i \<in> set (dl t)" "j \<in> set (dl u)" "i \<noteq> j" "held (hg_desc h i)" "held (hg_desc h j)"
  shows "drange (hg_desc h i) \<inter> drange (hg_desc h j) = {}"
proof (cases "t = u")
  case True
  then show ?thesis using thread_held_disjoint [OF huge_invD(4) [OF inv, of t]] assms by blast
next
  case False
  then show ?thesis
    using mine_disjoint [OF huge_invD(1) [OF inv] False] thread_invD(5) [OF huge_invD(4) [OF inv]] assms(2,3) by blast
qed

subsection \<open>Search\<close>

lemma trace_list_chain: "chain nx head xs \<Longrightarrow> trace_list nx head = Some xs"
proof (induction xs arbitrary: head)
  case Nil
  then show ?case by (subst trace_list.simps) simp
next
  case (Cons i xs)
  then show ?case by (subst trace_list.simps) simp
qed

lemma huge_trace_eq: "huge_inv IV h dl k \<Longrightarrow> huge_trace t h = Inr (dl t)"
  using trace_list_chain [OF huge_invD(2)] by (simp add: huge_trace_def)

lemma find_first:
  assumes "sorted_wrt (\<lambda>i j. held (D j) \<longrightarrow> drange (D i) \<inter> drange (D j) = {}) is"
    and "i \<in> set is" "held (D i)" "off \<in> drange (D i)"
  shows "List.find (\<lambda>i. desc_contains off (D i)) is = Some i"
  using assms
proof (induction "is")
  case (Cons x xs)
  have c: "desc_contains off (D j) \<longleftrightarrow> off \<in> drange (D j)" for j by (auto simp: desc_contains_def drange_def)
  show ?case
  proof (cases "x = i")
    case True
    then show ?thesis using Cons.prems(4) by (simp add: c)
  next
    case False
    then have "off \<notin> drange (D x)" using Cons.prems by auto
    then show ?thesis using Cons False by (simp add: c)
  qed
qed simp

lemma mine_find:
  assumes "slots_inv sh k" "off \<in> mine (slots sh) t"
  shows "shared_find off sh = Inr (Some t)"
proof -
  have o: "S \<le> off" "owner (slots sh) (off div S - 1) t" using assms(2) by (simp_all add: mine_def)
  note F = owner_find [OF assms(1) o(2)]
  have "0 < off div S" using o(1) div_greater_zero_iff S_pos by blast
  moreover have "off div S < 2 ^ 32" using F(2) by simp
  ultimately show ?thesis using F(1) by (simp add: shared_find_def into_index_def index_from_offset_def index_to_u32_def)
qed

lemma huge_find_ok:
  assumes inv: "huge_inv IV h dl k" and i: "i \<in> set (dl t)" "held (hg_desc h i)" "off \<in> drange (hg_desc h i)"
  shows "huge_find off h = Inr (Some i)"
proof -
  note T = huge_invD(4) [OF inv, of t]
  have "off \<in> mine (slots (hg_shared h)) t" using thread_invD(5) [OF T i(1)] i(3) by blast
  then have "shared_find off (hg_shared h) = Inr (Some t)" using mine_find [OF huge_invD(1) [OF inv]] by blast
  then show ?thesis using find_first [OF thread_invD(7) [OF T] i] by (simp add: huge_find_def huge_trace_eq [OF inv])
qed

subsection \<open>Hazards\<close>

lemma butlast_update:
  assumes "k < length xs" "distinct xs"
  shows "set (butlast (xs[k := last xs])) = set xs - {xs ! k}" and "distinct (butlast (xs[k := last xs]))"
proof -
  obtain as x bs where xs: "xs = as @ x # bs" "length as = k"
    using id_take_nth_drop [OF assms(1)] assms(1) by (metis length_take min.absorb2 less_imp_le_nat)
  then have x: "xs ! k = x" by auto
  have "set (butlast (xs[k := last xs])) = set xs - {x} \<and> distinct (butlast (xs[k := last xs]))"
  proof (cases bs rule: rev_cases)
    case Nil
    then show ?thesis using xs assms(2) by (auto simp: butlast_append)
  next
    case (snoc cs y)
    have "xs[k := last xs] = as @ y # cs @ [y]" using xs by (auto simp: snoc)
    moreover have "distinct (as @ x # cs @ [y])" using assms(2) xs(1) snoc by simp
    moreover have "set xs = set as \<union> {x} \<union> set cs \<union> {y}" using xs(1) by (auto simp: snoc)
    ultimately show ?thesis by (auto simp: butlast_append)
  qed
  then show "set (butlast (xs[k := last xs])) = set xs - {xs ! k}" "distinct (butlast (xs[k := last xs]))"
    by (simp_all add: x)
qed

lemma hazards_valid:
  assumes "hazards_inv D I o'"
  shows "hazard_validate cfg o' = Inr ()"
proof -
  have "None \<notin> set (take (ho_len o') (ho_hazards o'))" using assms by (auto simp: hazards_inv_def)
  moreover have "ho_len o' = card (set (take (ho_len o') (ho_hazards o')))"
    using assms distinct_card [of "take (ho_len o') (ho_hazards o')"] by (simp add: hazards_inv_def)
  ultimately show ?thesis by (simp add: hazard_validate_def)
qed

lemma swap_remove_ok:
  assumes inv: "hazards_inv D I o'"
  shows "\<exists>o1. hazard_swap_remove cfg off o' = Inr (hazard_contains off o', o1) \<and> hazards_inv D I o1 \<and>
    ho_head o1 = ho_head o' \<and> ho_len o1 \<le> ho_len o' \<and> \<not> hazard_contains off o1 \<and>
    (\<forall>x. hazard_contains x o1 \<longrightarrow> hazard_contains x o')"
proof -
  let ?xs = "take (ho_len o') (ho_hazards o')" and ?n = "ho_len o'"
  have I: "length (ho_hazards o') = 1024" "?n \<le> 1024" "distinct ?xs" "length ?xs = ?n"
    using inv by (simp_all add: hazards_inv_def)
  show ?thesis
  proof (cases "position (\<lambda>x. x = Some off) ?xs")
    case None
    then have "Some off \<notin> set ?xs" using position_None [of "\<lambda>x. x = Some off" ?xs] by auto
    then show ?thesis using None inv by (auto simp: hazard_swap_remove_def hazard_contains_def)
  next
    case (Some k)
    then have k: "k < ?n" "?xs ! k = Some off" using position_Some [of "\<lambda>x. x = Some off" ?xs k] I(4) by auto
    let ?o1 = "o'\<lparr>ho_hazards := (ho_hazards o')[k := ho_hazards o' ! (?n - 1), ?n - 1 := None], ho_len := ?n - 1\<rparr>"
    have "last ?xs = ho_hazards o' ! (?n - 1)" using k(1) I(2,4) by (subst last_conv_nth) auto
    then have tk: "take (ho_len ?o1) (ho_hazards ?o1) = butlast (?xs[k := last ?xs])"
      using k(1) I by (simp add: butlast_conv_take take_update_swap list_update_beyond)
    have in_xs: "Some off \<in> set ?xs" using k I(4) by (metis nth_mem)
    note B = butlast_update [of k ?xs, unfolded k(2)]
    have "hazards_inv D I ?o1"
      unfolding hazards_inv_def tk using B k(1) I inv by (auto simp: hazards_inv_def)
    moreover have "hazard_contains x ?o1 \<longleftrightarrow> hazard_contains x o' \<and> x \<noteq> off" for x
      unfolding hazard_contains_def tk using B k(1) I by auto
    moreover have "?n - 1 < 1024" using k(1) I(2) by simp
    then have "hazard_swap_remove cfg off o' = Inr (True, ?o1)"
      using Some k(1) I(1,2) hazards_valid [OF calculation(1), of cfg] by (simp add: hazard_swap_remove_def Let_def)
    ultimately show ?thesis using in_xs by (intro exI [of _ ?o1]) (simp add: hazard_contains_def)
  qed
qed

lemma insert_ok:
  assumes inv: "hazards_inv D I o'" and "ho_len o' < 1024" "i \<in> I" "held (D i)" "\<not> hazard_contains (d_offset (D i)) o'"
  shows "\<exists>o1. hazard_insert cfg (d_offset (D i)) o' = Inr o1 \<and> hazards_inv D I o1 \<and> ho_head o1 = ho_head o' \<and>
    ho_len o1 = ho_len o' + 1"
proof -
  let ?x = "Some (d_offset (D i))"
  let ?o1 = "o'\<lparr>ho_hazards := (ho_hazards o')[ho_len o' := ?x], ho_len := ho_len o' + 1\<rparr>"
  have len: "length (ho_hazards o') = 1024" using inv by (simp add: hazards_inv_def)
  have tk: "take (ho_len ?o1) (ho_hazards ?o1) = take (ho_len o') (ho_hazards o') @ [?x]"
    using assms(2) len by (simp add: take_Suc_conv_app_nth)
  have "hazards_inv D I ?o1"
    unfolding hazards_inv_def tk using assms len by (auto simp: hazards_inv_def hazard_contains_def)
  then show ?thesis using assms(2,5) len hazards_valid [of D I ?o1 cfg]
    by (intro exI [of _ ?o1]) (simp add: hazard_insert_def Let_def)
qed

subsection \<open>Refresh and free\<close>

lemma huge_fields [simp]:
  "hg_desc (set_owned t o' h) = hg_desc h" "hg_alloc (set_owned t o' h) = hg_alloc h"
  "hg_shared (set_owned t o' h) = hg_shared h" "hg_owned (set_owned t o' h) = (hg_owned h)(t := o')"
  "hg_desc (set_desc i d h) = (hg_desc h)(i := d)" "hg_alloc (set_desc i d h) = hg_alloc h"
  "hg_shared (set_desc i d h) = hg_shared h" "hg_owned (set_desc i d h) = hg_owned h"
  "hg_desc (set_alloc t a h) = hg_desc h" "hg_alloc (set_alloc t a h) = (hg_alloc h)(t := a)"
  "hg_shared (set_alloc t a h) = hg_shared h" "hg_owned (set_alloc t a h) = hg_owned h"
  "hg_desc (effect e h) = hg_desc h" "hg_alloc (effect e h) = hg_alloc h"
  "hg_shared (effect e h) = hg_shared h" "hg_owned (effect e h) = hg_owned h"
  "hg_desc (huge_event t ev h) = hg_desc h" "hg_alloc (huge_event t ev h) = hg_alloc h"
  "hg_shared (huge_event t ev h) = hg_shared h" "hg_owned (huge_event t ev h) = hg_owned h"
  by (simp_all add: set_owned_def set_desc_def set_alloc_def effect_def huge_event_def)

lemma dnext_fields [simp]:
  "dnext (set_owned t o' h) = dnext h" "dnext (set_alloc t a h) = dnext h" "dnext (effect e h) = dnext h"
  "dnext (huge_event t ev h) = dnext h" "dnext (h\<lparr>hg_shared := sh\<rparr>) = dnext h"
  "dnext (set_desc i d h) = (dnext h)(i := d_next d)"
  by (auto simp: dnext_def fun_eq_iff)

lemma huge_inv_ignore [simp]:
  "huge_inv IV (effect e h) dl k = huge_inv IV h dl k" "huge_inv IV (huge_event t ev h) dl k = huge_inv IV h dl k"
  by (simp_all add: huge_inv_def)

lemma huge_inv_owned:
  assumes "huge_inv IV h dl k" "hazards_inv (hg_desc h) (\<Union>u. set (dl u)) o1" "ho_head o1 = ho_head (hg_owned h t)"
  shows "huge_inv IV (set_owned t o1 h) dl k"
  using assms by (auto simp: huge_inv_def)

definition same_data :: "'s huge \<Rightarrow> 's huge \<Rightarrow> bool" where
  "same_data h h' \<longleftrightarrow> hg_desc h' = hg_desc h \<and> hg_alloc h' = hg_alloc h \<and> hg_shared h' = hg_shared h \<and>
     (\<forall>u. ho_len (hg_owned h' u) \<le> ho_len (hg_owned h u))"

lemma each_inv:
  assumes "\<And>x s. x \<in> set xs \<Longrightarrow> P s \<Longrightarrow> \<exists>s'. f x s = Inr s' \<and> P s'" and "P s"
  shows "\<exists>s'. each f xs s = Inr s' \<and> P s'"
  using assms
proof (induction xs arbitrary: s)
  case (Cons x xs)
  obtain s1 where "f x s = Inr s1" "P s1" using Cons.prems by (meson list.set_intros(1))
  then show ?case using Cons.IH [of s1] Cons.prems(1) by auto
qed simp

lemma desc_base:
  assumes "huge_inv IV h dl k" "i \<in> set (dl t)"
  shows "S \<le> d_offset (hg_desc h i)" "d_offset (hg_desc h i) \<in> drange (hg_desc h i)"
proof -
  show "d_offset (hg_desc h i) \<in> drange (hg_desc h i)"
    using thread_invD(4) [OF huge_invD(4) [OF assms(1)] assms(2)] by (simp add: drange_def)
  then show "S \<le> d_offset (hg_desc h i)" using thread_invD(5) [OF huge_invD(4) [OF assms(1)] assms(2)] by (auto simp: mine_def)
qed

lemma unmap_ok:
  assumes "huge_inv IV h dl k" "i \<in> set (dl t)"
  shows "\<exists>e. unmap_descriptor cfg i h = Inr (effect e h)"
  using desc_base(1) [OF assms] by (auto simp: unmap_descriptor_def offset_to_u64_def sub_w_in_range)

lemma refresh_one_ok:
  assumes "huge_inv IV h dl k" "i \<in> set (dl u)" "thread_ok t"
  shows "\<exists>h'. refresh_one cfg t i h = Inr h' \<and> huge_inv IV h' dl k \<and> same_data h h'"
proof (cases "d_state (hg_desc h i) = D_Free")
  case True
  obtain o1 where o1: "hazard_swap_remove cfg (d_offset (hg_desc h i)) (hg_owned h t) =
      Inr (hazard_contains (d_offset (hg_desc h i)) (hg_owned h t), o1)"
    "hazards_inv (hg_desc h) (\<Union>u. set (dl u)) o1" "ho_head o1 = ho_head (hg_owned h t)" "ho_len o1 \<le> ho_len (hg_owned h t)"
    using swap_remove_ok [OF huge_invD(5) [OF assms(1,3)]] by blast
  have inv: "huge_inv IV (set_owned t o1 h) dl k" using huge_inv_owned [OF assms(1) o1(2,3)] .
  then show ?thesis using True o1(1,4) unmap_ok [OF inv assms(2), of cfg] by (auto simp: refresh_one_def same_data_def)
qed (use assms(1) in \<open>simp add: refresh_one_def same_data_def\<close>)

lemma refresh_ok:
  assumes "huge_inv IV h dl k" "thread_ok t"
  shows "\<exists>h'. refresh cfg t h = Inr h' \<and> huge_inv IV h' dl k \<and> same_data h h'"
  unfolding refresh_def
proof (rule each_inv)
  fix u h1
  assume "huge_inv IV h1 dl k \<and> same_data h h1"
  then have h1: "huge_inv IV h1 dl k" "same_data h h1" by auto
  have "\<exists>h2. each (refresh_one cfg t) (dl u) h1 = Inr h2 \<and> huge_inv IV h2 dl k \<and> same_data h h2"
  proof (rule each_inv)
    fix i h3 assume "i \<in> set (dl u)" "huge_inv IV h3 dl k \<and> same_data h h3"
    then show "\<exists>h4. refresh_one cfg t i h3 = Inr h4 \<and> huge_inv IV h4 dl k \<and> same_data h h4"
      using refresh_one_ok [of IV h3 dl k i u t cfg] assms(2) by (auto simp: same_data_def) (meson le_trans)
  qed (use h1 in simp)
  then show "\<exists>h2. andthen (huge_trace u h1) (\<lambda>is. each (refresh_one cfg t) is h1) = Inr h2 \<and> huge_inv IV h2 dl k \<and> same_data h h2"
    by (simp add: huge_trace_eq [OF h1(1)])
qed (use assms(1) in \<open>simp add: same_data_def\<close>)

text \<open>Freeing changes only the state of a descriptor that stays in use.\<close>

lemma huge_inv_cong:
  assumes "huge_inv IV h dl k" and "\<And>j. drange (D j) = drange (hg_desc h j) \<and> d_offset (D j) = d_offset (hg_desc h j) \<and>
      d_size (D j) = d_size (hg_desc h j) \<and> d_next (D j) = d_next (hg_desc h j) \<and> held (D j) = held (hg_desc h j)"
  shows "huge_inv IV (h\<lparr>hg_desc := D\<rparr>) dl k"
proof -
  have "dnext (h\<lparr>hg_desc := D\<rparr>) = dnext h" using assms(2) by (simp add: dnext_def fun_eq_iff)
  then show ?thesis using assms by (simp add: huge_inv_def thread_inv_def hazards_inv_def)
qed

end
