(* ===== verification/Huge_Ops.thy ===== *)
theory Huge_Ops
  imports Huge_Inv
begin

text \<open>
  Free, reuse and allocation in the huge heap keep its invariant; an allocation returns a range that
  no descriptor in use overlaps, and the loop that claims address space ends after at most one claim.
\<close>

lemma huge_free_ok:
  assumes inv: "huge_inv IV h dl k" and i: "i \<in> set (dl u)" "held (hg_desc h i)" "off \<in> drange (hg_desc h i)"
    and t: "thread_ok t"
  shows "\<exists>h'. huge_free cfg t off h = Inr h' \<and> huge_inv IV h' dl k \<and>
    hg_desc h' = (hg_desc h)(i := (hg_desc h i)\<lparr>d_state := D_Free\<rparr>)"
proof -
  obtain h1 where h1: "refresh cfg t h = Inr h1" "huge_inv IV h1 dl k" "same_data h h1"
    using refresh_ok [OF inv t] by blast
  have D: "hg_desc h1 = hg_desc h" using h1(3) by (simp add: same_data_def)
  have find: "huge_find off h1 = Inr (Some i)" using huge_find_ok [OF h1(2) i(1)] i D by simp
  let ?h2 = "huge_event t (Ev_Free (d_size (hg_desc h1 i))) h1"
  have inv2: "huge_inv IV ?h2 dl k" using h1(2) by simp
  obtain e where e: "unmap_descriptor cfg i ?h2 = Inr (effect e ?h2)" using unmap_ok [OF inv2 i(1)] by blast
  obtain o1 b where o1: "hazard_swap_remove cfg (d_offset (hg_desc h1 i)) (hg_owned h1 t) = Inr (b, o1)"
    "hazards_inv (hg_desc h1) (\<Union>u. set (dl u)) o1" "ho_head o1 = ho_head (hg_owned h1 t)"
    using swap_remove_ok [OF huge_invD(5) [OF h1(2) t]] by blast
  let ?h4 = "set_owned t o1 (effect e ?h2)"
  have inv4: "huge_inv IV ?h4 dl k" using huge_inv_owned [of IV "effect e ?h2" dl k o1 t] inv2 o1(2,3) by simp
  let ?h5 = "set_desc i ((hg_desc ?h4 i)\<lparr>d_state := D_Free\<rparr>) ?h4"
  have "huge_inv IV ?h5 dl k"
    using huge_inv_cong [OF inv4, of "(hg_desc ?h4)(i := (hg_desc ?h4 i)\<lparr>d_state := D_Free\<rparr>)"] i(2) D
    by (auto simp: set_desc_def drange_def)
  moreover have "huge_free cfg t off h = Inr ?h5"
    using h1(1) find e o1(1) by (simp add: huge_free_def Let_def)
  ultimately show ?thesis by (auto simp: D)
qed

subsection \<open>Reuse\<close>

context interval_laws
begin

lemma uncover_offsets:
  assumes "iv_ok IV F" "0 < n"
  shows "iv_ok IV (iv_extend IV F (iv_of IV p (p + n - 1)))"
    and "free_offsets IV (iv_extend IV F (iv_of IV p (p + n - 1))) = free_offsets IV F \<union> {p + S..<p + S + n}"
proof -
  have le: "p \<le> p + n - 1" using assms(2) by simp
  show "iv_ok IV (iv_extend IV F (iv_of IV p (p + n - 1)))" using assms(1) le by (intro ok_extend ok_of)
  have "iv_set IV (iv_extend IV F (iv_of IV p (p + n - 1))) = iv_set IV F \<union> {p..p + n - 1}"
    using assms(1) le by (simp add: extend_set of_set ok_of)
  moreover have "{p + S..p + n - 1 + S} = {p + S..<p + S + n}" using assms(2) by (auto simp: set_eq_iff)
  ultimately show "free_offsets IV (iv_extend IV F (iv_of IV p (p + n - 1))) = free_offsets IV F \<union> {p + S..<p + S + n}"
    by (simp add: free_offsets_def image_Un)
qed

lemma thread_inv_reclaim:
  assumes inv: "thread_inv IV D ss t is F" and i: "i \<in> set is" "held (D i)"
  defines "p \<equiv> d_offset (D i) - S"
  shows "thread_inv IV (D(i := (D i)\<lparr>d_state := D_Safe\<rparr>)) ss t is (iv_extend IV F (iv_of IV p (p + d_size (D i) - 1)))"
proof -
  have n: "0 < d_size (D i)" using thread_invD(4) [OF inv i(1)] .
  have "d_offset (D i) \<in> drange (D i)" using n by (simp add: drange_def)
  then have base: "S \<le> d_offset (D i)" using thread_invD(5) [OF inv i(1)] by (auto simp: mine_def)
  note U = uncover_offsets [OF thread_invD(1) [OF inv] n, of p]
  have off: "free_offsets IV (iv_extend IV F (iv_of IV p (p + d_size (D i) - 1))) = free_offsets IV F \<union> drange (D i)"
    unfolding U(2) using base by (simp add: p_def drange_def)
  let ?D = "D(i := (D i)\<lparr>d_state := D_Safe\<rparr>)"
  have dr: "drange (?D j) = drange (D j)" for j by (simp add: drange_def)
  have held: "held (?D j) \<longleftrightarrow> held (D j) \<and> j \<noteq> i" for j by simp
  show ?thesis unfolding thread_inv_def off dr held
  proof (intro conjI ballI impI)
    show "drange (D j) \<inter> (free_offsets IV F \<union> drange (D i)) = {}" if "j \<in> set is" "held (D j) \<and> j \<noteq> i" for j
      using thread_held_disjoint [OF inv that(1) i(1)] thread_invD(6) [OF inv that(1)] that(2) i(2) by blast
    show "sorted_wrt (\<lambda>i' j. held (D j) \<and> j \<noteq> i \<longrightarrow> drange (D i') \<inter> drange (D j) = {}) is"
      using thread_invD(7) [OF inv] by (rule sorted_wrt_mono_rel [rotated]) blast
    show "0 < d_size (?D j)" if "j \<in> set is" for j using thread_invD(4) [OF inv that] by auto
  qed (use U(1) thread_invD [OF inv] i(1) in auto)
qed

lemma reclaim_ok:
  assumes inv: "huge_inv IV h dl k" and i: "i \<in> set (dl t)" "held (hg_desc h i)"
    and hz: "\<And>u. thread_ok u \<Longrightarrow> \<not> hazard_contains (d_offset (hg_desc h i)) (hg_owned h u)"
  shows "huge_inv IV (set_desc i ((hg_desc h i)\<lparr>d_state := D_Safe\<rparr>)
    (set_alloc t (uncover IV (d_offset (hg_desc h i) - S) (d_size (hg_desc h i)) (hg_alloc h t)) h)) dl k"
proof -
  let ?D = "(hg_desc h)(i := (hg_desc h i)\<lparr>d_state := D_Safe\<rparr>)"
  let ?h' = "set_desc i ((hg_desc h i)\<lparr>d_state := D_Safe\<rparr>)
    (set_alloc t (uncover IV (d_offset (hg_desc h i) - S) (d_size (hg_desc h i)) (hg_alloc h t)) h)"
  have "thread_inv IV ?D (slots (hg_shared h)) u (dl u) (ha_free (hg_alloc ?h' u))" for u
  proof (cases "u = t")
    case True
    then show ?thesis using thread_inv_reclaim [OF huge_invD(4) [OF inv, of t] i] by (simp add: uncover_def)
  next
    case False
    then have "i \<notin> set (dl u)" using huge_invD(3) [OF inv False] i(1) by blast
    moreover have "sorted_wrt (\<lambda>i' j. held (?D j) \<longrightarrow> drange (?D i') \<inter> drange (?D j) = {}) (dl u)"
      using thread_invD(7) [OF huge_invD(4) [OF inv, of u]]
      by (rule sorted_wrt_mono_rel [rotated]) (use calculation in auto)
    ultimately show ?thesis using huge_invD(4) [OF inv, of u] False by (auto simp: thread_inv_def)
  qed
  moreover have "hazards_inv ?D (\<Union>u. set (dl u)) (hg_owned h u)" if "thread_ok u" for u
  proof -
    have "Some (d_offset (hg_desc h i)) \<notin> set (take (ho_len (hg_owned h u)) (ho_hazards (hg_owned h u)))"
      using hz [OF that] by (simp add: hazard_contains_def)
    then show ?thesis using huge_invD(5) [OF inv that] unfolding hazards_inv_def by fastforce
  qed
  moreover have "dnext ?h' = dnext h" by (auto simp: dnext_def fun_eq_iff)
  ultimately show ?thesis using inv by (simp add: huge_inv_def)
qed

end

lemma each_append: "each f (xs @ ys) s = andthen (each f xs s) (each f ys)"
proof (induction xs arbitrary: s)
  case (Cons x xs)
  then show ?case by (cases "f x s") simp_all
qed simp

lemma find_append: "List.find P (xs @ ys) = (case List.find P xs of None \<Rightarrow> List.find P ys | Some x \<Rightarrow> Some x)"
  by (induction xs) simp_all

lemma find_cong: "(\<And>x. x \<in> set xs \<Longrightarrow> P x = Q x) \<Longrightarrow> List.find P xs = List.find Q xs"
  by (induction xs) auto

context interval_laws
begin

lemma reuse_one_ok:
  assumes inv: "huge_inv IV h dl k" and t: "x \<in> set (dl t)"
  shows "\<exists>h'. reuse_one IV cfg t x (safe, h) =
      Inr (if held (hg_desc h' x) then safe else case safe of None \<Rightarrow> Some x | Some j \<Rightarrow> Some j, h') \<and>
    huge_inv IV h' dl k \<and> hg_shared h' = hg_shared h \<and> hg_owned h' = hg_owned h \<and>
    (\<forall>j. j \<noteq> x \<or> held (hg_desc h' j) \<or> d_state (hg_desc h j) = D_Live \<longrightarrow> hg_desc h' j = hg_desc h j) \<and>
    (\<forall>u. ha_index (hg_alloc h' u) = ha_index (hg_alloc h u))"
proof (cases "d_state (hg_desc h x)")
  case D_Free
  show ?thesis
  proof (cases "\<exists>u\<in>set [1..<COUNT_THREAD + 1]. hazard_contains (d_offset (hg_desc h x)) (hg_owned h u)")
    case True
    then show ?thesis using D_Free inv by (simp add: reuse_one_def Let_def del: upt_Suc)
  next
    case False
    then have hz: "\<not> hazard_contains (d_offset (hg_desc h x)) (hg_owned h u)" if "thread_ok u" for u
      using that by (auto simp: thread_ok_def simp del: upt_Suc)
    let ?h' = "set_desc x ((hg_desc h x)\<lparr>d_state := D_Safe\<rparr>)
      (set_alloc t (uncover IV (d_offset (hg_desc h x) - S) (d_size (hg_desc h x)) (hg_alloc h t)) h)"
    have "huge_inv IV ?h' dl k" using reclaim_ok [OF inv t] D_Free hz by simp
    moreover have "reuse_one IV cfg t x (safe, h) = Inr (case safe of None \<Rightarrow> Some x | Some j \<Rightarrow> Some j, ?h')"
      using D_Free False desc_base(1) [OF inv t]
      by (simp add: reuse_one_def Let_def offset_to_u64_def sub_w_in_range del: upt_Suc)
    ultimately show ?thesis using D_Free by (intro exI [of _ ?h']) (auto simp: uncover_def)
  qed
qed (use inv in \<open>simp_all add: reuse_one_def Let_def\<close>)

lemma reuse_prefix:
  assumes inv: "huge_inv IV h dl k"
  shows "set p \<subseteq> set (dl t) \<Longrightarrow> distinct p \<Longrightarrow>
    \<exists>h'. each (reuse_one IV cfg t) p (None, h) = Inr (List.find (\<lambda>i. \<not> held (hg_desc h' i)) p, h') \<and>
      huge_inv IV h' dl k \<and> hg_shared h' = hg_shared h \<and> hg_owned h' = hg_owned h \<and>
      (\<forall>j. j \<notin> set p \<or> held (hg_desc h' j) \<or> d_state (hg_desc h j) = D_Live \<longrightarrow> hg_desc h' j = hg_desc h j) \<and>
      (\<forall>u. ha_index (hg_alloc h' u) = ha_index (hg_alloc h u))"
proof (induction p rule: rev_induct)
  case Nil
  then show ?case using inv by simp
next
  case (snoc x p)
  obtain h1 where h1: "each (reuse_one IV cfg t) p (None, h) = Inr (List.find (\<lambda>i. \<not> held (hg_desc h1 i)) p, h1)"
    "huge_inv IV h1 dl k" "hg_shared h1 = hg_shared h" "hg_owned h1 = hg_owned h"
    "\<And>j. j \<notin> set p \<or> held (hg_desc h1 j) \<or> d_state (hg_desc h j) = D_Live \<Longrightarrow> hg_desc h1 j = hg_desc h j"
    "\<And>u. ha_index (hg_alloc h1 u) = ha_index (hg_alloc h u)"
    using snoc by fastforce
  let ?safe = "List.find (\<lambda>i. \<not> held (hg_desc h1 i)) p"
  obtain h2 where h2: "reuse_one IV cfg t x (?safe, h1) =
      Inr (if held (hg_desc h2 x) then ?safe else case ?safe of None \<Rightarrow> Some x | Some j \<Rightarrow> Some j, h2)"
    "huge_inv IV h2 dl k" "hg_shared h2 = hg_shared h1" "hg_owned h2 = hg_owned h1"
    "\<And>j. j \<noteq> x \<or> held (hg_desc h2 j) \<or> d_state (hg_desc h1 j) = D_Live \<Longrightarrow> hg_desc h2 j = hg_desc h1 j"
    "\<And>u. ha_index (hg_alloc h2 u) = ha_index (hg_alloc h1 u)"
    using reuse_one_ok [OF h1(2), of x t cfg ?safe] snoc.prems(1) by auto
  have "x \<notin> set p" using snoc.prems(2) by simp
  then have "List.find (\<lambda>i. \<not> held (hg_desc h2 i)) p = ?safe" using h2(5) by (intro find_cong) metis
  then have "List.find (\<lambda>i. \<not> held (hg_desc h2 i)) (p @ [x]) =
      (if held (hg_desc h2 x) then ?safe else case ?safe of None \<Rightarrow> Some x | Some j \<Rightarrow> Some j)"
    by (auto simp: find_append split: option.splits)
  moreover have "hg_desc h2 j = hg_desc h j" if "j \<notin> set (p @ [x]) \<or> held (hg_desc h2 j) \<or> d_state (hg_desc h j) = D_Live" for j
    using that h2(5) [of j] h1(5) [of j] by (metis Un_iff set_append list.set_intros(1))
  ultimately show ?case using h1(1) h2 h1(3,4,6) by (intro exI [of _ h2]) (simp add: each_append)
qed

lemma huge_reuse_ok:
  assumes inv: "huge_inv IV h dl k"
  shows "\<exists>h'. huge_reuse IV cfg t h = Inr (List.find (\<lambda>i. \<not> held (hg_desc h' i)) (dl t), h') \<and>
    huge_inv IV h' dl k \<and> hg_shared h' = hg_shared h \<and> hg_owned h' = hg_owned h \<and>
    (\<forall>j. held (hg_desc h' j) \<or> d_state (hg_desc h j) = D_Live \<longrightarrow> hg_desc h' j = hg_desc h j) \<and>
    (\<forall>u. ha_index (hg_alloc h' u) = ha_index (hg_alloc h u))"
proof -
  have "distinct (dl t)" using thread_invD(3) [OF huge_invD(4) [OF inv]] .
  from reuse_prefix [OF inv subset_refl this] show ?thesis
    unfolding huge_reuse_def huge_trace_eq [OF inv] by fastforce
qed

subsection \<open>Taking a range\<close>

lemma thread_inv_shrink:
  assumes "thread_inv IV D ss t is F" "iv_ok IV F'" "free_offsets IV F' \<subseteq> free_offsets IV F"
  shows "thread_inv IV D ss t is F'"
  using assms unfolding thread_inv_def by blast

lemma cover_ok:
  assumes "iv_ok IV (ha_free a)" "0 < n" "{l..l + n - 1} \<subseteq> iv_set IV (ha_free a)"
  shows "\<exists>F. cover IV l n a = Inr (a\<lparr>ha_free := F\<rparr>) \<and> iv_ok IV F \<and>
    free_offsets IV F = free_offsets IV (ha_free a) - {l + S..<l + S + n}"
proof -
  have le: "l \<le> l + n - 1" using assms(2) by simp
  let ?F = "iv_diff IV (ha_free a) (iv_of IV l (l + n - 1))"
  have "iv_set IV ?F = iv_set IV (ha_free a) - {l..l + n - 1}" using assms(1) le by (simp add: diff_set of_set ok_of)
  moreover have "{l + S..l + n - 1 + S} = {l + S..<l + S + n}" using assms(2) by (auto simp: set_eq_iff)
  moreover have "inj (\<lambda>p. p + S)" by (simp add: inj_def)
  ultimately have "free_offsets IV ?F = free_offsets IV (ha_free a) - {l + S..<l + S + n}"
    by (simp add: free_offsets_def image_set_diff)
  moreover have "iv_ok IV ?F" using assms(1) le by (intro ok_diff ok_of)
  moreover have "cover IV l n a = Inr (a\<lparr>ha_free := ?F\<rparr>)"
    using inter_size [OF assms(1) le] assms(3) by (simp add: cover_def Let_def)
  ultimately show ?thesis by blast
qed

lemma mine_bound: "slots_inv sh k \<Longrightarrow> off \<in> mine (slots sh) t \<Longrightarrow> off < 2 ^ 41"
  using owner_find(2) [of sh k "off div S - 1" t] by (auto simp: mine_def S_value div_less_iff_less_mult)

end

text \<open>What the loop hands back: a range of the requested size in the thread's own address space.\<close>

definition fresh_range :: "'s interval_ops \<Rightarrow> (nat \<Rightarrow> nat list) \<Rightarrow> nat \<Rightarrow> nat \<Rightarrow> descriptor \<Rightarrow> 's huge \<Rightarrow> bool" where
  "fresh_range IV dl t n d h \<longleftrightarrow> d_size d = n \<and> S \<le> d_offset d \<and> drange d \<subseteq> mine (slots (hg_shared h)) t \<and>
     drange d \<inter> free_offsets IV (ha_free (hg_alloc h t)) = {} \<and>
     (\<forall>i\<in>set (dl t). held (hg_desc h i) \<longrightarrow> drange (hg_desc h i) \<inter> drange d = {})"

context interval_laws
begin

lemma take_range_ok:
  assumes inv: "huge_inv IV h dl k" and n: "0 < n" and idx: "ha_index (hg_alloc h t) + 1 < 2 ^ 64"
    and find: "List.find (\<lambda>x. n \<le> interval_size x) (iv_iter IV (ha_free (hg_alloc h t))) = Some x"
  shows "\<exists>d a. halloc_allocate IV cfg n (hg_alloc h t) = Inr (Some d, a) \<and> huge_inv IV (set_alloc t a h) dl k \<and>
    fresh_range IV dl t n d (set_alloc t a h) \<and> ha_index a = ha_index (hg_alloc h t) + 1"
proof -
  let ?a = "hg_alloc h t" and ?l = "fst x"
  note T = huge_invD(4) [OF inv, of t]
  have ok: "iv_ok IV (ha_free ?a)" using thread_invD(1) [OF T] .
  have x: "x \<in> set (iv_iter IV (ha_free ?a))" "n \<le> interval_size x" using find by (auto simp: find_Some_iff)
  have xs: "{?l..snd x} \<subseteq> iv_set IV (ha_free ?a)" "?l \<le> snd x"
    using x(1) iter_set [of ?l "snd x"] iter_le [OF ok, of ?l "snd x"] by simp_all
  moreover have "?l + n - 1 \<le> snd x" using x(2) xs(2) unfolding interval_size_def by arith
  ultimately have sub: "{?l..?l + n - 1} \<subseteq> iv_set IV (ha_free ?a)" by auto
  obtain F where F: "cover IV ?l n ?a = Inr (?a\<lparr>ha_free := F\<rparr>)" "iv_ok IV F"
    "free_offsets IV F = free_offsets IV (ha_free ?a) - {?l + S..<?l + S + n}" using cover_ok [OF ok n sub] by blast
  have mem: "{?l + S..<?l + S + n} \<subseteq> free_offsets IV (ha_free ?a)"
  proof
    fix off assume "off \<in> {?l + S..<?l + S + n}"
    then have "off - S \<in> {?l..?l + n - 1}" "S \<le> off" by auto
    then show "off \<in> free_offsets IV (ha_free ?a)" using sub by (auto simp: mem_free_offsets)
  qed
  then have "?l + S < 2 ^ 41"
    using n thread_invD(2) [OF T] mine_bound [OF huge_invD(1) [OF inv]] by (metis atLeastLessThan_iff le_refl less_add_same_cancel1 subsetD)
  then have big: "?l + S < 2 ^ 64" by simp
  let ?d = "\<lparr>d_index = ha_index ?a + 1, d_offset = ?l + S, d_size = n, d_next = None, d_state = D_Live\<rparr>"
  let ?a' = "?a\<lparr>ha_free := F, ha_index := ha_index ?a + 1\<rparr>"
  have dr: "drange ?d = {?l + S..<?l + S + n}" by (simp add: drange_def)
  have "halloc_allocate IV cfg n ?a = Inr (Some ?d, ?a')"
    using find F(1) idx big by (simp add: halloc_allocate_def offset_to_offset_def add_w_in_range)
  moreover have "thread_inv IV (hg_desc h) (slots (hg_shared h)) t (dl t) F"
    using thread_inv_shrink [OF T F(2)] F(3) by blast
  then have "huge_inv IV (set_alloc t ?a' h) dl k" using inv by (auto simp: huge_inv_def)
  moreover have "fresh_range IV dl t n ?d (set_alloc t ?a' h)"
    unfolding fresh_range_def dr using mem F(3) thread_invD(2,6) [OF T] by (auto simp: disjoint_iff)
  ultimately show ?thesis by (intro exI [of _ ?d] exI [of _ ?a']) simp
qed

lemma thread_inv_owner:
  assumes "thread_inv IV D ss t is F" and "\<And>s. owner ss s t \<Longrightarrow> owner ss' s t"
  shows "thread_inv IV D ss' t is F"
proof -
  have "mine ss t \<subseteq> mine ss' t" using assms(2) by (auto simp: mine_def)
  then show ?thesis using assms(1) unfolding thread_inv_def by blast
qed

lemma huge_claim_ok:
  assumes inv: "huge_inv IV h dl k" and n: "0 < n" and room: "k + slot_count n \<le> 1024"
  shows "\<exists>h1. huge_claim IV t n h = Inr h1 \<and> huge_inv IV h1 dl (k + slot_count n) \<and> hg_desc h1 = hg_desc h \<and>
    hg_owned h1 = hg_owned h \<and> (\<forall>u. ha_index (hg_alloc h1 u) = ha_index (hg_alloc h u)) \<and>
    {k * S..k * S + slot_count n * S - 1} \<subseteq> iv_set IV (ha_free (hg_alloc h1 t))"
proof -
  let ?c = "slot_count n" and ?F = "ha_free (hg_alloc h t)"
  note sl = huge_invD(1) [OF inv] and T = huge_invD(4) [OF inv]
  obtain sh where sh: "shared_claim t n (hg_shared h) = Inr ((k + 1, ?c), sh)" "slots_inv sh (k + ?c)"
    "\<And>s u. owner (slots sh) s u \<longleftrightarrow> owner (slots (hg_shared h)) s u \<or> u = t \<and> k \<le> s \<and> s < k + ?c"
    using shared_claim_ok [OF sl n room, of t] by blast
  let ?G = "iv_extend IV ?F (iv_of IV (k * S) (k * S + ?c * S - 1))"
  let ?h1 = "set_alloc t ((hg_alloc h t)\<lparr>ha_free := ?G\<rparr>) (h\<lparr>hg_shared := sh\<rparr>)"
  have cS: "0 < ?c * S" using slot_count_pos [OF n] by simp
  note U = uncover_offsets [OF thread_invD(1) [OF T] cS, of t "k * S"]
  have new: "k \<le> off div S - 1 \<and> off div S - 1 < k + ?c \<and> S \<le> off" if "off \<in> {k * S + S..<k * S + S + ?c * S}" for off
  proof -
    have "(k + 1) * S \<le> off" "off < (k + ?c + 1) * S" using that by (auto simp: algebra_simps)
    then have "k + 1 \<le> off div S" "off div S < k + ?c + 1"
      by (simp_all add: less_eq_div_iff_mult_less_eq div_less_iff_less_mult)
    then show ?thesis using that by auto
  qed
  have mono: "thread_inv IV (hg_desc h) (slots sh) u (dl u) (ha_free (hg_alloc h u))" for u
    using thread_inv_owner [OF T] sh(3) by blast
  have "drange (hg_desc h i) \<inter> {k * S + S..<k * S + S + ?c * S} = {}" if "i \<in> set (dl t)" for i
    using thread_invD(5) [OF T that] new owner_find(3) [OF sl] by (force simp: mine_def)
  moreover have "{k * S + S..<k * S + S + ?c * S} \<subseteq> mine (slots sh) t" using new sh(3) by (auto simp: mine_def)
  ultimately have "thread_inv IV (hg_desc h) (slots sh) t (dl t) ?G"
    using mono [of t] U unfolding thread_inv_def U(2) by blast
  then have "huge_inv IV ?h1 dl (k + ?c)"
    using inv mono sh(2) by (auto simp: huge_inv_def)
  moreover have "huge_claim IV t n h = Inr ?h1"
    using sh(1) by (simp add: huge_claim_def halloc_claim_def uncover_def index_to_u32_def)
  moreover have le: "k * S \<le> k * S + ?c * S - 1" using cS by linarith
  have "iv_set IV ?G = iv_set IV ?F \<union> {k * S..k * S + ?c * S - 1}"
    unfolding extend_set [OF thread_invD(1) [OF T] ok_of [OF le]] of_set [OF le] ..
  ultimately show ?thesis by (intro exI [of _ ?h1]) simp
qed

text \<open>The loop ends: it takes a range at once, or after one claim, or the slots are used up.\<close>

lemma alloc_loop_ok:
  assumes inv: "huge_inv IV h dl k" and n: "0 < n" and idx: "ha_index (hg_alloc h t) + 1 < 2 ^ 64"
  shows "(\<exists>d h' k'. alloc_loop IV cfg t n h = Some (Inr (d, h')) \<and> huge_inv IV h' dl k' \<and> hg_desc h' = hg_desc h \<and>
      hg_owned h' = hg_owned h \<and> fresh_range IV dl t n d h' \<and> k' \<le> k + slot_count n \<and>
      (\<forall>u. ha_index (hg_alloc h' u) \<le> ha_index (hg_alloc h u) + 1)) \<or>
    alloc_loop IV cfg t n h = Some (Inl (Explicit ''Out of virtual address space'')) \<and> 1024 < k + slot_count n"
proof -
  have hit: "\<exists>d h'. alloc_loop IV cfg t n h1 = Some (Inr (d, h')) \<and> huge_inv IV h' dl j \<and> hg_desc h' = hg_desc h1 \<and>
      hg_owned h' = hg_owned h1 \<and> fresh_range IV dl t n d h' \<and> (\<forall>u. ha_index (hg_alloc h' u) \<le> ha_index (hg_alloc h1 u) + 1)"
    if hyp: "huge_inv IV h1 dl j" "ha_index (hg_alloc h1 t) + 1 < 2 ^ 64"
      "List.find (\<lambda>x. n \<le> interval_size x) (iv_iter IV (ha_free (hg_alloc h1 t))) = Some x" for h1 j x
  proof -
    obtain d a where "halloc_allocate IV cfg n (hg_alloc h1 t) = Inr (Some d, a)" "huge_inv IV (set_alloc t a h1) dl j"
      "fresh_range IV dl t n d (set_alloc t a h1)" "ha_index a = ha_index (hg_alloc h1 t) + 1" using take_range_ok [OF hyp(1) n hyp(2,3), of cfg] by blast
    then show ?thesis by (intro exI [of _ d] exI [of _ "set_alloc t a h1"]) (subst alloc_loop.simps, simp)
  qed
  show ?thesis
  proof (cases "List.find (\<lambda>x. n \<le> interval_size x) (iv_iter IV (ha_free (hg_alloc h t)))")
    case (Some x)
    then show ?thesis using hit [OF inv idx Some] le_add1 [of k "slot_count n"] by blast
  next
    case None
    then have miss: "halloc_allocate IV cfg n (hg_alloc h t) = Inr (None, hg_alloc h t)" by (simp add: halloc_allocate_def)
    show ?thesis
    proof (cases "k + slot_count n \<le> 1024")
      case True
      obtain h1 where h1: "huge_claim IV t n h = Inr h1" "huge_inv IV h1 dl (k + slot_count n)" "hg_desc h1 = hg_desc h"
        "hg_owned h1 = hg_owned h" "\<forall>u. ha_index (hg_alloc h1 u) = ha_index (hg_alloc h u)"
        "{k * S..k * S + slot_count n * S - 1} \<subseteq> iv_set IV (ha_free (hg_alloc h1 t))"
        using huge_claim_ok [OF inv n True, of t] by blast
      have cS: "n \<le> slot_count n * S" "0 < slot_count n * S" using slot_count_le slot_count_pos [OF n] by simp_all
      have "k * S \<le> k * S + slot_count n * S - 1" using cS(2) by linarith
      then obtain l hi where x: "(l, hi) \<in> set (iv_iter IV (ha_free (hg_alloc h1 t)))" "l \<le> k * S" "k * S + slot_count n * S - 1 \<le> hi"
        using iter_range [OF thread_invD(1) [OF huge_invD(4) [OF h1(2)]] _ h1(6)] by auto
      then have "n \<le> interval_size (l, hi)" using cS unfolding interval_size_def fst_conv snd_conv by linarith
      then obtain y where "List.find (\<lambda>x. n \<le> interval_size x) (iv_iter IV (ha_free (hg_alloc h1 t))) = Some y"
        using x(1) by (metis find_None_iff option.exhaust)
      then have "\<exists>d h'. alloc_loop IV cfg t n h1 = Some (Inr (d, h')) \<and> huge_inv IV h' dl (k + slot_count n) \<and>
          hg_desc h' = hg_desc h1 \<and> hg_owned h' = hg_owned h1 \<and> fresh_range IV dl t n d h' \<and>
          (\<forall>u. ha_index (hg_alloc h' u) \<le> ha_index (hg_alloc h1 u) + 1)"
        using hit [OF h1(2)] h1(5) idx by simp
      moreover have "alloc_loop IV cfg t n h = alloc_loop IV cfg t n h1"
        using miss h1(1) by (subst alloc_loop.simps) simp
      ultimately show ?thesis unfolding h1(3,4) using h1(5) by auto
    next
      case False
      then have "shared_claim t n (hg_shared h) = Inl (Explicit ''Out of virtual address space'')"
        using shared_claim_full [OF huge_invD(1) [OF inv] n] by simp
      then have "alloc_loop IV cfg t n h = Some (Inl (Explicit ''Out of virtual address space''))"
        using miss by (subst alloc_loop.simps) (simp add: huge_claim_def)
      with False show ?thesis by simp
    qed
  qed
qed

end

subsection \<open>Installing the descriptor\<close>

text \<open>The list of the thread after the descriptor is installed: the same when one is reused.\<close>

definition linked_list :: "bool \<Rightarrow> nat \<Rightarrow> nat list \<Rightarrow> nat list" where
  "linked_list reuse out is = (if reuse then is else out # is)"

definition slot_for :: "bool \<Rightarrow> nat \<Rightarrow> (nat \<Rightarrow> nat list) \<Rightarrow> nat \<Rightarrow> (nat \<Rightarrow> descriptor) \<Rightarrow> bool" where
  "slot_for reuse out dl t D \<longleftrightarrow> (if reuse then List.find (\<lambda>i. \<not> held (D i)) (dl t) = Some out else \<forall>u. out \<notin> set (dl u))"

lemma find_split: "List.find P xs = Some x \<Longrightarrow> \<exists>ys zs. xs = ys @ x # zs \<and> P x \<and> (\<forall>y\<in>set ys. \<not> P y)"
proof (induction xs)
  case (Cons y xs)
  show ?case
  proof (cases "P y")
    case True
    then show ?thesis using Cons.prems by (intro exI [of _ "[]"] exI [of _ xs]) simp
  next
    case False
    then obtain ys zs where "xs = ys @ x # zs" "P x" "\<forall>y\<in>set ys. \<not> P y" using Cons.IH Cons.prems by auto
    then show ?thesis using False by (intro exI [of _ "y # ys"] exI [of _ zs]) simp
  qed
qed simp

lemma thread_inv_install:
  assumes inv: "thread_inv IV D ss t is F" and slot: "if reuse then List.find (\<lambda>i. \<not> held (D i)) is = Some out else out \<notin> set is"
    and d: "0 < d_size d" "drange d \<subseteq> mine ss t" "drange d \<inter> free_offsets IV F = {}"
    and disj: "\<And>i. i \<in> set is \<Longrightarrow> held (D i) \<Longrightarrow> drange (D i) \<inter> drange d = {}"
  shows "thread_inv IV (D(out := d)) ss t (linked_list reuse out is) F"
proof -
  obtain xs ys where split: "linked_list reuse out is = xs @ out # ys" "\<forall>i\<in>set xs. held (D i)" "set xs \<union> set ys \<subseteq> set is"
    "sorted_wrt (\<lambda>i j. held (D j) \<longrightarrow> drange (D i) \<inter> drange (D j) = {}) (xs @ ys)" "distinct (xs @ out # ys)"
  proof (cases reuse)
    case True
    then obtain ys zs where "is = ys @ out # zs" "\<forall>i\<in>set ys. held (D i)" using slot find_split [of "\<lambda>i. \<not> held (D i)" "is" out] by auto
    moreover have "sorted_wrt (\<lambda>i j. held (D j) \<longrightarrow> drange (D i) \<inter> drange (D j) = {}) (ys @ zs)"
      using thread_invD(7) [OF inv] calculation(1) by (simp add: sorted_wrt_append)
    ultimately show thesis using that [of ys zs] True thread_invD(3) [OF inv] by (auto simp: linked_list_def)
  next
    case False
    then show thesis using that [of "[]" "is"] slot thread_invD(3,7) [OF inv] by (simp add: linked_list_def)
  qed
  let ?D = "D(out := d)"
  have other: "?D i = D i" if "i \<in> set xs \<union> set ys" for i using that split(5) by auto
  have "sorted_wrt (\<lambda>i j. held (?D j) \<longrightarrow> drange (?D i) \<inter> drange (?D j) = {}) (xs @ ys)"
    using split(4) by (rule sorted_wrt_mono_rel [rotated]) (use other in auto)
  moreover have "drange (D i) \<inter> drange d = {}" if "i \<in> set xs \<union> set ys" "held (D i)" for i
    using disj split(3) that by blast
  ultimately have "sorted_wrt (\<lambda>i j. held (?D j) \<longrightarrow> drange (?D i) \<inter> drange (?D j) = {}) (xs @ out # ys)"
    using split(2,5) by (auto simp: sorted_wrt_append Int_commute)
  then show ?thesis
    using inv d split(3,5) unfolding thread_inv_def split(1) by auto
qed

text \<open>The state after the new descriptor is written and, unless reused, linked.\<close>

definition installed :: "bool \<Rightarrow> nat \<Rightarrow> nat \<Rightarrow> descriptor \<Rightarrow> 's huge \<Rightarrow> 's huge" where
  "installed reuse t out d h =
     (let h1 = set_desc out d h in
      if reuse then h1
      else set_owned t ((hg_owned h1 t)\<lparr>ho_head := Some out\<rparr>) (set_desc out (d\<lparr>d_next := ho_head (hg_owned h1 t)\<rparr>) h1))"

definition growth :: "'s huge \<Rightarrow> 's huge \<Rightarrow> bool" where
  "growth h h' \<longleftrightarrow> (\<forall>u. ho_len (hg_owned h' u) \<le> ho_len (hg_owned h u) + 1 \<and> ha_index (hg_alloc h' u) \<le> ha_index (hg_alloc h u) + 1)"

context interval_laws
begin

lemma fresh_disjoint:
  assumes inv: "huge_inv IV h dl k" and fresh: "fresh_range IV dl t n d h" and i: "i \<in> set (dl u)" "held (hg_desc h i)"
  shows "drange (hg_desc h i) \<inter> drange d = {}"
proof (cases "u = t")
  case True
  then show ?thesis using fresh i by (auto simp: fresh_range_def)
next
  case False
  have "drange d \<subseteq> mine (slots (hg_shared h)) t" using fresh by (auto simp: fresh_range_def)
  then show ?thesis using mine_disjoint [OF huge_invD(1) [OF inv] False] thread_invD(5) [OF huge_invD(4) [OF inv] i(1)] by blast
qed

lemma fresh_not_hazard:
  assumes inv: "huge_inv IV h dl k" and fresh: "fresh_range IV dl t n d h" and n: "0 < n" and u: "thread_ok u"
  shows "\<not> hazard_contains (d_offset d) (hg_owned h u)"
proof
  assume "hazard_contains (d_offset d) (hg_owned h u)"
  then have "Some (d_offset d) \<in> set (take (ho_len (hg_owned h u)) (ho_hazards (hg_owned h u)))"
    by (auto simp: hazard_contains_def)
  then obtain i v where i: "i \<in> set (dl v)" "held (hg_desc h i)" "d_offset d = d_offset (hg_desc h i)"
    using huge_invD(5) [OF inv u] unfolding hazards_inv_def by auto
  have "d_offset d \<in> drange d" using n fresh by (simp add: drange_def fresh_range_def)
  then show False using fresh_disjoint [OF inv fresh i(1,2)] desc_base(2) [OF inv i(1)] i(3) by auto
qed

lemma thread_inv_elsewhere:
  assumes inv: "thread_inv IV D ss u l fr" and i: "i \<notin> set l"
  shows "thread_inv IV (D(i := d)) ss u l fr"
proof -
  have "sorted_wrt (\<lambda>a b. held ((D(i := d)) b) \<longrightarrow> drange ((D(i := d)) a) \<inter> drange ((D(i := d)) b) = {}) l"
    using thread_invD(7) [OF inv] by (rule sorted_wrt_mono_rel [rotated]) (use i in auto)
  then show ?thesis using inv i by (auto simp: thread_inv_def)
qed

lemma install_ok:
  assumes inv: "huge_inv IV h dl k" and slot: "slot_for reuse out dl t (hg_desc h)"
    and fresh: "fresh_range IV dl t n d h" and n: "0 < n" and d': "d_offset d' = d_offset d" "d_size d' = n" "d_state d' = D_Live"
      "reuse \<Longrightarrow> d_next d' = d_next (hg_desc h out)"
  defines "dl' \<equiv> dl(t := linked_list reuse out (dl t))"
  shows "huge_inv IV (installed reuse t out d' h) dl' k"
    and "\<And>u i. i \<in> set (dl u) \<Longrightarrow> held (hg_desc h i) \<Longrightarrow> drange (hg_desc h i) \<inter> drange d' = {}"
    and "\<And>u. thread_ok u \<Longrightarrow> \<not> hazard_contains (d_offset d') (hg_owned (installed reuse t out d' h) u)"
proof -
  let ?h' = "installed reuse t out d' h"
  have dr: "drange d' = drange d" using d'(1,2) fresh by (simp add: drange_def fresh_range_def)
  have F: "drange d' \<subseteq> mine (slots (hg_shared h)) t" "drange d' \<inter> free_offsets IV (ha_free (hg_alloc h t)) = {}"
    "\<And>i. i \<in> set (dl t) \<Longrightarrow> held (hg_desc h i) \<Longrightarrow> drange (hg_desc h i) \<inter> drange d' = {}"
    using fresh by (auto simp: fresh_range_def dr)
  show "drange (hg_desc h i) \<inter> drange d' = {}" if "i \<in> set (dl u)" "held (hg_desc h i)" for u i
    using fresh_disjoint [OF inv fresh that] dr by simp
  have nheld: "i \<noteq> out" if "i \<in> set (dl u)" "held (hg_desc h i)" for i u
    using slot that by (auto simp: slot_for_def find_Some_iff split: if_splits)
  show "\<not> hazard_contains (d_offset d') (hg_owned ?h' u)" if u: "thread_ok u" for u
    using fresh_not_hazard [OF inv fresh n u] d'(1)
    by (auto simp: hazard_contains_def installed_def Let_def split: if_splits)
  obtain d2 where d2: "hg_desc ?h' = (hg_desc h)(out := d2)" "drange d2 = drange d'" "d_size d2 = n" "d_state d2 = D_Live" "d_offset d2 = d_offset d'"
    "dnext ?h' = (if reuse then dnext h else (dnext h)(out := ho_head (hg_owned h t)))"
    using d' by (cases reuse) (auto simp: installed_def Let_def drange_def dnext_def fun_eq_iff)
  have frame: "hg_alloc ?h' = hg_alloc h" "hg_shared ?h' = hg_shared h" "ho_len (hg_owned ?h' u) = ho_len (hg_owned h u)"
    "ho_hazards (hg_owned ?h' u) = ho_hazards (hg_owned h u)"
    "ho_head (hg_owned ?h' u) = (if u = t \<and> \<not> reuse then Some out else ho_head (hg_owned h u))" for u
    by (auto simp: installed_def Let_def)
  have out_u: "out \<notin> set (dl u)" if "u \<noteq> t" for u
  proof (cases reuse)
    case True
    then have "out \<in> set (dl t)" using slot by (auto simp: slot_for_def find_Some_iff)
    then show ?thesis using huge_invD(3) [OF inv that] by blast
  qed (use slot in \<open>simp add: slot_for_def\<close>)
  have "thread_inv IV (hg_desc ?h') (slots (hg_shared h)) u (dl' u) (ha_free (hg_alloc h u))" for u
  proof (cases "u = t")
    case True
    have "thread_inv IV ((hg_desc h)(out := d2)) (slots (hg_shared h)) t (linked_list reuse out (dl t)) (ha_free (hg_alloc h t))"
      using huge_invD(4) [OF inv, of t] slot F d2(2,3) n
      by (intro thread_inv_install) (auto simp: slot_for_def)
    then show ?thesis using True by (simp add: d2(1) dl'_def)
  next
    case False
    then show ?thesis using thread_inv_elsewhere [OF huge_invD(4) [OF inv, of u] out_u] by (simp add: d2(1) dl'_def)
  qed
  moreover have "hazards_inv (hg_desc ?h') (\<Union>u. set (dl' u)) (hg_owned ?h' u)" if "thread_ok u" for u
  proof -
    have sub: "(\<Union>u. set (dl u)) \<subseteq> (\<Union>u. set (dl' u))" by (auto simp: dl'_def linked_list_def)
    have "{Some (d_offset (hg_desc h i)) | i. i \<in> (\<Union>u. set (dl u)) \<and> held (hg_desc h i)}
        \<subseteq> {Some (d_offset (hg_desc ?h' i)) | i. i \<in> (\<Union>u. set (dl' u)) \<and> held (hg_desc ?h' i)}"
      using sub nheld unfolding d2(1) by force
    then show ?thesis using huge_invD(5) [OF inv that] unfolding hazards_inv_def frame by blast
  qed
  moreover have "chain (dnext ?h') (ho_head (hg_owned ?h' u)) (dl' u)" for u
    unfolding frame(5) d2(6) using huge_invD(2) [OF inv, of u] out_u [of u] slot
    by (cases "u = t"; cases reuse) (auto simp: dl'_def linked_list_def slot_for_def)
  moreover have "set (dl' u) \<inter> set (dl' v) = {}" if "u \<noteq> v" for u v
    using huge_invD(3) [OF inv that] out_u [of u] out_u [of v] that by (auto simp: dl'_def linked_list_def)
  ultimately show "huge_inv IV ?h' dl' k" using huge_invD(1) [OF inv] by (simp add: huge_inv_def frame)
qed

lemma huge_allocate_ok:
  assumes inv: "huge_inv IV h dl k" and t: "thread_ok t" and n: "0 < n"
    and idx: "ha_index (hg_alloc h t) + 1 < 2 ^ 64" and room: "ho_len (hg_owned h t) < 1024"
    and slot: "slot_for reuse out dl t (hg_desc h)" and mp: "\<And>a b. map_ok a b"
  shows "(\<exists>off h' k'. huge_allocate IV cfg map_ok base t n out reuse h = Inr (base + off, h') \<and>
      huge_inv IV h' (dl(t := linked_list reuse out (dl t))) k' \<and>
      d_offset (hg_desc h' out) = off \<and> d_size (hg_desc h' out) = n \<and> d_state (hg_desc h' out) = D_Live \<and>
      (\<forall>j. j \<noteq> out \<longrightarrow> hg_desc h' j = hg_desc h j) \<and> k' \<le> k + slot_count n \<and> growth h h' \<and>
      (\<forall>u. \<forall>i\<in>set (dl u). held (hg_desc h i) \<longrightarrow> drange (hg_desc h i) \<inter> {off..<off + n} = {})) \<or>
    huge_allocate IV cfg map_ok base t n out reuse h = Inl (Explicit ''Out of virtual address space'') \<and> 1024 < k + slot_count n"
proof -
  obtain h1 where h1: "refresh cfg t h = Inr h1" "huge_inv IV h1 dl k" "same_data h h1" using refresh_ok [OF inv t] by blast
  have idx1: "ha_index (hg_alloc h1 t) + 1 < 2 ^ 64" and D1: "hg_desc h1 = hg_desc h" and r1: "ho_len (hg_owned h1 t) < 1024"
    using h1(3) idx room le_less_trans by (auto simp: same_data_def)
  from alloc_loop_ok [OF h1(2) n idx1, of cfg] show ?thesis
  proof (elim disjE exE conjE)
    fix d h2 k'
    assume a: "alloc_loop IV cfg t n h1 = Some (Inr (d, h2))" "huge_inv IV h2 dl k'" "hg_desc h2 = hg_desc h1"
      "hg_owned h2 = hg_owned h1" "fresh_range IV dl t n d h2"
      and g: "k' \<le> k + slot_count n" "\<forall>u. ha_index (hg_alloc h2 u) \<le> ha_index (hg_alloc h1 u) + 1"
    let ?h3 = "huge_event t (Ev_Allocate n) h2" and ?dl = "dl(t := linked_list reuse out (dl t))"
    let ?d = "(hg_desc ?h3 out)\<lparr>d_state := D_Live, d_index := d_index d, d_offset := d_offset d, d_size := d_size d\<rparr>"
    let ?h5 = "installed reuse t out ?d ?h3"
    have fr: "fresh_range IV dl t n d ?h3" "d_size d = n" using a(5) by (simp_all add: fresh_range_def)
    have inv3: "huge_inv IV ?h3 dl k'" and slot3: "slot_for reuse out dl t (hg_desc ?h3)" using a(2,3) slot D1 by simp_all
    note I = install_ok [OF inv3 slot3 fr(1) n, of ?d]
    have inv5: "huge_inv IV ?h5 ?dl k'" using I(1) fr(2) by simp
    have out: "hg_desc ?h5 out = (if reuse then ?d else ?d\<lparr>d_next := ho_head (hg_owned h2 t)\<rparr>)"
      "\<And>j. j \<noteq> out \<Longrightarrow> hg_desc ?h5 j = hg_desc h j" "ho_len (hg_owned ?h5 t) = ho_len (hg_owned h1 t)" "out \<in> set (?dl t)"
      using slot a(3,4) D1 by (auto simp: installed_def Let_def linked_list_def slot_for_def find_Some_iff split: if_splits)
    have off: "d_offset (hg_desc ?h5 out) = d_offset d" "d_size (hg_desc ?h5 out) = n" "d_state (hg_desc ?h5 out) = D_Live"
      using out(1) fr(2) by (auto split: if_splits)
    have "\<not> hazard_contains (d_offset (hg_desc ?h5 out)) (hg_owned ?h5 t)" "held (hg_desc ?h5 out)" "out \<in> (\<Union>u. set (?dl u))"
      "ho_len (hg_owned ?h5 t) < 1024"
      using I(3) [OF _ _ _ _ t] off fr(2) out(3,4) r1 by (simp_all del: fun_upd_apply) (blast)
    then obtain o1 where o1: "hazard_insert cfg (d_offset (hg_desc ?h5 out)) (hg_owned ?h5 t) = Inr o1"
      "hazards_inv (hg_desc ?h5) (\<Union>u. set (?dl u)) o1" "ho_head o1 = ho_head (hg_owned ?h5 t)"
      "ho_len o1 = ho_len (hg_owned ?h5 t) + 1" using insert_ok [OF huge_invD(5) [OF inv5 t], of out cfg] by blast
    have inv6: "huge_inv IV (set_owned t o1 ?h5) ?dl k'" using huge_inv_owned [OF inv5 o1(2,3)] .
    have "map_descriptor cfg map_ok out (set_owned t o1 ?h5) = Inr (True, effect (Mapped (d_offset d - S) n) (set_owned t o1 ?h5))"
      using desc_base(1) [OF inv6 out(4)] mp off by (simp add: map_descriptor_def offset_to_u64_def sub_w_in_range Let_def)
    moreover have "?h5 = (if reuse then set_desc out ?d ?h3 else set_owned t ((hg_owned (set_desc out ?d ?h3) t)\<lparr>ho_head := Some out\<rparr>)
        (set_desc out ((hg_desc (set_desc out ?d ?h3) out)\<lparr>d_next := ho_head (hg_owned (set_desc out ?d ?h3) t)\<rparr>) (set_desc out ?d ?h3)))"
      by (simp add: installed_def Let_def)
    ultimately have "huge_allocate IV cfg map_ok base t n out reuse h =
        Inr (base + d_offset d, effect (Mapped (d_offset d - S) n) (set_owned t o1 ?h5))"
      unfolding huge_allocate_def h1(1) using a(1) o1(1) off(1) by (simp add: Let_def offset_to_pointer_def)
    moreover have "drange (hg_desc h i) \<inter> {d_offset d..<d_offset d + n} = {}" if "i \<in> set (dl u)" "held (hg_desc h i)" for i u
      using I(2) [OF _ _ _ _ that(1)] that(2) fr(2) a(3) D1 by (simp add: drange_def)
    moreover have "huge_inv IV (effect (Mapped (d_offset d - S) n) (set_owned t o1 ?h5)) ?dl k'" using inv6 by simp
    moreover have "growth h (effect (Mapped (d_offset d - S) n) (set_owned t o1 ?h5))"
      using g(2) o1(4) out(3) a(4) h1(3) by (auto simp: growth_def same_data_def installed_def Let_def intro: le_SucI)
    ultimately show ?thesis using off out(2) g(1)
      by (intro disjI1 exI [of _ "d_offset d"] exI [of _ "effect (Mapped (d_offset d - S) n) (set_owned t o1 ?h5)"] exI [of _ k'])
        (simp del: huge_inv_ignore)
  next
    assume "alloc_loop IV cfg t n h1 = Some (Inl (Explicit ''Out of virtual address space''))" "1024 < k + slot_count n"
    then show ?thesis by (simp add: huge_allocate_def h1(1))
  qed
qed

end

end
