(* ===== verification/Huge_Spec.thy ===== *)
theory Huge_Spec
  imports Huge_Ops
begin

text \<open>
  The huge heap from its zeroed initial state: whatever allocations and frees the threads make, the
  ranges in use are disjoint, an address leads to its own descriptor, an allocation returns a range
  that overlaps none in use, and a free of one returns.
\<close>

definition huge_init :: "'s interval_ops \<Rightarrow> 's huge" where
  "huge_init IV =
     \<lparr>hg_shared = \<lparr>slots = replicate 1024 None, hint = 0\<rparr>,
      hg_owned = (\<lambda>_. \<lparr>ho_head = None, ho_len = 0, ho_hazards = replicate 1024 None\<rparr>),
      hg_desc = (\<lambda>_. \<lparr>d_index = 0, d_offset = 0, d_size = 0, d_next = None, d_state = D_Live\<rparr>),
      hg_alloc = (\<lambda>_. \<lparr>ha_free = iv_empty IV, ha_index = 0\<rparr>), hg_maps = [], hg_events = []\<rparr>"

text \<open>
  The calls of the allocator: look for a descriptor to reuse, take a fresh one (a block of the small
  heap that is in no list) if there is none, allocate; or free an allocation in use. A thread
  maps fewer than 1024 ranges at a time and has allocated fewer than 2 to the 64 times.
\<close>

definition descriptor_for :: "nat option \<Rightarrow> nat \<Rightarrow> 's huge \<Rightarrow> bool" where
  "descriptor_for r out h \<longleftrightarrow> (case r of Some i \<Rightarrow> out = i | None \<Rightarrow> \<forall>u is. huge_trace u h = Inr is \<longrightarrow> out \<notin> set is)"

definition in_use :: "nat \<Rightarrow> nat \<Rightarrow> 's huge \<Rightarrow> bool" where
  "in_use t i h \<longleftrightarrow> (\<exists>is. huge_trace t h = Inr is \<and> i \<in> set is) \<and> held (hg_desc h i)"

definition has_room :: "nat \<Rightarrow> 's huge \<Rightarrow> bool" where
  "has_room t h \<longleftrightarrow> ho_len (hg_owned h t) < 1024 \<and> ha_index (hg_alloc h t) + 1 < 2 ^ 64"

inductive huge_reach :: "'s interval_ops \<Rightarrow> config \<Rightarrow> nat \<Rightarrow> 's huge \<Rightarrow> bool" for IV cfg base where
  init: "huge_reach IV cfg base (huge_init IV)"
| alloc: "huge_reach IV cfg base h \<Longrightarrow> thread_ok t \<Longrightarrow> 0 < n \<Longrightarrow> has_room t h \<Longrightarrow>
    huge_reuse IV cfg t h = Inr (r, h1) \<Longrightarrow> descriptor_for r out h1 \<Longrightarrow>
    huge_allocate IV cfg (\<lambda>_ _. True) base t n out (r \<noteq> None) h1 = Inr (p, h2) \<Longrightarrow> huge_reach IV cfg base h2"
| free: "huge_reach IV cfg base h \<Longrightarrow> thread_ok t \<Longrightarrow> in_use u i h \<Longrightarrow> off \<in> drange (hg_desc h i) \<Longrightarrow>
    huge_free cfg t off h = Inr h' \<Longrightarrow> huge_reach IV cfg base h'"

context interval_laws
begin

lemma huge_init_inv: "huge_inv IV (huge_init IV) (\<lambda>_. []) 0"
  using ok_empty empty_set tiles.stop [of 0 "replicate 1024 None"]
  by (simp add: huge_inv_def huge_init_def slots_inv_def thread_inv_def hazards_inv_def free_offsets_def)

lemma in_use_inv: "huge_inv IV h dl k \<Longrightarrow> in_use t i h \<longleftrightarrow> i \<in> set (dl t) \<and> held (hg_desc h i)"
  by (simp add: in_use_def huge_trace_eq)

lemma slot_for_reuse:
  assumes "huge_inv IV h1 dl k" "descriptor_for r out h1" "r = List.find (\<lambda>i. \<not> held (hg_desc h1 i)) (dl t)"
  shows "slot_for (r \<noteq> None) out dl t (hg_desc h1)"
  using assms(2,3) huge_trace_eq [OF assms(1)]
  by (auto simp: slot_for_def descriptor_for_def split: option.splits)

lemma huge_alloc_step:
  assumes inv: "huge_inv IV h dl k" and "thread_ok t" "0 < n" "has_room t h"
    and "huge_reuse IV cfg t h = Inr (r, h1)" "descriptor_for r out h1"
  shows "(\<exists>off h' k'. huge_allocate IV cfg (\<lambda>_ _. True) base t n out (r \<noteq> None) h1 = Inr (base + off, h') \<and>
      huge_inv IV h' (dl(t := linked_list (r \<noteq> None) out (dl t))) k' \<and> k' \<le> k + slot_count n \<and> growth h1 h' \<and> in_use t out h' \<and> d_offset (hg_desc h' out) = off \<and> d_size (hg_desc h' out) = n \<and>
      (\<forall>u i. in_use u i h1 \<longrightarrow> in_use u i h' \<and> hg_desc h' i = hg_desc h1 i \<and> drange (hg_desc h1 i) \<inter> {off..<off + n} = {})) \<or>
    huge_allocate IV cfg (\<lambda>_ _. True) base t n out (r \<noteq> None) h1 = Inl (Explicit ''Out of virtual address space'') \<and>
      1024 < k + slot_count n"
proof -
  obtain h1' where h1': "huge_reuse IV cfg t h = Inr (List.find (\<lambda>i. \<not> held (hg_desc h1' i)) (dl t), h1')"
    "huge_inv IV h1' dl k" "hg_owned h1' = hg_owned h" "\<forall>u. ha_index (hg_alloc h1' u) = ha_index (hg_alloc h u)"
    using huge_reuse_ok [OF inv, of cfg t] by blast
  then have eq: "h1' = h1" "r = List.find (\<lambda>i. \<not> held (hg_desc h1 i)) (dl t)" using assms(5) by auto
  have slot: "slot_for (r \<noteq> None) out dl t (hg_desc h1)" using slot_for_reuse [of h1 dl k r out t] assms(6) eq h1'(2) by blast
  have out: "out \<in> set (linked_list (r \<noteq> None) out (dl t))"
    using slot by (auto simp: linked_list_def slot_for_def find_Some_iff split: if_splits)
  have room: "ha_index (hg_alloc h1 t) + 1 < 2 ^ 64" "ho_len (hg_owned h1 t) < 1024"
    using h1'(3,4) eq(1) assms(4) by (simp_all add: has_room_def)
  have inv1: "huge_inv IV h1 dl k" using h1'(2) eq(1) by simp
  from huge_allocate_ok [OF inv1 assms(2,3) room slot, of "\<lambda>_ _. True" cfg base, OF TrueI] show ?thesis
  proof (elim disjE exE conjE)
    fix off h' k'
    assume a: "huge_allocate IV cfg (\<lambda>_ _. True) base t n out (r \<noteq> None) h1 = Inr (base + off, h')"
      and i: "huge_inv IV h' (dl(t := linked_list (r \<noteq> None) out (dl t))) k'"
      and d: "d_offset (hg_desc h' out) = off" "d_size (hg_desc h' out) = n" "d_state (hg_desc h' out) = D_Live"
      and g: "k' \<le> k + slot_count n" "growth h1 h'" "\<forall>j. j \<noteq> out \<longrightarrow> hg_desc h' j = hg_desc h1 j"
      and dis: "\<forall>u. \<forall>i\<in>set (dl u). held (hg_desc h1 i) \<longrightarrow> drange (hg_desc h1 i) \<inter> {off..<off + n} = {}"
    have "in_use t out h'" using out d(3) by (simp add: in_use_inv [OF i])
    moreover have "in_use u j h' \<and> hg_desc h' j = hg_desc h1 j" if hyp: "in_use u j h1" for u j
    proof -
      have "j \<noteq> out" using hyp slot by (auto simp: in_use_inv [OF inv1] slot_for_def find_Some_iff split: if_splits)
      then show ?thesis using hyp g(3) by (auto simp: in_use_inv [OF inv1] in_use_inv [OF i] linked_list_def)
    qed
    moreover have "drange (hg_desc h1 j) \<inter> {off..<off + n} = {}" if "in_use u j h1" for u j
      using dis that unfolding in_use_inv [OF inv1] by blast
    ultimately show ?thesis using a i d g
      by (intro disjI1 exI [of _ off] exI [of _ h'] exI [of _ k']) simp
  qed simp_all
qed

lemma reach_inv:
  assumes "huge_reach IV cfg base h"
  shows "\<exists>dl k. huge_inv IV h dl k"
  using assms
proof (induction rule: huge_reach.induct)
  case init
  show ?case using huge_init_inv by blast
next
  case (alloc h t n r h1 out p h2)
  then obtain dl k where "huge_inv IV h dl k" by blast
  from huge_alloc_step [OF this alloc.hyps(2-6), of base] show ?case using alloc.hyps(7) by auto
next
  case (free h t u i off h')
  then obtain dl k where inv: "huge_inv IV h dl k" by blast
  then show ?case using huge_free_ok [OF inv, of i u off t cfg] free.hyps by (auto simp: in_use_inv)
qed

end

subsection \<open>A run with two allocations\<close>

text \<open>A thread with no descriptor allocates with a fresh one.\<close>

lemma first_allocation:
  assumes IV: "interval_laws IV" and inv: "huge_inv IV h dl k" and reach: "huge_reach IV cfg base h"
    and t: "thread_ok t" "dl t = []" and n: "0 < n" "k + slot_count n \<le> 1024" and room: "\<And>u. has_room u h" and out: "\<And>u. out \<notin> set (dl u)"
  shows "huge_reuse IV cfg t h = Inr (None, h)" and "descriptor_for None out h"
    and "\<exists>off h' k'. huge_allocate IV cfg (\<lambda>_ _. True) base t n out False h = Inr (base + off, h') \<and>
      huge_reach IV cfg base h' \<and> huge_inv IV h' (dl(t := [out])) k' \<and> k' \<le> k + slot_count n \<and> growth h h' \<and> in_use t out h' \<and>
      d_offset (hg_desc h' out) = off \<and> d_size (hg_desc h' out) = n \<and>
      (\<forall>u i. in_use u i h \<longrightarrow> in_use u i h')"
proof -
  show reuse: "huge_reuse IV cfg t h = Inr (None, h)" by (simp add: huge_reuse_def huge_trace_eq [OF inv] t(2))
  show d: "descriptor_for None out h" using out by (simp add: descriptor_for_def huge_trace_eq [OF inv])
  show "\<exists>off h' k'. huge_allocate IV cfg (\<lambda>_ _. True) base t n out False h = Inr (base + off, h') \<and>
      huge_reach IV cfg base h' \<and> huge_inv IV h' (dl(t := [out])) k' \<and> k' \<le> k + slot_count n \<and> growth h h' \<and> in_use t out h' \<and>
      d_offset (hg_desc h' out) = off \<and> d_size (hg_desc h' out) = n \<and>
      (\<forall>u i. in_use u i h \<longrightarrow> in_use u i h')"
    using interval_laws.huge_alloc_step [OF IV inv t(1) n(1) room reuse d, of base] n(2)
      huge_reach.alloc [OF reach t(1) n(1) room reuse d] t(2) by (simp add: linked_list_def) blast
qed

lemma slot_count_5000: "slot_count 5000 = 1" by (simp add: slot_count_def next_multiple_of_def huge_bracket_def huge_size_slab_def)

text \<open>Thread 1 allocates 5000 bytes with descriptor 7, then thread 2 with descriptor 8.\<close>

lemma first_huge:
  obtains off h k where "huge_allocate interval_lists cfg_debug (\<lambda>_ _. True) 0 1 5000 7 False (huge_init interval_lists) = Inr (off, h)"
    "huge_reach interval_lists cfg_debug 0 h" "huge_inv interval_lists h ((\<lambda>_. [])(1 := [7])) k" "k \<le> 1" "in_use 1 7 h" "\<And>u. has_room u h"
    "off \<in> drange (hg_desc h 7)"
proof -
  let ?h0 = "huge_init interval_lists"
  have z: "ho_len (hg_owned ?h0 u) = 0" "ha_index (hg_alloc ?h0 u) = 0" for u by (simp_all add: huge_init_def)
  have room: "has_room u ?h0" for u by (simp add: has_room_def z)
  have t: "thread_ok 1" "(0::nat) < 5000" "0 + slot_count 5000 \<le> 1024" by (simp_all add: thread_ok_def COUNT_THREAD_def slot_count_5000)
  obtain off h k where h: "huge_allocate interval_lists cfg_debug (\<lambda>_ _. True) 0 1 5000 7 False ?h0 = Inr (0 + off, h)"
    "huge_reach interval_lists cfg_debug 0 h" "huge_inv interval_lists h ((\<lambda>_. [])(1 := [7])) k" "k \<le> 0 + slot_count 5000"
    "growth ?h0 h" "in_use 1 7 h" "d_offset (hg_desc h 7) = off" "d_size (hg_desc h 7) = 5000"
    using first_allocation(3) [OF ivl.interval_laws_axioms ivl.huge_init_inv huge_reach.init t(1) _ t(2,3) room, of 7 cfg_debug 0] by auto
  have "ho_len (hg_owned h u) \<le> 1" "ha_index (hg_alloc h u) \<le> 1" for u using h(5) by (simp_all add: growth_def z)
  then have "has_room u h" for u unfolding has_room_def using le_less_trans [of "ho_len (hg_owned h u)" 1 1024] le_less_trans [of "ha_index (hg_alloc h u)" 1 "2 ^ 64 - 1"] by simp
  moreover have "off \<in> drange (hg_desc h 7)" using h(7,8) by (simp add: drange_def)
  ultimately show thesis using that [of off h k] h by (simp add: slot_count_5000)
qed

lemma second_huge:
  "\<exists>h. huge_reach interval_lists cfg_debug 0 h \<and> in_use 1 7 h \<and> in_use 2 8 h"
proof -
  obtain off h k where h: "huge_reach interval_lists cfg_debug 0 h" "huge_inv interval_lists h ((\<lambda>_. [])(1 := [7])) k" "k \<le> 1"
    "in_use 1 7 h" "\<And>u. has_room u h" by (rule first_huge) blast
  then show ?thesis
    using first_allocation(3) [OF ivl.interval_laws_axioms h(2,1), of 2 5000 8]
    by (auto simp: thread_ok_def COUNT_THREAD_def slot_count_5000)
qed

subsection \<open>Properties\<close>

text \<open>
  C6: after any sequence of huge allocations and frees by any threads, two different descriptors in use
  (allocated, or freed and still mapped by some thread), of the same or different threads, cover
  disjoint address ranges.
\<close>

theorem huge_ranges_disjoint:
  assumes "interval_laws IV" and "huge_reach IV cfg base h"
    and "in_use t i h" "in_use u j h" "i \<noteq> j"
  shows "drange (hg_desc h i) \<inter> drange (hg_desc h j) = {}"
proof -
  obtain dl k where inv: "huge_inv IV h dl k" using interval_laws.reach_inv [OF assms(1,2)] by blast
  then show ?thesis using held_disjoint [OF inv] assms(3-5) interval_laws.in_use_inv [OF assms(1) inv] by blast
qed

theorem huge_ranges_disjoint_witness:
  "\<exists>h. huge_reach interval_lists cfg_debug 0 h \<and> in_use 1 7 h \<and> in_use 2 8 h \<and> drange (hg_desc h 7) \<inter> drange (hg_desc h 8) = {}"
proof -
  obtain h where h: "huge_reach interval_lists cfg_debug 0 h" "in_use 1 7 h" "in_use 2 8 h" using second_huge by blast
  from h show ?thesis using huge_ranges_disjoint [OF ivl.interval_laws_axioms h] by auto
qed

text \<open>
  C7: every address of an allocation in use is traced back to it: the search over the claimed slots and
  the owner's descriptor list stops at the allocation's own descriptor, although reclaimed descriptors
  with stale ranges are in the list, and reports its size.
\<close>

theorem huge_find_exact:
  assumes "interval_laws IV" and "huge_reach IV cfg base h" and "in_use t i h" and "off \<in> drange (hg_desc h i)"
  shows "huge_find off h = Inr (Some i) \<and> huge_class off h = Inr (d_size (hg_desc h i))"
proof -
  obtain dl k where inv: "huge_inv IV h dl k" using interval_laws.reach_inv [OF assms(1,2)] by blast
  then have "huge_find off h = Inr (Some i)"
    using huge_find_ok [OF inv] assms(3,4) interval_laws.in_use_inv [OF assms(1) inv] by blast
  then show ?thesis by (simp add: huge_class_def)
qed

theorem huge_find_exact_witness:
  "\<exists>off h. huge_allocate interval_lists cfg_debug (\<lambda>_ _. True) 0 1 5000 7 False (huge_init interval_lists) = Inr (off, h) \<and>
    huge_find off h = Inr (Some 7)"
proof -
  obtain off h where h: "huge_allocate interval_lists cfg_debug (\<lambda>_ _. True) 0 1 5000 7 False (huge_init interval_lists) = Inr (off, h)"
    "huge_reach interval_lists cfg_debug 0 h" "in_use 1 7 h" "off \<in> drange (hg_desc h 7)" by (rule first_huge) blast
  then show ?thesis using huge_find_exact [OF ivl.interval_laws_axioms h(2-4)] by blast
qed

text \<open>
  A huge allocation in a reachable state returns the address of a range of the requested size that
  overlaps no range in use, after claiming address space at most once; the only other outcome is the
  panic when no sequence of slots is left.
\<close>

theorem huge_allocate_fresh:
  assumes "interval_laws IV" and "huge_reach IV cfg base h" and "thread_ok t" "0 < n" "has_room t h"
    and "huge_reuse IV cfg t h = Inr (r, h1)" "descriptor_for r out h1"
  shows "(\<exists>off h'. huge_allocate IV cfg (\<lambda>_ _. True) base t n out (r \<noteq> None) h1 = Inr (base + off, h') \<and>
      huge_reach IV cfg base h' \<and> in_use t out h' \<and> drange (hg_desc h' out) = {off..<off + n} \<and>
      (\<forall>u i. in_use u i h1 \<longrightarrow> drange (hg_desc h1 i) \<inter> {off..<off + n} = {})) \<or>
    huge_allocate IV cfg (\<lambda>_ _. True) base t n out (r \<noteq> None) h1 = Inl (Explicit ''Out of virtual address space'')"
proof -
  obtain dl k where inv: "huge_inv IV h dl k" using interval_laws.reach_inv [OF assms(1,2)] by blast
  from interval_laws.huge_alloc_step [OF assms(1) inv assms(3-7), of base] show ?thesis
    using huge_reach.alloc [OF assms(2-7)] by (auto simp: drange_def)
qed

theorem huge_allocate_fresh_witness:
  "\<exists>off h'. huge_allocate interval_lists cfg_debug (\<lambda>_ _. True) 0 1 5000 7 False (huge_init interval_lists) = Inr (off, h') \<and>
    drange (hg_desc h' 7) = {off..<off + 5000}"
proof -
  let ?h0 = "huge_init interval_lists"
  have "has_room 1 ?h0" by (simp add: has_room_def huge_init_def)
  moreover have "huge_reuse interval_lists cfg_debug 1 ?h0 = Inr (None, ?h0)" "descriptor_for None 7 ?h0"
    by (simp_all add: huge_reuse_def descriptor_for_def huge_trace_eq [OF ivl.huge_init_inv])
  moreover have "thread_ok 1" by (simp add: thread_ok_def COUNT_THREAD_def)
  moreover obtain off h where "huge_allocate interval_lists cfg_debug (\<lambda>_ _. True) 0 1 5000 7 False ?h0 = Inr (off, h)" by (rule first_huge) blast
  ultimately show ?thesis
    using huge_allocate_fresh [OF ivl.interval_laws_axioms huge_reach.init, of 1 5000 cfg_debug None ?h0 7 0] by auto
qed

text \<open>Any thread can free an allocation in use through any address in it; it returns.\<close>

theorem huge_free_returns:
  assumes "interval_laws IV" and "huge_reach IV cfg base h" and "thread_ok t" "in_use u i h" "off \<in> drange (hg_desc h i)"
  shows "\<exists>h'. huge_free cfg t off h = Inr h' \<and> huge_reach IV cfg base h' \<and> d_state (hg_desc h' i) = D_Free"
proof -
  obtain dl k where inv: "huge_inv IV h dl k" using interval_laws.reach_inv [OF assms(1,2)] by blast
  obtain h' where h': "huge_free cfg t off h = Inr h'" "hg_desc h' = (hg_desc h)(i := (hg_desc h i)\<lparr>d_state := D_Free\<rparr>)"
    using huge_free_ok [OF inv, of i u off t cfg] assms(3-5) interval_laws.in_use_inv [OF assms(1) inv] by blast
  then show ?thesis using huge_reach.free [OF assms(2-5) h'(1)] by auto
qed

theorem huge_free_returns_witness:
  "\<exists>off h h'. huge_allocate interval_lists cfg_debug (\<lambda>_ _. True) 0 1 5000 7 False (huge_init interval_lists) = Inr (off, h) \<and>
    huge_free cfg_debug 2 off h = Inr h' \<and> d_state (hg_desc h' 7) = D_Free"
proof -
  obtain off h where h: "huge_allocate interval_lists cfg_debug (\<lambda>_ _. True) 0 1 5000 7 False (huge_init interval_lists) = Inr (off, h)"
    "huge_reach interval_lists cfg_debug 0 h" "in_use 1 7 h" "off \<in> drange (hg_desc h 7)" by (rule first_huge) blast
  have "thread_ok 2" by (simp add: thread_ok_def COUNT_THREAD_def)
  then show ?thesis using huge_free_returns [OF ivl.interval_laws_axioms h(2) _ h(3,4)] h(1) by blast
qed

end
