(* ===== verification/Allocator_Inv.thy ===== *)
theory Allocator_Inv
  imports Allocator Huge_Spec
begin

text \<open>
  What the composition of the heaps rests on: blocks of a slab heap lie in its reserved region and
  are recognised by their pointer alone, and a huge allocation adds exactly one range, disjoint
  from all the others, to the ones in use.
\<close>

subsection \<open>Blocks of a slab heap\<close>

definition within_reservation :: "'c bracket \<Rightarrow> 'c heap \<Rightarrow> bool" where
  "within_reservation B h \<longleftrightarrow> (frontier (view h) - 1) * SIZE_SLAB B \<le> reservation_size"

lemma view_with_ctx [simp]: "view (with_ctx hp lg h) = view h"
  by (simp add: with_ctx_def view_def)

lemma with_ctx_fields [simp]: "locals (with_ctx hp lg h) = locals h" "sized (with_ctx hp lg h) = sized h"
  by (simp_all add: with_ctx_def)

lemma with_ctx_own [simp]: "with_ctx (help_arr h) (log_state h) h = h"
  by (simp add: with_ctx_def)

lemma pool_with_ctx [simp]: "pool cfg B (with_ctx hp lg h) L = pool cfg B h L"
  by (simp add: pool_def)

lemma exhausted_with_ctx [simp]: "indices_exhausted cfg (with_ctx hp lg h) = indices_exhausted cfg h"
  by (simp add: indices_exhausted_def)

context bracket_laws
begin

lemma pool_within:
  assumes "pool cfg B h L" "within_reservation B h" "(off, n) \<in> L"
  shows "SIZE_SLAB B \<le> off" and "off - SIZE_SLAB B + n \<le> reservation_size" and "0 < n"
proof -
  obtain g i k where inv: "vinv cfg B (view h) g" and k: "k \<in> live g i"
    and off: "off = block_offset B (classes (view h) i) i k" "n = b_size B (classes (view h) i)"
    using assms(1,3) by (auto simp: pool_def blocks_of_def)
  have "i < frontier (view h)" using live_slab(5,7) [OF inv k] vinvD(4) [OF inv, of i] by auto
  then have "i * SIZE_SLAB B \<le> (frontier (view h) - 1) * SIZE_SLAB B" by (intro mult_right_mono) auto
  then have "i * SIZE_SLAB B \<le> reservation_size" using assms(2) unfolding within_reservation_def by linarith
  moreover have "off + n \<le> i * SIZE_SLAB B + SIZE_SLAB B"
    using block_in_slab [OF live_bounds [OF inv k]] unfolding off block_offset_def by linarith
  moreover show "SIZE_SLAB B \<le> off" "0 < n" using pool_bounds [OF assms(1,3)] by simp_all
  ultimately show "off - SIZE_SLAB B + n \<le> reservation_size" by linarith
qed

lemma pool_class:
  assumes "pool cfg B h L" "(off, n) \<in> L"
  shows "\<exists>c. heap_class B off h = Inr c \<and> b_size B c = n"
proof -
  obtain g i k where inv: "vinv cfg B (view h) g" and k: "k \<in> live g i"
    and off: "off = block_offset B (classes (view h) i) i k" "n = b_size B (classes (view h) i)"
    using assms by (auto simp: pool_def blocks_of_def)
  have "into_index B off = Inr i"
    unfolding off using into_index_block(1) [OF live_bounds [OF inv k] live_slab(5,6) [OF inv k]] .
  then show ?thesis using off(2) by (simp add: heap_class_def classes_def view_def)
qed

text \<open>A pointer into the region is recognised, one beyond it is not.\<close>

lemma checked_inside:
  assumes "SIZE_SLAB B \<le> off" "off - SIZE_SLAB B < reservation_size"
  shows "checked_pointer_to_offset cfg B base (base + off) = Inr (Some off)"
  using assms slab_pos by (simp add: checked_pointer_to_offset_def pointer_to_offset_def checked_sub_def offset_to_u64_def sub_w_in_range)

lemma checked_outside:
  assumes "region = base + SIZE_SLAB B" "region + reservation_size \<le> p"
  shows "checked_pointer_to_offset cfg B base p = Inr None"
  using assms slab_pos
  by (auto simp: checked_pointer_to_offset_def pointer_to_offset_def checked_sub_def offset_to_u64_def sub_w_in_range
      split: option.splits bind_splits)

end

subsection \<open>Huge allocations in use\<close>

definition huge_live :: "'s huge \<Rightarrow> (nat \<Rightarrow> nat list) \<Rightarrow> (nat \<times> nat) set" where
  "huge_live h dl = {(d_offset (hg_desc h i), d_size (hg_desc h i)) | i. (\<exists>t. i \<in> set (dl t)) \<and> d_state (hg_desc h i) = D_Live}"

lemma huge_live_cong:
  assumes "\<And>i. (\<exists>t. i \<in> set (dl t)) \<Longrightarrow> d_state (hg_desc h i) = D_Live \<or> d_state (hg_desc h' i) = D_Live \<Longrightarrow> hg_desc h' i = hg_desc h i"
  shows "huge_live h' dl = huge_live h dl"
  unfolding huge_live_def using assms by metis

text \<open>Ranges in use lie in the reserved terabyte behind the first slab.\<close>

lemma mine_end:
  assumes "slots_inv sh k" "off \<in> mine (slots sh) t"
  shows "S \<le> off" "off - S < reservation_size"
proof -
  show S: "S \<le> off" using assms(2) by (simp add: mine_def)
  have "off div S - 1 < 1024" using assms owner_find(2) by (auto simp: mine_def)
  then have "off div S < 1025" by simp
  then have "off < 1025 * S" by (simp add: div_less_iff_less_mult)
  then show "off - S < reservation_size" using S by (simp add: reservation_size_def huge_bracket_def huge_size_slab_def)
qed

lemma huge_live_within:
  assumes inv: "huge_inv IV h dl k" and x: "(off, n) \<in> huge_live h dl"
  shows "S \<le> off" "off - S + n \<le> reservation_size" "0 < n"
proof -
  obtain i t where i: "i \<in> set (dl t)" "off = d_offset (hg_desc h i)" "n = d_size (hg_desc h i)" using x by (auto simp: huge_live_def)
  show n: "0 < n" using thread_invD(4) [OF huge_invD(4) [OF inv] i(1)] i(3) by simp
  have "off \<in> drange (hg_desc h i)" "off + n - 1 \<in> drange (hg_desc h i)" using i n by (auto simp: drange_def)
  then have m: "off \<in> mine (slots (hg_shared h)) t" "off + n - 1 \<in> mine (slots (hg_shared h)) t"
    using thread_invD(5) [OF huge_invD(4) [OF inv] i(1)] by blast+
  show "S \<le> off" using mine_end(1) [OF huge_invD(1) [OF inv] m(1)] .
  then show "off - S + n \<le> reservation_size" using mine_end(2) [OF huge_invD(1) [OF inv] m(2)] n by linarith
qed

lemma huge_live_disjoint:
  assumes inv: "huge_inv IV h dl k" and x: "x \<in> huge_live h dl" "y \<in> huge_live h dl" "x \<noteq> y"
  shows "bytes x \<inter> bytes y = {}"
proof -
  obtain i t where i: "i \<in> set (dl t)" "x = (d_offset (hg_desc h i), d_size (hg_desc h i))" "d_state (hg_desc h i) = D_Live"
    using x(1) by (auto simp: huge_live_def)
  obtain j u where j: "j \<in> set (dl u)" "y = (d_offset (hg_desc h j), d_size (hg_desc h j))" "d_state (hg_desc h j) = D_Live"
    using x(2) by (auto simp: huge_live_def)
  have "i \<noteq> j" using i j x(3) by auto
  then show ?thesis using held_disjoint [OF inv, of i t j u] i j by (simp add: bytes_def drange_def)
qed

context interval_laws
begin

lemma huge_live_step:
  assumes inv: "huge_inv IV h dl k" and t: "thread_ok t" "0 < n" "has_room t h"
    and r: "huge_reuse IV cfg t h = Inr (r, h1)" and out: "case r of Some i \<Rightarrow> out = i | None \<Rightarrow> \<forall>u. out \<notin> set (dl u)"
  shows "(\<exists>off h' k'. huge_allocate IV cfg (\<lambda>_ _. True) base t n out (r \<noteq> None) h1 = Inr (base + off, h') \<and>
      huge_inv IV h' (dl(t := linked_list (r \<noteq> None) out (dl t))) k' \<and>
      huge_live h' (dl(t := linked_list (r \<noteq> None) out (dl t))) = insert (off, n) (huge_live h dl) \<and>
      (\<forall>x\<in>huge_live h dl. bytes (off, n) \<inter> bytes x = {})) \<or>
    huge_allocate IV cfg (\<lambda>_ _. True) base t n out (r \<noteq> None) h1 = Inl (Explicit ''Out of virtual address space'') \<and> 1024 < k + slot_count n"
proof -
  obtain h1' where h1': "huge_reuse IV cfg t h = Inr (List.find (\<lambda>i. \<not> held (hg_desc h1' i)) (dl t), h1')"
    "huge_inv IV h1' dl k" "hg_owned h1' = hg_owned h" "\<forall>u. ha_index (hg_alloc h1' u) = ha_index (hg_alloc h u)"
    "\<forall>j. held (hg_desc h1' j) \<or> d_state (hg_desc h j) = D_Live \<longrightarrow> hg_desc h1' j = hg_desc h j"
    using huge_reuse_ok [OF inv, of cfg t] by blast
  then have eq: "h1' = h1" "r = List.find (\<lambda>i. \<not> held (hg_desc h1 i)) (dl t)" using r by auto
  have inv1: "huge_inv IV h1 dl k" using h1'(2) eq(1) by simp
  have slot: "slot_for (r \<noteq> None) out dl t (hg_desc h1)" using out eq(2) by (auto simp: slot_for_def split: option.splits)
  have live: "huge_live h1 dl = huge_live h dl" by (rule huge_live_cong) (use h1'(5) eq(1) in auto)
  have room: "ha_index (hg_alloc h1 t) + 1 < 2 ^ 64" "ho_len (hg_owned h1 t) < 1024"
    using h1'(3,4) eq(1) t(3) by (simp_all add: has_room_def)
  have nl: "d_state (hg_desc h1 out) \<noteq> D_Live \<or> (\<forall>u. out \<notin> set (dl u))" and mem: "out \<in> set (linked_list (r \<noteq> None) out (dl t))"
    using slot by (auto simp: slot_for_def find_Some_iff linked_list_def split: if_splits)
  from huge_allocate_ok [OF inv1 t(1,2) room slot, of "\<lambda>_ _. True" cfg base, OF TrueI] show ?thesis
  proof (elim disjE exE conjE)
    fix off h' k'
    assume a: "huge_allocate IV cfg (\<lambda>_ _. True) base t n out (r \<noteq> None) h1 = Inr (base + off, h')"
      and i: "huge_inv IV h' (dl(t := linked_list (r \<noteq> None) out (dl t))) k'"
      and d: "d_offset (hg_desc h' out) = off" "d_size (hg_desc h' out) = n" "d_state (hg_desc h' out) = D_Live"
        "\<forall>j. j \<noteq> out \<longrightarrow> hg_desc h' j = hg_desc h1 j"
      and dis: "\<forall>u. \<forall>i\<in>set (dl u). held (hg_desc h1 i) \<longrightarrow> drange (hg_desc h1 i) \<inter> {off..<off + n} = {}"
    have members: "(\<exists>u. j \<in> set ((dl(t := linked_list (r \<noteq> None) out (dl t))) u)) \<longleftrightarrow> j = out \<or> (\<exists>u. j \<in> set (dl u))" for j
      using mem by (auto simp: linked_list_def split: if_splits)
    have "huge_live h' (dl(t := linked_list (r \<noteq> None) out (dl t))) = insert (off, n) (huge_live h1 dl)"
    proof (intro equalityI subsetI)
      fix x assume "x \<in> huge_live h' (dl(t := linked_list (r \<noteq> None) out (dl t)))"
      then obtain j where "x = (d_offset (hg_desc h' j), d_size (hg_desc h' j))" "d_state (hg_desc h' j) = D_Live" "j = out \<or> (\<exists>u. j \<in> set (dl u))"
        unfolding huge_live_def members by blast
      then show "x \<in> insert (off, n) (huge_live h1 dl)" using d by (cases "j = out") (auto simp: huge_live_def)
    next
      fix x assume "x \<in> insert (off, n) (huge_live h1 dl)"
      then have "x = (off, n) \<or> (\<exists>j. x = (d_offset (hg_desc h1 j), d_size (hg_desc h1 j)) \<and> (\<exists>u. j \<in> set (dl u)) \<and> d_state (hg_desc h1 j) = D_Live)"
        by (auto simp: huge_live_def)
      then have "\<exists>j. x = (d_offset (hg_desc h' j), d_size (hg_desc h' j)) \<and> d_state (hg_desc h' j) = D_Live \<and> (j = out \<or> (\<exists>u. j \<in> set (dl u)))"
        using d nl by metis
      then show "x \<in> huge_live h' (dl(t := linked_list (r \<noteq> None) out (dl t)))" unfolding huge_live_def members by blast
    qed
    moreover have "bytes (off, n) \<inter> bytes x = {}" if "x \<in> huge_live h1 dl" for x
      using dis that by (fastforce simp: huge_live_def bytes_def drange_def)
    ultimately show ?thesis using a i unfolding live by blast
  qed simp_all
qed

end

end
