(* ===== verification/Allocator_Ops.thy ===== *)
theory Allocator_Ops
  imports Allocator_Inv
begin

text \<open>
  The three heaps together. The addresses the allocator hands out belong to three disjoint reserved
  regions, so a pointer leads back to the heap it came from; the descriptors of huge allocations are
  blocks of the small heap that no client holds. Each call of the untyped interface keeps this
  invariant and adds or removes exactly the block it should.
\<close>

subsection \<open>The three heaps\<close>

definition descs :: "(nat \<Rightarrow> nat list) \<Rightarrow> (nat \<times> nat) set" where
  "descs dl = {(i, 64) | i. \<exists>t. i \<in> set (dl t)}"

text \<open>
  The allocator beside the blocks its clients hold in the small heap, \<open>Ls\<close>, and the large heap,
  \<open>Ll\<close>, and the descriptor lists \<open>dl\<close> of the huge heap, whose descriptors are blocks of the small heap.
\<close>

definition parts :: "'s interval_ops \<Rightarrow> config \<Rightarrow> 's allocator \<Rightarrow> (nat \<times> nat) set \<Rightarrow> (nat \<times> nat) set \<Rightarrow> (nat \<Rightarrow> nat list) \<Rightarrow> nat \<Rightarrow> bool" where
  "parts IV cfg a Ls Ll dl k \<longleftrightarrow>
     pool cfg small_bracket (a_small a) (Ls \<union> descs dl) \<and> Ls \<inter> descs dl = {} \<and>
     pool cfg large_bracket (a_large a) Ll \<and> huge_inv IV (a_huge a) dl k"

lemma partsD:
  assumes "parts IV cfg a Ls Ll dl k"
  shows "pool cfg small_bracket (a_small a) (Ls \<union> descs dl)" "Ls \<inter> descs dl = {}"
    "pool cfg large_bracket (a_large a) Ll" "huge_inv IV (a_huge a) dl k"
  using assms by (auto simp: parts_def)

text \<open>One call extends each slab heap by at most one batch of slabs.\<close>

definition slab_growth :: "config \<Rightarrow> 's allocator \<Rightarrow> 's allocator \<Rightarrow> bool" where
  "slab_growth cfg a a' \<longleftrightarrow>
     frontier (view (a_small a')) \<le> frontier (view (a_small a)) + batch_bump_pop cfg \<and>
     frontier (view (a_large a')) \<le> frontier (view (a_large a)) + batch_bump_pop cfg"

lemma clear_log_fields [simp]:
  "a_small (clear_log t a) = a_small a" "a_large (clear_log t a) = a_large a" "a_huge (clear_log t a) = a_huge a" "a_mem (clear_log t a) = a_mem a"
  by (simp_all add: clear_log_def)

lemma bytes_nonempty: "0 < n \<Longrightarrow> bytes (off, n) \<noteq> {}"
  by (simp add: bytes_def)

lemma fresh_not_in:
  assumes "\<forall>x\<in>L. bytes (off, n) \<inter> bytes x = {}" "0 < n"
  shows "(off, m) \<in> L \<Longrightarrow> m = 0" and "(off, n) \<notin> L"
  using assms by (fastforce simp: bytes_def)+

lemma descriptor_class_ok: "class_ok small_bracket descriptor_class" "b_size small_bracket descriptor_class = 64"
proof -
  obtain c where c: "small_new 64 = Inr (Some c)" "small_size c = next_multiple_of 64 8" using small_new_Some [of 64] by auto
  then have d: "descriptor_class = c" "small_size c = 64" by (simp_all add: descriptor_class_def next_multiple_of_def)
  then show "b_size small_bracket descriptor_class = 64" by (simp add: small_bracket_def)
  show "class_ok small_bracket descriptor_class" using d by (auto simp: small_class_ok small_is_zero_def small_size_def)
qed

lemma small_class_cases:
  assumes "0 < n" "n \<le> 1016"
  obtains c where "small_new n = Inr (Some c)" "class_ok small_bracket c" "b_size small_bracket c = next_multiple_of n 8"
proof -
  obtain c where c: "small_new n = Inr (Some c)" "small_size c = next_multiple_of n 8" using assms small_new_Some by blast
  have "n \<le> next_multiple_of n 8" by (rule next_multiple_of_ge) simp
  then have "class_ok small_bracket c" using c(2) assms(1) by (auto simp: small_class_ok small_is_zero_def small_size_def)
  then show thesis using that c by (simp add: small_bracket_def)
qed

lemma small_new_None: "1016 < n \<Longrightarrow> small_new n = Inr None"
  by (simp add: small_new_def size_values)

lemma large_new_None: "524288 < n \<Longrightarrow> large_new n = Inr None"
  by (simp add: large_new_def size_values)

lemma allocate_small_step:
  fixes ly :: layout and n :: nat
  assumes p: "parts IV cfg a Ls Ll dl k" and cfg: "config_ok cfg" and n: "0 < n" "n \<le> 1016"
  defines "base \<equiv> base_of small_bracket (ly_small ly)" and "m \<equiv> next_multiple_of n 8"
  shows "(\<exists>off a'. allocate_untyped IV cfg map_ok ly t n a = Inr (Some (base + off), a') \<and>
      parts IV cfg a' (insert (off, m) Ls) Ll dl k \<and> a_huge a' = a_huge a \<and> a_mem a' = a_mem a \<and> (\<forall>x\<in>Ls. bytes (off, m) \<inter> bytes x = {}) \<and>
      slab_growth cfg a a') \<or>
    allocate_untyped IV cfg map_ok ly t n a = Inl Unwrap_None \<and> indices_exhausted cfg (a_small a)"
proof -
  obtain c where c: "small_new n = Inr (Some c)" "class_ok small_bracket c" "b_size small_bracket c = m"
    using n unfolding m_def by (rule small_class_cases)
  let ?h = "with_ctx (a_help a) (a_log a) (a_small a)"
  have "pool cfg small_bracket ?h (Ls \<union> descs dl)" using partsD(1) [OF p] by simp
  from small.pool_take [OF this c(2) cfg, of base t] show ?thesis
  proof (elim disjE exE conjE)
    fix off h'
    assume h: "heap_take cfg small_bracket base t c ?h = Inr (Some (base + off), h')"
      "pool cfg small_bracket h' (insert (off, b_size small_bracket c) (Ls \<union> descs dl))"
      "\<forall>x\<in>Ls \<union> descs dl. bytes (off, b_size small_bracket c) \<inter> bytes x = {}" "frontier (view h') \<le> frontier (view ?h) + batch_bump_pop cfg"
    let ?a = "clear_log t (a\<lparr>a_small := h', a_help := help_arr h', a_log := log_state h'\<rparr>)"
    have "allocate_untyped IV cfg map_ok ly t n a = Inr (Some (base + off), ?a)"
      using c(1) h(1) by (simp add: allocate_untyped_def on_small_def base_def)
    moreover have "(off, m) \<notin> descs dl" using fresh_not_in(2) [OF h(3) small.size_pos [OF c(2)]] c(3) by simp
    then have "parts IV cfg ?a (insert (off, m) Ls) Ll dl k" using p h(2) c(3) by (auto simp: parts_def)
    ultimately show ?thesis using h(3,4) c(3) by (intro disjI1 exI [of _ off] exI [of _ ?a]) (simp add: slab_growth_def)
  next
    assume "heap_take cfg small_bracket base t c ?h = Inl Unwrap_None" "indices_exhausted cfg ?h"
    then show ?thesis using c(1) by (simp add: allocate_untyped_def on_small_def base_def)
  qed
qed

lemma large_class_cases:
  assumes "1016 < n" "n \<le> 524288"
  obtains c where "large_new n = Inr (Some c)" "class_ok large_bracket c" "b_size large_bracket c = next_power_of_two n"
proof -
  have n: "512 < n" "n \<le> 524288" using assms by simp_all
  obtain c where "large_new n = Inr (Some c)" "large_index c < 10" "large_size c = next_power_of_two n" using n by (rule large_new_Some)
  then show thesis using that large_class_ok [of c] by (simp add: large_bracket_def)
qed

lemma allocate_large_step:
  fixes ly :: layout and n :: nat
  assumes p: "parts IV cfg a Ls Ll dl k" and cfg: "config_ok cfg" and n: "1016 < n" "n \<le> 524288"
  defines "base \<equiv> base_of large_bracket (ly_large ly)" and "m \<equiv> next_power_of_two n"
  shows "(\<exists>off a'. allocate_untyped IV cfg map_ok ly t n a = Inr (Some (base + off), a') \<and>
      parts IV cfg a' Ls (insert (off, m) Ll) dl k \<and> a_huge a' = a_huge a \<and> a_mem a' = a_mem a \<and> (\<forall>x\<in>Ll. bytes (off, m) \<inter> bytes x = {}) \<and>
      slab_growth cfg a a') \<or>
    allocate_untyped IV cfg map_ok ly t n a = Inl Unwrap_None \<and> indices_exhausted cfg (a_large a)"
proof -
  obtain c where c: "large_new n = Inr (Some c)" "class_ok large_bracket c" "b_size large_bracket c = m"
    using n unfolding m_def by (rule large_class_cases)
  let ?h = "with_ctx (a_help a) (a_log a) (a_large a)"
  have "pool cfg large_bracket ?h Ll" using partsD(3) [OF p] by simp
  from large.pool_take [OF this c(2) cfg, of base t] show ?thesis
  proof (elim disjE exE conjE)
    fix off h'
    assume h: "heap_take cfg large_bracket base t c ?h = Inr (Some (base + off), h')"
      "pool cfg large_bracket h' (insert (off, b_size large_bracket c) Ll)" "\<forall>x\<in>Ll. bytes (off, b_size large_bracket c) \<inter> bytes x = {}"
      "frontier (view h') \<le> frontier (view ?h) + batch_bump_pop cfg"
    let ?a = "a\<lparr>a_large := h', a_help := help_arr h', a_log := log_state h'\<rparr>"
    have "allocate_untyped IV cfg map_ok ly t n a = Inr (Some (base + off), ?a)"
      using c(1) h(1) small_new_None [OF n(1)] by (simp add: allocate_untyped_def allocate_large_def on_large_def base_def)
    moreover have "parts IV cfg ?a Ls (insert (off, m) Ll) dl k" using p h(2) c(3) by (auto simp: parts_def)
    ultimately show ?thesis using h(3,4) c(3) by (intro disjI1 exI [of _ off] exI [of _ ?a]) (simp add: slab_growth_def)
  next
    assume "heap_take cfg large_bracket base t c ?h = Inl Unwrap_None" "indices_exhausted cfg ?h"
    then show ?thesis using c(1) small_new_None [OF n(1)] by (simp add: allocate_untyped_def allocate_large_def on_large_def base_def)
  qed
qed

lemma descs_linked:
  "descs (dl(t := linked_list True i (dl t))) = descs dl" "descs (dl(t := linked_list False i (dl t))) = insert (i, 64) (descs dl)"
  by (auto simp: descs_def linked_list_def)

text \<open>
  A huge allocation finds a descriptor, an unused one of the thread or a fresh block of the small
  heap, and hands it to the huge heap.
\<close>

lemma allocate_huge_descriptor:
  fixes ly :: layout
  assumes p: "parts IV cfg a Ls Ll dl k" and cfg: "config_ok cfg"
    and m: "next_multiple_of_w cfg n SIZE_PAGE = Inr m" "0 < m" and r: "huge_reuse IV cfg t (a_huge a) = Inr (r, h1)"
  shows "(\<exists>out b. (case r of Some i \<Rightarrow> out = i | None \<Rightarrow> \<forall>u. out \<notin> set (dl u)) \<and>
      allocate_huge IV cfg map_ok ly t n a =
        andthen (huge_allocate IV cfg map_ok (base_of huge_bracket (ly_huge ly)) t m out (r \<noteq> None) h1) (\<lambda>(p, h). Inr (Some p, b\<lparr>a_huge := h\<rparr>)) \<and>
      a_large b = a_large a \<and> a_mem b = a_mem a \<and> slab_growth cfg a b \<and>
      pool cfg small_bracket (a_small b) (Ls \<union> descs (dl(t := linked_list (r \<noteq> None) out (dl t)))) \<and>
      Ls \<inter> descs (dl(t := linked_list (r \<noteq> None) out (dl t))) = {}) \<or>
    allocate_huge IV cfg map_ok ly t n a = Inl Unwrap_None \<and> indices_exhausted cfg (a_small a)"
proof (cases r)
  case (Some out)
  then have "allocate_huge IV cfg map_ok ly t n a =
      andthen (huge_allocate IV cfg map_ok (base_of huge_bracket (ly_huge ly)) t m out (r \<noteq> None) h1) (\<lambda>(p, h). Inr (Some p, a\<lparr>a_huge := h\<rparr>))"
    using m r by (simp add: allocate_huge_def)
  then show ?thesis using Some partsD [OF p] by (intro disjI1 exI [of _ out] exI [of _ a]) (simp add: descs_linked slab_growth_def)
next
  case None
  let ?h = "with_ctx (a_help a) (a_log a) (a_small a)"
  have "pool cfg small_bracket ?h (Ls \<union> descs dl)" using partsD(1) [OF p] by simp
  from small.pool_peek [OF this descriptor_class_ok(1) cfg, of t] show ?thesis
  proof (elim disjE exE conjE)
    fix i b s1 out s2
    assume s: "heap_peek cfg small_bracket t descriptor_class ?h = Inr (Some (i, b), s1)"
      "from_block cfg small_bracket descriptor_class i b = Inr out"
      "\<forall>base. heap_pop cfg small_bracket base t descriptor_class i b s1 = Inr (base + out, s2)"
      "pool cfg small_bracket s2 (insert (out, b_size small_bracket descriptor_class) (Ls \<union> descs dl))"
      "\<forall>x\<in>Ls \<union> descs dl. bytes (out, b_size small_bracket descriptor_class) \<inter> bytes x = {}"
      "frontier (view s2) \<le> frontier (view ?h) + batch_bump_pop cfg"
    have new: "(out, 64) \<notin> Ls \<union> descs dl" using fresh_not_in(2) [OF s(5)] by (simp add: descriptor_class_ok(2))
    let ?b = "a\<lparr>a_small := s2, a_help := help_arr s2, a_log := log_state s2\<rparr>"
    have "allocate_huge IV cfg map_ok ly t n a =
        andthen (huge_allocate IV cfg map_ok (base_of huge_bracket (ly_huge ly)) t m out (r \<noteq> None) h1) (\<lambda>(p, h). Inr (Some p, ?b\<lparr>a_huge := h\<rparr>))"
      using m r None s(1-3) by (auto simp: allocate_huge_def on_small_def andthen_def split: sum.splits)
    moreover have "\<forall>u. out \<notin> set (dl u)" using new by (auto simp: descs_def)
    moreover have "pool cfg small_bracket s2 (Ls \<union> descs (dl(t := linked_list False out (dl t))))"
      "Ls \<inter> descs (dl(t := linked_list False out (dl t))) = {}"
      using s(4) new partsD(2) [OF p] by (simp_all add: descs_linked descriptor_class_ok(2))
    ultimately show ?thesis using None s(6) by (intro disjI1 exI [of _ out] exI [of _ ?b]) (simp add: slab_growth_def)
  next
    assume "heap_peek cfg small_bracket t descriptor_class ?h = Inl Unwrap_None" "indices_exhausted cfg ?h"
    then show ?thesis using m r None by (simp add: allocate_huge_def on_small_def)
  qed
qed

lemma allocate_huge_step:
  fixes ly :: layout and n :: nat
  assumes IV: "interval_laws IV" and p: "parts IV cfg a Ls Ll dl k" and cfg: "config_ok cfg"
    and n: "524288 < n" "n \<le> reservation_size" and t: "thread_ok t" "has_room t (a_huge a)"
  defines "base \<equiv> base_of huge_bracket (ly_huge ly)" and "m \<equiv> next_multiple_of n SIZE_PAGE"
  shows "(\<exists>off a' dl' k'. allocate_untyped IV cfg (\<lambda>_ _. True) ly t n a = Inr (Some (base + off), a') \<and>
      parts IV cfg a' Ls Ll dl' k' \<and> huge_live (a_huge a') dl' = insert (off, m) (huge_live (a_huge a) dl) \<and>
      (\<forall>x\<in>huge_live (a_huge a) dl. bytes (off, m) \<inter> bytes x = {}) \<and> a_mem a' = a_mem a \<and> slab_growth cfg a a') \<or>
    allocate_untyped IV cfg (\<lambda>_ _. True) ly t n a = Inl Unwrap_None \<and> indices_exhausted cfg (a_small a) \<or>
    allocate_untyped IV cfg (\<lambda>_ _. True) ly t n a = Inl (Explicit ''Out of virtual address space'') \<and> 1024 < k + slot_count m"
proof -
  have m: "m < 2 ^ 64" "0 < m"
    using next_multiple_of_less [of SIZE_PAGE n] next_multiple_of_ge [of SIZE_PAGE n] n by (simp_all add: m_def SIZE_PAGE_def reservation_size_def)
  then have sz: "next_multiple_of_w cfg n SIZE_PAGE = Inr m" using next_multiple_of_w_ok [of SIZE_PAGE n cfg] by (simp add: m_def SIZE_PAGE_def)
  have route: "allocate_untyped IV cfg (\<lambda>_ _. True) ly t n a = allocate_huge IV cfg (\<lambda>_ _. True) ly t n a"
    using n by (simp add: allocate_untyped_def allocate_large_def small_new_None large_new_None)
  note inv = partsD(4) [OF p]
  obtain r h1 where r: "huge_reuse IV cfg t (a_huge a) = Inr (r, h1)" using interval_laws.huge_reuse_ok [OF IV inv, of cfg t] by blast
  from allocate_huge_descriptor [OF p cfg sz m(2) r, of "\<lambda>_ _. True" ly] show ?thesis
  proof (elim disjE exE conjE)
    fix out b
    let ?dl = "dl(t := linked_list (r \<noteq> None) out (dl t))"
    assume out: "case r of Some i \<Rightarrow> out = i | None \<Rightarrow> \<forall>u. out \<notin> set (dl u)"
      and b: "allocate_huge IV cfg (\<lambda>_ _. True) ly t n a =
        andthen (huge_allocate IV cfg (\<lambda>_ _. True) (base_of huge_bracket (ly_huge ly)) t m out (r \<noteq> None) h1) (\<lambda>(p, h). Inr (Some p, b\<lparr>a_huge := h\<rparr>))"
        "a_large b = a_large a" "a_mem b = a_mem a" "slab_growth cfg a b" "pool cfg small_bracket (a_small b) (Ls \<union> descs ?dl)" "Ls \<inter> descs ?dl = {}"
    from interval_laws.huge_live_step [OF IV inv t(1) m(2) t(2) r out, of base] show ?thesis
    proof (elim disjE exE conjE)
      fix off h' k'
      assume h: "huge_allocate IV cfg (\<lambda>_ _. True) base t m out (r \<noteq> None) h1 = Inr (base + off, h')" "huge_inv IV h' ?dl k'"
        "huge_live h' ?dl = insert (off, m) (huge_live (a_huge a) dl)" "\<forall>x\<in>huge_live (a_huge a) dl. bytes (off, m) \<inter> bytes x = {}"
      have "parts IV cfg (b\<lparr>a_huge := h'\<rparr>) Ls Ll ?dl k'" using p h(2) b(2,5,6) by (simp add: parts_def)
      moreover have "allocate_untyped IV cfg (\<lambda>_ _. True) ly t n a = Inr (Some (base + off), b\<lparr>a_huge := h'\<rparr>)"
        unfolding route b(1) using h(1) by (simp add: base_def)
      moreover have "slab_growth cfg a (b\<lparr>a_huge := h'\<rparr>)" using b(4) by (simp add: slab_growth_def)
      ultimately show ?thesis using h(3,4) b(3)
        by (intro disjI1 exI [of _ off] exI [of _ "b\<lparr>a_huge := h'\<rparr>"] exI [of _ ?dl] exI [of _ k']) simp
    qed (unfold route b(1), simp add: base_def)
  qed (simp add: route)
qed

subsection \<open>Blocks as addresses\<close>

definition layout_ok :: "layout \<Rightarrow> bool" where
  "layout_ok ly \<longleftrightarrow> SIZE_SLAB small_bracket \<le> ly_small ly \<and>
     ly_large ly = ly_small ly + reservation_size \<and> ly_huge ly = ly_large ly + reservation_size"

definition shift :: "nat \<Rightarrow> (nat \<times> nat) set \<Rightarrow> (nat \<times> nat) set" where
  "shift base X = (\<lambda>(off, n). (base + off, n)) ` X"

definition held_by_clients :: "layout \<Rightarrow> 's allocator \<Rightarrow> (nat \<times> nat) set \<Rightarrow> (nat \<times> nat) set \<Rightarrow> (nat \<Rightarrow> nat list) \<Rightarrow> (nat \<times> nat) set" where
  "held_by_clients ly a Ls Ll dl = shift (base_of small_bracket (ly_small ly)) Ls \<union>
     shift (base_of large_bracket (ly_large ly)) Ll \<union> shift (base_of huge_bracket (ly_huge ly)) (huge_live (a_huge a) dl)"

definition in_regions :: "'s allocator \<Rightarrow> bool" where
  "in_regions a \<longleftrightarrow> within_reservation small_bracket (a_small a) \<and> within_reservation large_bracket (a_large a)"

text \<open>The size that a request of \<open>n\<close> bytes is rounded to.\<close>

definition granted_size :: "nat \<Rightarrow> nat" where
  "granted_size n = (if n \<le> 1016 then next_multiple_of n 8 else if n \<le> 524288 then next_power_of_two n else next_multiple_of n SIZE_PAGE)"

lemma shift_insert: "shift b (insert (off, n) X) = insert (b + off, n) (shift b X)"
  by (simp add: shift_def)

lemma bytes_shift: "bytes (b + off, n) \<inter> bytes (b + off', n') = {} \<longleftrightarrow> bytes (off, n) \<inter> bytes (off', n') = {}"
proof -
  have "bytes (b + o1, k) = (+) b ` bytes (o1, k)" for o1 k by (simp add: bytes_def ac_simps)
  moreover have "(+) b ` X \<inter> (+) b ` Y = (+) b ` (X \<inter> Y)" for X Y by (simp add: image_Int)
  ultimately show ?thesis by simp
qed

lemma slab_sizes: "SIZE_SLAB small_bracket \<le> reservation_size" "SIZE_SLAB large_bracket \<le> reservation_size" "SIZE_SLAB huge_bracket \<le> reservation_size"
  by (simp_all add: small_bracket_def large_bracket_def huge_bracket_def huge_size_slab_def size_values reservation_size_def)

lemma base_of_region:
  assumes "layout_ok ly"
  shows "base_of small_bracket (ly_small ly) + SIZE_SLAB small_bracket = ly_small ly"
    "base_of large_bracket (ly_large ly) + SIZE_SLAB large_bracket = ly_large ly"
    "base_of huge_bracket (ly_huge ly) + S = ly_huge ly"
  using assms slab_sizes by (simp_all add: layout_ok_def base_of_def)

text \<open>Each block lies in the region of its heap.\<close>

lemma shift_region:
  assumes "base + slab = region" "slab \<le> off" "off - slab + n \<le> reservation_size" "0 < n"
  shows "region \<le> base + off" "base + off + n \<le> region + reservation_size" "base + off < region + reservation_size"
  using assms by linarith+

lemma held_region:
  assumes p: "parts IV cfg a Ls Ll dl k" and ly: "layout_ok ly" and r: "in_regions a"
  shows "(q, n) \<in> shift (base_of small_bracket (ly_small ly)) Ls \<Longrightarrow> ly_small ly \<le> q \<and> q + n \<le> ly_large ly \<and> 0 < n"
    "(q, n) \<in> shift (base_of large_bracket (ly_large ly)) Ll \<Longrightarrow> ly_large ly \<le> q \<and> q + n \<le> ly_huge ly \<and> 0 < n"
    "(q, n) \<in> shift (base_of huge_bracket (ly_huge ly)) (huge_live (a_huge a) dl) \<Longrightarrow>
      ly_huge ly \<le> q \<and> q + n \<le> ly_huge ly + reservation_size \<and> 0 < n"
proof -
  note b = base_of_region [OF ly] and regions = ly [unfolded layout_ok_def]
  show "ly_small ly \<le> q \<and> q + n \<le> ly_large ly \<and> 0 < n" if x: "(q, n) \<in> shift (base_of small_bracket (ly_small ly)) Ls"
  proof -
    obtain off where off: "q = base_of small_bracket (ly_small ly) + off" "(off, n) \<in> Ls" using x by (auto simp: shift_def)
    have "(off, n) \<in> Ls \<union> descs dl" using off(2) by simp
    from small.pool_within [OF partsD(1) [OF p] _ this] r show ?thesis
      using shift_region [OF b(1), of off n] regions off(1) by (simp add: in_regions_def)
  qed
  show "ly_large ly \<le> q \<and> q + n \<le> ly_huge ly \<and> 0 < n" if x: "(q, n) \<in> shift (base_of large_bracket (ly_large ly)) Ll"
  proof -
    obtain off where off: "q = base_of large_bracket (ly_large ly) + off" "(off, n) \<in> Ll" using x by (auto simp: shift_def)
    from large.pool_within [OF partsD(3) [OF p] _ off(2)] r show ?thesis
      using shift_region [OF b(2), of off n] regions off(1) by (simp add: in_regions_def)
  qed
  show "ly_huge ly \<le> q \<and> q + n \<le> ly_huge ly + reservation_size \<and> 0 < n"
    if x: "(q, n) \<in> shift (base_of huge_bracket (ly_huge ly)) (huge_live (a_huge a) dl)"
  proof -
    obtain off where off: "q = base_of huge_bracket (ly_huge ly) + off" "(off, n) \<in> huge_live (a_huge a) dl" using x by (auto simp: shift_def)
    from huge_live_within [OF partsD(4) [OF p] off(2)] show ?thesis using shift_region [OF b(3), of off n] off(1) by simp
  qed
qed

text \<open>Blocks of different heaps are apart.\<close>

abbreviation small_held :: "layout \<Rightarrow> (nat \<times> nat) set \<Rightarrow> (nat \<times> nat) set" where
  "small_held ly Ls \<equiv> shift (base_of small_bracket (ly_small ly)) Ls"

abbreviation large_held :: "layout \<Rightarrow> (nat \<times> nat) set \<Rightarrow> (nat \<times> nat) set" where
  "large_held ly Ll \<equiv> shift (base_of large_bracket (ly_large ly)) Ll"

abbreviation huge_held :: "layout \<Rightarrow> 's allocator \<Rightarrow> (nat \<Rightarrow> nat list) \<Rightarrow> (nat \<times> nat) set" where
  "huge_held ly a dl \<equiv> shift (base_of huge_bracket (ly_huge ly)) (huge_live (a_huge a) dl)"

lemma apart_bytes: "fst x + snd x \<le> fst y \<Longrightarrow> bytes x \<inter> bytes y = {}"
  by (cases x, cases y) (auto simp: bytes_def)

lemma held_apart:
  assumes p: "parts IV cfg a Ls Ll dl k" and ly: "layout_ok ly" and r: "in_regions a"
  shows "x \<in> small_held ly Ls \<Longrightarrow> y \<in> large_held ly Ll \<Longrightarrow> bytes x \<inter> bytes y = {}"
    "x \<in> small_held ly Ls \<Longrightarrow> y \<in> huge_held ly a dl \<Longrightarrow> bytes x \<inter> bytes y = {}"
    "x \<in> large_held ly Ll \<Longrightarrow> y \<in> huge_held ly a dl \<Longrightarrow> bytes x \<inter> bytes y = {}"
proof -
  obtain q n q' n' where eq: "x = (q, n)" "y = (q', n')" by (cases x, cases y) auto
  note region = held_region [OF p ly r, of q n] held_region [OF p ly r, of q' n']
  have ord: "ly_large ly \<le> ly_huge ly" using ly by (simp add: layout_ok_def)
  show "bytes x \<inter> bytes y = {}" if "x \<in> small_held ly Ls" "y \<in> large_held ly Ll"
    using region that eq by (intro apart_bytes) auto
  show "bytes x \<inter> bytes y = {}" if "x \<in> small_held ly Ls" "y \<in> huge_held ly a dl"
    using region that eq ord by (intro apart_bytes) auto
  show "bytes x \<inter> bytes y = {}" if "x \<in> large_held ly Ll" "y \<in> huge_held ly a dl"
    using region that eq by (intro apart_bytes) auto
qed

lemma held_sized:
  assumes p: "parts IV cfg a Ls Ll dl k" and ly: "layout_ok ly" and r: "in_regions a" and x: "x \<in> held_by_clients ly a Ls Ll dl"
  shows "bytes x \<noteq> {}"
  using held_region [OF p ly r, of "fst x" "snd x"] x by (cases x) (auto simp: held_by_clients_def bytes_def)

lemma shift_disjoint:
  assumes "\<And>x y. x \<in> X \<Longrightarrow> y \<in> X \<Longrightarrow> x \<noteq> y \<Longrightarrow> bytes x \<inter> bytes y = {}"
    and "x \<in> shift b X" "y \<in> shift b X" "x \<noteq> y"
  shows "bytes x \<inter> bytes y = {}"
proof -
  obtain o1 n1 o2 n2 where "x = (b + o1, n1)" "y = (b + o2, n2)" "(o1, n1) \<in> X" "(o2, n2) \<in> X" using assms(2,3) by (auto simp: shift_def)
  then show ?thesis using assms(1) [of "(o1, n1)" "(o2, n2)"] assms(4) by (simp add: bytes_shift)
qed

lemma held_blocks_disjoint:
  assumes p: "parts IV cfg a Ls Ll dl k" and ly: "layout_ok ly" and r: "in_regions a"
    and xy: "x \<in> held_by_clients ly a Ls Ll dl" "y \<in> held_by_clients ly a Ls Ll dl" "x \<noteq> y"
  shows "bytes x \<inter> bytes y = {}"
proof -
  note apart = held_apart [OF p ly r]
  have "bytes x \<inter> bytes y = {}" if "x \<in> small_held ly Ls" "y \<in> small_held ly Ls"
    using shift_disjoint [of Ls x "base_of small_bracket (ly_small ly)" y] small.pool_disjoint [OF partsD(1) [OF p]] that xy(3) by blast
  moreover have "bytes x \<inter> bytes y = {}" if "x \<in> large_held ly Ll" "y \<in> large_held ly Ll"
    using shift_disjoint [OF large.pool_disjoint [OF partsD(3) [OF p]] that xy(3)] by simp
  moreover have "bytes x \<inter> bytes y = {}" if "x \<in> huge_held ly a dl" "y \<in> huge_held ly a dl"
    using shift_disjoint [OF huge_live_disjoint [OF partsD(4) [OF p]] that xy(3)] by simp
  ultimately show ?thesis
    using xy(1,2) apart [of x y] apart [of y x] unfolding held_by_clients_def Un_iff Int_commute [of "bytes y"] by blast
qed

subsection \<open>Allocation\<close>

lemma shift_fresh:
  assumes "\<forall>x\<in>X. bytes (off, n) \<inter> bytes x = {}" "y \<in> shift b X"
  shows "bytes (b + off, n) \<inter> bytes y = {}"
proof -
  obtain o1 n1 where "y = (b + o1, n1)" "(o1, n1) \<in> X" using assms(2) by (auto simp: shift_def)
  then show ?thesis using assms(1) by (simp add: bytes_shift)
qed

lemma in_shift: "(off, n) \<in> X \<Longrightarrow> (b + off, n) \<in> shift b X"
  by (force simp: shift_def)

text \<open>
  Every allocation adds one block of the granted size to the blocks of the clients and overlaps
  none of them, or panics: the slab indices or the address space of the huge heap are used up.
\<close>

definition new_block :: "'s interval_ops \<Rightarrow> config \<Rightarrow> layout \<Rightarrow> (nat \<times> nat) set \<Rightarrow> nat \<Rightarrow> nat \<Rightarrow> 's allocator \<Rightarrow> bool" where
  "new_block IV cfg ly L q n a' \<longleftrightarrow>
     (\<exists>Ls Ll dl k. parts IV cfg a' Ls Ll dl k \<and> held_by_clients ly a' Ls Ll dl = insert (q, n) L) \<and>
     (in_regions a' \<longrightarrow> (\<forall>x\<in>L. bytes (q, n) \<inter> bytes x = {}))"

lemma new_small:
  assumes "parts IV cfg a' (insert (off, m) Ls) Ll dl k" "a_huge a' = a_huge a" "\<forall>x\<in>Ls. bytes (off, m) \<inter> bytes x = {}" "layout_ok ly"
  shows "new_block IV cfg ly (held_by_clients ly a Ls Ll dl) (base_of small_bracket (ly_small ly) + off) m a'"
proof -
  let ?q = "base_of small_bracket (ly_small ly) + off"
  have held: "held_by_clients ly a' (insert (off, m) Ls) Ll dl = insert (?q, m) (held_by_clients ly a Ls Ll dl)"
    using assms(2) by (simp add: held_by_clients_def shift_insert)
  have "(?q, m) \<in> small_held ly (insert (off, m) Ls)" by (intro in_shift) simp
  then have "in_regions a' \<longrightarrow> (\<forall>x\<in>held_by_clients ly a Ls Ll dl. bytes (?q, m) \<inter> bytes x = {})"
    using held_apart(1,2) [OF assms(1,4), of "(?q, m)"] shift_fresh [OF assms(3), of _ "base_of small_bracket (ly_small ly)"]
    unfolding held_by_clients_def Un_iff assms(2) by blast
  then show ?thesis using held assms(1) unfolding new_block_def by blast
qed

lemma new_large:
  assumes "parts IV cfg a' Ls (insert (off, m) Ll) dl k" "a_huge a' = a_huge a" "\<forall>x\<in>Ll. bytes (off, m) \<inter> bytes x = {}" "layout_ok ly"
  shows "new_block IV cfg ly (held_by_clients ly a Ls Ll dl) (base_of large_bracket (ly_large ly) + off) m a'"
proof -
  let ?q = "base_of large_bracket (ly_large ly) + off"
  have held: "held_by_clients ly a' Ls (insert (off, m) Ll) dl = insert (?q, m) (held_by_clients ly a Ls Ll dl)"
    using assms(2) by (simp add: held_by_clients_def shift_insert)
  have "(?q, m) \<in> large_held ly (insert (off, m) Ll)" by (intro in_shift) simp
  then have "in_regions a' \<longrightarrow> (\<forall>x\<in>held_by_clients ly a Ls Ll dl. bytes (?q, m) \<inter> bytes x = {})"
    using held_apart(1) [OF assms(1,4), of _ "(?q, m)", THEN trans [OF Int_commute]] held_apart(3) [OF assms(1,4), of "(?q, m)"]
      shift_fresh [OF assms(3), of _ "base_of large_bracket (ly_large ly)"]
    unfolding held_by_clients_def Un_iff assms(2) by blast
  then show ?thesis using held assms(1) unfolding new_block_def by blast
qed

lemma new_huge:
  assumes "parts IV cfg a' Ls Ll dl' k" "huge_live (a_huge a') dl' = insert (off, m) (huge_live (a_huge a) dl)"
    "\<forall>x\<in>huge_live (a_huge a) dl. bytes (off, m) \<inter> bytes x = {}" "layout_ok ly"
  shows "new_block IV cfg ly (held_by_clients ly a Ls Ll dl) (base_of huge_bracket (ly_huge ly) + off) m a'"
proof -
  let ?q = "base_of huge_bracket (ly_huge ly) + off"
  have held: "held_by_clients ly a' Ls Ll dl' = insert (?q, m) (held_by_clients ly a Ls Ll dl)"
    using assms(2) by (simp add: held_by_clients_def shift_insert)
  have "(?q, m) \<in> huge_held ly a' dl'" using assms(2) by (intro in_shift) simp
  then have "in_regions a' \<longrightarrow> (\<forall>x\<in>held_by_clients ly a Ls Ll dl. bytes (?q, m) \<inter> bytes x = {})"
    using held_apart(2,3) [OF assms(1,4), of _ "(?q, m)", THEN trans [OF Int_commute]] shift_fresh [OF assms(3), of _ "base_of huge_bracket (ly_huge ly)"]
    unfolding held_by_clients_def Un_iff by blast
  then show ?thesis using held assms(1) unfolding new_block_def by blast
qed

lemma allocate_step:
  assumes IV: "interval_laws IV" and p: "parts IV cfg a Ls Ll dl k" and cfg: "config_ok cfg" and ly: "layout_ok ly"
    and n: "0 < n" "n \<le> reservation_size" and t: "thread_ok t" "has_room t (a_huge a)"
  shows "(\<exists>q a'. allocate_untyped IV cfg (\<lambda>_ _. True) ly t n a = Inr (Some q, a') \<and> a_mem a' = a_mem a \<and> slab_growth cfg a a' \<and>
      new_block IV cfg ly (held_by_clients ly a Ls Ll dl) q (granted_size n) a') \<or>
    allocate_untyped IV cfg (\<lambda>_ _. True) ly t n a = Inl Unwrap_None \<and>
      (indices_exhausted cfg (a_small a) \<or> indices_exhausted cfg (a_large a)) \<or>
    allocate_untyped IV cfg (\<lambda>_ _. True) ly t n a = Inl (Explicit ''Out of virtual address space'')"
proof -
  consider "n \<le> 1016" | "1016 < n" "n \<le> 524288" | "524288 < n" by linarith
  then show ?thesis
  proof cases
    case 1
    from allocate_small_step [OF p cfg n(1) 1, of "\<lambda>_ _. True" ly t] new_small [OF _ _ _ ly, of IV cfg _ _ _ Ls Ll dl k a] 1 show ?thesis
      by (simp add: granted_size_def) blast
  next
    case 2
    from allocate_large_step [OF p cfg 2, of "\<lambda>_ _. True" ly t] new_large [OF _ _ _ ly, of IV cfg _ Ls _ _ Ll dl k a] 2 show ?thesis
      by (simp add: granted_size_def) blast
  next
    case 3
    from allocate_huge_step [OF IV p cfg 3 n(2) t, of ly] new_huge [OF _ _ _ ly, of IV cfg _ Ls Ll _ _ _ _ a dl] 3 show ?thesis
      by (simp add: granted_size_def) blast
  qed
qed

subsection \<open>From a pointer to its heap\<close>

lemma route_small:
  assumes "parts IV cfg a Ls Ll dl k" "layout_ok ly" "in_regions a" "(off, n) \<in> Ls"
  shows "checked_pointer_to_offset cfg small_bracket (base_of small_bracket (ly_small ly)) (base_of small_bracket (ly_small ly) + off) = Inr (Some off)"
  using small.pool_within [OF partsD(1) [OF assms(1)], of off n] assms(3,4) by (intro small.checked_inside) (auto simp: in_regions_def)

lemma beyond_small:
  assumes "layout_ok ly" "ly_large ly \<le> q"
  shows "checked_pointer_to_offset cfg small_bracket (base_of small_bracket (ly_small ly)) q = Inr None"
  using small.checked_outside [OF base_of_region(1) [OF assms(1), symmetric]] assms by (simp add: layout_ok_def)

lemma route_large:
  assumes "parts IV cfg a Ls Ll dl k" "layout_ok ly" "in_regions a" "(off, n) \<in> Ll"
  defines "q \<equiv> base_of large_bracket (ly_large ly) + off"
  shows "checked_pointer_to_offset cfg small_bracket (base_of small_bracket (ly_small ly)) q = Inr None"
    "checked_pointer_to_offset cfg large_bracket (base_of large_bracket (ly_large ly)) q = Inr (Some off)"
proof -
  have "ly_large ly \<le> q" using held_region(2) [OF assms(1-3), of q n] in_shift [OF assms(4)] by (simp add: q_def)
  then show "checked_pointer_to_offset cfg small_bracket (base_of small_bracket (ly_small ly)) q = Inr None" using beyond_small assms(2) by blast
  show "checked_pointer_to_offset cfg large_bracket (base_of large_bracket (ly_large ly)) q = Inr (Some off)"
    unfolding q_def using large.pool_within [OF partsD(3) [OF assms(1)] _ assms(4)] assms(3) by (intro large.checked_inside) (auto simp: in_regions_def)
qed

lemma route_huge:
  assumes "parts IV cfg a Ls Ll dl k" "layout_ok ly" "in_regions a" "(off, n) \<in> huge_live (a_huge a) dl"
  defines "q \<equiv> base_of huge_bracket (ly_huge ly) + off"
  shows "checked_pointer_to_offset cfg small_bracket (base_of small_bracket (ly_small ly)) q = Inr None"
    "checked_pointer_to_offset cfg large_bracket (base_of large_bracket (ly_large ly)) q = Inr None"
    "huge_checked_pointer_to_offset (ly_huge ly) (base_of huge_bracket (ly_huge ly)) q = Some off"
proof -
  have q: "ly_huge ly \<le> q" "q + n \<le> ly_huge ly + reservation_size" "0 < n"
    using held_region(3) [OF assms(1-3), of q n] in_shift [OF assms(4)] by (simp_all add: q_def)
  have "ly_large ly \<le> ly_huge ly" using assms(2) by (simp add: layout_ok_def)
  then show "checked_pointer_to_offset cfg small_bracket (base_of small_bracket (ly_small ly)) q = Inr None" using beyond_small assms(2) q(1) by simp
  show "checked_pointer_to_offset cfg large_bracket (base_of large_bracket (ly_large ly)) q = Inr None"
    using large.checked_outside [OF base_of_region(2) [OF assms(2), symmetric]] assms(2) q(1) by (simp add: layout_ok_def)
  have "0 < off" using huge_live_within(1) [OF partsD(4) [OF assms(1)] assms(4)] by (simp add: huge_bracket_def huge_size_slab_def)
  then show "huge_checked_pointer_to_offset (ly_huge ly) (base_of huge_bracket (ly_huge ly)) q = Some off"
    using q by (simp add: huge_checked_pointer_to_offset_def random_contains_def pointer_to_offset_def checked_sub_def) (simp add: q_def)
qed

lemma huge_live_descriptor:
  assumes "(off, n) \<in> huge_live h dl"
  obtains i u where "i \<in> set (dl u)" "d_offset (hg_desc h i) = off" "d_size (hg_desc h i) = n" "d_state (hg_desc h i) = D_Live"
  using assms by (auto simp: huge_live_def)

lemma class_untyped_held:
  assumes p: "parts IV cfg a Ls Ll dl k" and ly: "layout_ok ly" and r: "in_regions a" and x: "(q, n) \<in> held_by_clients ly a Ls Ll dl"
  shows "class_untyped cfg ly q a = Inr n"
proof -
  consider off where "q = base_of small_bracket (ly_small ly) + off" "(off, n) \<in> Ls"
    | off where "q = base_of large_bracket (ly_large ly) + off" "(off, n) \<in> Ll"
    | off where "q = base_of huge_bracket (ly_huge ly) + off" "(off, n) \<in> huge_live (a_huge a) dl"
    using x by (auto simp: held_by_clients_def shift_def)
  then show ?thesis
  proof cases
    case (1 off)
    then show ?thesis using route_small [OF p ly r] small.pool_class [OF partsD(1) [OF p], of off n] by (auto simp: class_untyped_def)
  next
    case (2 off)
    then show ?thesis using route_large [OF p ly r] large.pool_class [OF partsD(3) [OF p], of off n] by (auto simp: class_untyped_def)
  next
    case (3 off)
    obtain i u where i: "i \<in> set (dl u)" "d_offset (hg_desc (a_huge a) i) = off" "d_size (hg_desc (a_huge a) i) = n" "d_state (hg_desc (a_huge a) i) = D_Live"
      using 3(2) by (rule huge_live_descriptor)
    have "off \<in> drange (hg_desc (a_huge a) i)" using i(2,3) huge_live_within(3) [OF partsD(4) [OF p] 3(2)] by (simp add: drange_def)
    then have "huge_class off (a_huge a) = Inr n" using huge_find_ok [OF partsD(4) [OF p] i(1)] i(3,4) by (simp add: huge_class_def)
    then show ?thesis using 3(1) route_huge [OF p ly r 3(2)] by (simp add: class_untyped_def)
  qed
qed

subsection \<open>Free\<close>

lemma shift_remove: "shift b (X - {(off, n)}) = shift b X - {(b + off, n)}"
  by (auto simp: shift_def)

lemma not_elsewhere:
  assumes "bytes x \<noteq> {}" "\<And>y. y \<in> X \<Longrightarrow> bytes x \<inter> bytes y = {}"
  shows "X - {x} = X"
  using assms by auto

lemma held_remove:
  assumes p: "parts IV cfg a Ls Ll dl k" and ly: "layout_ok ly" and r: "in_regions a"
  shows "(off, n) \<in> Ls \<Longrightarrow> held_by_clients ly a (Ls - {(off, n)}) Ll dl = held_by_clients ly a Ls Ll dl - {(base_of small_bracket (ly_small ly) + off, n)}"
    "(off, n) \<in> Ll \<Longrightarrow> held_by_clients ly a Ls (Ll - {(off, n)}) dl = held_by_clients ly a Ls Ll dl - {(base_of large_bracket (ly_large ly) + off, n)}"
    "(off, n) \<in> huge_live (a_huge a) dl \<Longrightarrow> huge_live h' dl = huge_live (a_huge a) dl - {(off, n)} \<Longrightarrow>
      held_by_clients ly (a\<lparr>a_huge := h'\<rparr>) Ls Ll dl = held_by_clients ly a Ls Ll dl - {(base_of huge_bracket (ly_huge ly) + off, n)}"
proof -
  note apart = held_apart [OF p ly r] and apart' = held_apart [OF p ly r, THEN trans [OF Int_commute]]
  have ne: "bytes x \<noteq> {}" if "x \<in> held_by_clients ly a Ls Ll dl" for x using held_sized [OF p ly r that] .
  show "held_by_clients ly a (Ls - {(off, n)}) Ll dl = held_by_clients ly a Ls Ll dl - {(base_of small_bracket (ly_small ly) + off, n)}" if x: "(off, n) \<in> Ls"
  proof -
    let ?x = "(base_of small_bracket (ly_small ly) + off, n)"
    have m: "?x \<in> small_held ly Ls" by (rule in_shift [OF x])
    have n: "bytes ?x \<noteq> {}" using ne m by (simp add: held_by_clients_def)
    have "large_held ly Ll - {?x} = large_held ly Ll" by (rule not_elsewhere [OF n apart(1) [OF m]])
    moreover have "huge_held ly a dl - {?x} = huge_held ly a dl" by (rule not_elsewhere [OF n apart(2) [OF m]])
    ultimately show ?thesis unfolding held_by_clients_def shift_remove Un_Diff by simp
  qed
  show "held_by_clients ly a Ls (Ll - {(off, n)}) dl = held_by_clients ly a Ls Ll dl - {(base_of large_bracket (ly_large ly) + off, n)}" if x: "(off, n) \<in> Ll"
  proof -
    let ?x = "(base_of large_bracket (ly_large ly) + off, n)"
    have m: "?x \<in> large_held ly Ll" by (rule in_shift [OF x])
    have n: "bytes ?x \<noteq> {}" using ne m by (simp add: held_by_clients_def)
    have "small_held ly Ls - {?x} = small_held ly Ls" by (rule not_elsewhere [OF n apart'(1) [OF _ m]])
    moreover have "huge_held ly a dl - {?x} = huge_held ly a dl" by (rule not_elsewhere [OF n apart(3) [OF m]])
    ultimately show ?thesis unfolding held_by_clients_def shift_remove Un_Diff by simp
  qed
  show "held_by_clients ly (a\<lparr>a_huge := h'\<rparr>) Ls Ll dl = held_by_clients ly a Ls Ll dl - {(base_of huge_bracket (ly_huge ly) + off, n)}"
    if x: "(off, n) \<in> huge_live (a_huge a) dl" and h: "huge_live h' dl = huge_live (a_huge a) dl - {(off, n)}"
  proof -
    let ?x = "(base_of huge_bracket (ly_huge ly) + off, n)"
    have m: "?x \<in> huge_held ly a dl" by (rule in_shift [OF x])
    have n: "bytes ?x \<noteq> {}" using ne m by (simp add: held_by_clients_def)
    have "small_held ly Ls - {?x} = small_held ly Ls" by (rule not_elsewhere [OF n apart'(2) [OF _ m]])
    moreover have "large_held ly Ll - {?x} = large_held ly Ll" by (rule not_elsewhere [OF n apart'(3) [OF _ m]])
    ultimately show ?thesis unfolding held_by_clients_def Un_Diff using h by (simp add: shift_remove)
  qed
qed

text \<open>
  A free removes exactly the freed block. With the validation feature a slab heap also asserts that
  the slab it touches is owned, which a racing detach can falsify.
\<close>

lemma huge_live_freed:
  assumes inv: "huge_inv IV h dl k" and i: "i \<in> set (dl u)" "d_state (hg_desc h i) = D_Live"
    and d: "hg_desc h' = (hg_desc h)(i := (hg_desc h i)\<lparr>d_state := D_Free\<rparr>)"
  shows "huge_live h' dl = huge_live h dl - {(d_offset (hg_desc h i), d_size (hg_desc h i))}"
proof -
  have other: "(d_offset (hg_desc h j), d_size (hg_desc h j)) \<noteq> (d_offset (hg_desc h i), d_size (hg_desc h i))"
    if j: "j \<in> set (dl v)" "d_state (hg_desc h j) = D_Live" "j \<noteq> i" for j v
  proof -
    have "0 < d_size (hg_desc h i)" using thread_invD(4) [OF huge_invD(4) [OF inv] i(1)] .
    then show ?thesis using held_disjoint [OF inv, of i u j v] i j by (auto simp: drange_def)
  qed
  have state: "d_state (hg_desc h' j) = D_Live \<longleftrightarrow> j \<noteq> i \<and> d_state (hg_desc h j) = D_Live" for j using d by simp
  have "x \<in> huge_live h' dl \<longleftrightarrow>
      (\<exists>j. x = (d_offset (hg_desc h j), d_size (hg_desc h j)) \<and> (\<exists>v. j \<in> set (dl v)) \<and> j \<noteq> i \<and> d_state (hg_desc h j) = D_Live)" for x
    unfolding huge_live_def mem_Collect_eq state using d by (metis fun_upd_other)
  moreover have "x \<in> huge_live h dl \<longleftrightarrow>
      (\<exists>j. x = (d_offset (hg_desc h j), d_size (hg_desc h j)) \<and> (\<exists>v. j \<in> set (dl v)) \<and> d_state (hg_desc h j) = D_Live)" for x
    unfolding huge_live_def by blast
  ultimately show ?thesis using other by (intro set_eqI) (metis Diff_iff singletonD singletonI)
qed

lemma free_small_step:
  assumes p: "parts IV cfg a Ls Ll dl k" and cfg: "config_ok cfg" and ly: "layout_ok ly" and r: "in_regions a"
    and x: "q = base_of small_bracket (ly_small ly) + off" "(off, n) \<in> Ls"
  shows "(\<exists>a' Ls' Ll'. free_untyped cfg ly t q a = Inr a' \<and> parts IV cfg a' Ls' Ll' dl k \<and> a_mem a' = a_mem a \<and>
      held_by_clients ly a' Ls' Ll' dl = held_by_clients ly a Ls Ll dl - {(q, n)}) \<or>
    free_untyped cfg ly t q a = Inl (Assertion ''owned'') \<and> validate cfg"
proof -
  let ?h = "with_ctx (a_help a) (a_log a) (a_small a)"
  have "pool cfg small_bracket ?h (Ls \<union> descs dl)" "(off, n) \<in> Ls \<union> descs dl" using partsD(1) [OF p] x(2) by simp_all
  from small.pool_give [OF this cfg, of t] show ?thesis
  proof (elim disjE exE conjE)
    fix h' assume h: "heap_free cfg small_bracket t off ?h = Inr h'" "pool cfg small_bracket h' (Ls \<union> descs dl - {(off, n)})"
    let ?a = "clear_log t (a\<lparr>a_small := h', a_help := help_arr h', a_log := log_state h'\<rparr>)"
    have "Ls \<union> descs dl - {(off, n)} = (Ls - {(off, n)}) \<union> descs dl" using partsD(2) [OF p] x(2) by auto
    then have "parts IV cfg ?a (Ls - {(off, n)}) Ll dl k" using p h(2) by (auto simp: parts_def)
    moreover have "free_untyped cfg ly t q a = Inr ?a"
      using h(1) route_small [OF p ly r x(2)] x(1) by (simp add: free_untyped_def on_small_def no_value_def)
    ultimately show ?thesis using held_remove(1) [OF p ly r x(2)] x(1)
      by (intro disjI1 exI [of _ ?a] exI [of _ "Ls - {(off, n)}"] exI [of _ Ll]) (simp add: held_by_clients_def)
  qed (use route_small [OF p ly r x(2)] x(1) in \<open>simp add: free_untyped_def on_small_def no_value_def\<close>)
qed

lemma free_large_step:
  assumes p: "parts IV cfg a Ls Ll dl k" and cfg: "config_ok cfg" and ly: "layout_ok ly" and r: "in_regions a"
    and x: "q = base_of large_bracket (ly_large ly) + off" "(off, n) \<in> Ll"
  shows "(\<exists>a' Ls' Ll'. free_untyped cfg ly t q a = Inr a' \<and> parts IV cfg a' Ls' Ll' dl k \<and> a_mem a' = a_mem a \<and>
      held_by_clients ly a' Ls' Ll' dl = held_by_clients ly a Ls Ll dl - {(q, n)}) \<or>
    free_untyped cfg ly t q a = Inl (Assertion ''owned'') \<and> validate cfg"
proof -
  let ?h = "with_ctx (a_help a) (a_log a) (a_large a)"
  have "pool cfg large_bracket ?h Ll" using partsD(3) [OF p] by simp
  from large.pool_give [OF this x(2) cfg, of t] show ?thesis
  proof (elim disjE exE conjE)
    fix h' assume h: "heap_free cfg large_bracket t off ?h = Inr h'" "pool cfg large_bracket h' (Ll - {(off, n)})"
    let ?a = "a\<lparr>a_large := h', a_help := help_arr h', a_log := log_state h'\<rparr>"
    have "parts IV cfg ?a Ls (Ll - {(off, n)}) dl k" using p h(2) by (auto simp: parts_def)
    moreover have "free_untyped cfg ly t q a = Inr ?a"
      using h(1) route_large [OF p ly r x(2)] x(1) by (simp add: free_untyped_def free_large_untyped_def on_large_def no_value_def)
    ultimately show ?thesis using held_remove(2) [OF p ly r x(2)] x(1)
      by (intro disjI1 exI [of _ ?a] exI [of _ Ls] exI [of _ "Ll - {(off, n)}"]) (simp add: held_by_clients_def)
  qed (use route_large [OF p ly r x(2)] x(1) in \<open>simp add: free_untyped_def free_large_untyped_def on_large_def no_value_def\<close>)
qed

lemma free_huge_step:
  assumes p: "parts IV cfg a Ls Ll dl k" and ly: "layout_ok ly" and r: "in_regions a"
    and x: "q = base_of huge_bracket (ly_huge ly) + off" "(off, n) \<in> huge_live (a_huge a) dl" and t: "thread_ok t"
  shows "(\<exists>a' Ls' Ll'. free_untyped cfg ly t q a = Inr a' \<and> parts IV cfg a' Ls' Ll' dl k \<and> a_mem a' = a_mem a \<and>
      held_by_clients ly a' Ls' Ll' dl = held_by_clients ly a Ls Ll dl - {(q, n)}) \<or>
    free_untyped cfg ly t q a = Inl (Assertion ''owned'') \<and> validate cfg"
proof -
  obtain i u where i: "i \<in> set (dl u)" "d_offset (hg_desc (a_huge a) i) = off" "d_size (hg_desc (a_huge a) i) = n" "d_state (hg_desc (a_huge a) i) = D_Live"
    using x(2) by (rule huge_live_descriptor)
  have "off \<in> drange (hg_desc (a_huge a) i)" using i(2,3) huge_live_within(3) [OF partsD(4) [OF p] x(2)] by (simp add: drange_def)
  then obtain h' where h: "huge_free cfg t off (a_huge a) = Inr h'" "huge_inv IV h' dl k"
    "hg_desc h' = (hg_desc (a_huge a))(i := (hg_desc (a_huge a) i)\<lparr>d_state := D_Free\<rparr>)"
    using huge_free_ok [OF partsD(4) [OF p] i(1)] i(4) t by (metis dstate.distinct(3))
  have "huge_live h' dl = huge_live (a_huge a) dl - {(off, n)}" using huge_live_freed [OF partsD(4) [OF p] i(1,4) h(3)] i(2,3) by simp
  moreover have "free_untyped cfg ly t q a = Inr (a\<lparr>a_huge := h'\<rparr>)"
    using h(1) x(1) route_huge [OF p ly r x(2)] by (simp add: free_untyped_def free_large_untyped_def free_huge_untyped_def)
  moreover have "parts IV cfg (a\<lparr>a_huge := h'\<rparr>) Ls Ll dl k" using p h(2) by (simp add: parts_def)
  ultimately show ?thesis using held_remove(3) [OF p ly r x(2), of h'] x(1) by auto
qed

lemma free_step:
  assumes p: "parts IV cfg a Ls Ll dl k" and cfg: "config_ok cfg" and ly: "layout_ok ly" and r: "in_regions a"
    and x: "(q, n) \<in> held_by_clients ly a Ls Ll dl" and t: "thread_ok t"
  shows "(\<exists>a' Ls' Ll'. free_untyped cfg ly t q a = Inr a' \<and> parts IV cfg a' Ls' Ll' dl k \<and> a_mem a' = a_mem a \<and>
      held_by_clients ly a' Ls' Ll' dl = held_by_clients ly a Ls Ll dl - {(q, n)}) \<or>
    free_untyped cfg ly t q a = Inl (Assertion ''owned'') \<and> validate cfg"
proof -
  consider off where "q = base_of small_bracket (ly_small ly) + off" "(off, n) \<in> Ls"
    | off where "q = base_of large_bracket (ly_large ly) + off" "(off, n) \<in> Ll"
    | off where "q = base_of huge_bracket (ly_huge ly) + off" "(off, n) \<in> huge_live (a_huge a) dl"
    using x by (auto simp: held_by_clients_def shift_def)
  then show ?thesis
  proof cases
    case 1
    then show ?thesis by (rule free_small_step [OF p cfg ly r])
  next
    case 2
    then show ?thesis by (rule free_large_step [OF p cfg ly r])
  next
    case 3
    then show ?thesis using free_huge_step [OF p ly r _ _ t] by blast
  qed
qed

end
