(* ===== verification/Allocator_Spec.thy ===== *)
theory Allocator_Spec
  imports Allocator_Ops
begin

text \<open>
  The allocator from its zeroed state, used by any threads: allocations of every size never overlap,
  whichever heap serves them, their size is known from the pointer alone, any thread can free
  them, and reallocation keeps their contents.
\<close>

definition allocator_init :: "'s interval_ops \<Rightarrow> 's allocator" where
  "allocator_init IV = \<lparr>a_help = (\<lambda>_ _. 0), a_log = (\<lambda>_. None), a_small = heap_init small_bracket (Small 0),
     a_large = heap_init large_bracket (Large 0), a_huge = huge_init IV, a_root = None, a_roots = replicate 1024 None,
     a_owned_root = (\<lambda>_. 0), a_mem = (\<lambda>_. 0)\<rparr>"

text \<open>
  The runs of the allocator, with the blocks \<open>L\<close> the clients hold, as pairs of an address and a size.
  Clients also write memory. Frees happen while the slab heaps are within their regions.
\<close>

inductive areach :: "'s interval_ops \<Rightarrow> config \<Rightarrow> layout \<Rightarrow> 's allocator \<Rightarrow> (nat \<times> nat) set \<Rightarrow> bool" for IV cfg ly where
  init: "areach IV cfg ly (allocator_init IV) {}"
| alloc: "areach IV cfg ly a L \<Longrightarrow> thread_ok t \<Longrightarrow> 0 < n \<Longrightarrow> n \<le> reservation_size \<Longrightarrow> has_room t (a_huge a) \<Longrightarrow>
    allocate_untyped IV cfg (\<lambda>_ _. True) ly t n a = Inr (Some p, a') \<Longrightarrow> areach IV cfg ly a' (insert (p, granted_size n) L)"
| free: "areach IV cfg ly a L \<Longrightarrow> in_regions a \<Longrightarrow> thread_ok t \<Longrightarrow> (p, n) \<in> L \<Longrightarrow>
    free_untyped cfg ly t p a = Inr a' \<Longrightarrow> areach IV cfg ly a' (L - {(p, n)})"
| store: "areach IV cfg ly a L \<Longrightarrow> areach IV cfg ly (a\<lparr>a_mem := m\<rparr>) L"

text \<open>There is room in both regions for one more batch of slabs.\<close>

definition roomy :: "config \<Rightarrow> 's allocator \<Rightarrow> bool" where
  "roomy cfg a \<longleftrightarrow>
     (frontier (view (a_small a)) + batch_bump_pop cfg - 1) * SIZE_SLAB small_bracket \<le> reservation_size \<and>
     (frontier (view (a_large a)) + batch_bump_pop cfg - 1) * SIZE_SLAB large_bracket \<le> reservation_size"

lemma roomy_growth: "roomy cfg a \<Longrightarrow> slab_growth cfg a a' \<Longrightarrow> in_regions a'"
  unfolding roomy_def slab_growth_def in_regions_def within_reservation_def
  by (meson diff_le_mono le_trans mult_le_mono1)

lemma roomy_now: "roomy cfg a \<Longrightarrow> in_regions a"
  using roomy_growth [of cfg a a] by (simp add: slab_growth_def)

text \<open>A region with room has slab indices left.\<close>

lemma roomy_indices:
  assumes "roomy cfg a"
  shows "\<not> indices_exhausted cfg (a_small a)" "\<not> indices_exhausted cfg (a_large a)"
  using assms
  by (auto simp: roomy_def indices_exhausted_def reservation_size_def small_bracket_def large_bracket_def size_values)

subsection \<open>The invariant\<close>

lemma parts_init:
  assumes "interval_laws IV"
  shows "parts IV cfg (allocator_init IV) {} {} (\<lambda>_. []) 0" "held_by_clients ly (allocator_init IV) {} {} (\<lambda>_. []) = {}"
  using small.pool_init [of cfg "Small 0"] large.pool_init [of cfg "Large 0"] interval_laws.huge_init_inv [OF assms]
  by (simp_all add: parts_def allocator_init_def descs_def held_by_clients_def shift_def huge_live_def)

lemma parts_mem [simp]: "parts IV cfg (a\<lparr>a_mem := m\<rparr>) Ls Ll dl k = parts IV cfg a Ls Ll dl k"
  "held_by_clients ly (a\<lparr>a_mem := m\<rparr>) Ls Ll dl = held_by_clients ly a Ls Ll dl" "in_regions (a\<lparr>a_mem := m\<rparr>) = in_regions a"
  by (simp_all add: parts_def held_by_clients_def in_regions_def)

lemma areach_parts:
  assumes "areach IV cfg ly a L" "interval_laws IV" "config_ok cfg" "layout_ok ly"
  obtains Ls Ll dl k where "parts IV cfg a Ls Ll dl k" "L = held_by_clients ly a Ls Ll dl"
proof -
  have "\<exists>Ls Ll dl k. parts IV cfg a Ls Ll dl k \<and> L = held_by_clients ly a Ls Ll dl"
    using assms(1)
  proof induction
    case init
    show ?case using parts_init [OF assms(2)] by metis
  next
    case (alloc a L t n p a')
    then obtain Ls Ll dl k where "parts IV cfg a Ls Ll dl k" "L = held_by_clients ly a Ls Ll dl" by blast
    with allocate_step [OF assms(2) _ assms(3,4) alloc.hyps(3,4,2,5)] alloc.hyps(6) show ?case
      unfolding new_block_def by fastforce
  next
    case (free a L t p n a')
    then obtain Ls Ll dl k where "parts IV cfg a Ls Ll dl k" "L = held_by_clients ly a Ls Ll dl" by blast
    with free_step [OF _ assms(3,4) free.hyps(2) _ free.hyps(3)] free.hyps(4,5) show ?case by fastforce
  next
    case (store a L m)
    then show ?case by simp
  qed
  then show thesis using that by blast
qed

lemma areach_allocate:
  assumes "areach IV cfg ly a L" "interval_laws IV" "config_ok cfg" "layout_ok ly"
    and "thread_ok t" "0 < n" "n \<le> reservation_size" "has_room t (a_huge a)" "roomy cfg a"
  shows "(\<exists>p a'. allocate_untyped IV cfg (\<lambda>_ _. True) ly t n a = Inr (Some p, a') \<and> a_mem a' = a_mem a \<and> slab_growth cfg a a' \<and>
      areach IV cfg ly a' (insert (p, granted_size n) L) \<and> (\<forall>x\<in>L. bytes (p, granted_size n) \<inter> bytes x = {})) \<or>
    allocate_untyped IV cfg (\<lambda>_ _. True) ly t n a = Inl (Explicit ''Out of virtual address space'')"
proof -
  obtain Ls Ll dl k where "parts IV cfg a Ls Ll dl k" "L = held_by_clients ly a Ls Ll dl" using areach_parts [OF assms(1-4)] .
  with allocate_step [OF assms(2) _ assms(3,4,6,7,5,8)] roomy_indices [OF assms(9)]
  consider p a' where "allocate_untyped IV cfg (\<lambda>_ _. True) ly t n a = Inr (Some p, a')" "a_mem a' = a_mem a" "slab_growth cfg a a'"
      "new_block IV cfg ly L p (granted_size n) a'"
    | "allocate_untyped IV cfg (\<lambda>_ _. True) ly t n a = Inl (Explicit ''Out of virtual address space'')" by blast
  then show ?thesis
  proof cases
    case (1 p a')
    then show ?thesis using areach.alloc [OF assms(1,5-8) 1(1)] roomy_growth [OF assms(9) 1(3)] by (simp add: new_block_def)
  qed simp
qed

lemma areach_free:
  assumes "areach IV cfg ly a L" "interval_laws IV" "config_ok cfg" "layout_ok ly"
    and "in_regions a" "thread_ok t" "(p, n) \<in> L"
  shows "(\<exists>a'. free_untyped cfg ly t p a = Inr a' \<and> a_mem a' = a_mem a \<and> areach IV cfg ly a' (L - {(p, n)})) \<or>
    free_untyped cfg ly t p a = Inl (Assertion ''owned'') \<and> validate cfg"
proof -
  obtain Ls Ll dl k where "parts IV cfg a Ls Ll dl k" "L = held_by_clients ly a Ls Ll dl" using areach_parts [OF assms(1-4)] .
  with free_step [OF _ assms(3-5) _ assms(6)] assms(7) areach.free [OF assms(1,5-7)] show ?thesis by blast
qed

lemma areach_apart:
  assumes "interval_laws IV" "config_ok cfg" "layout_ok ly" and "areach IV cfg ly a L" "in_regions a"
  shows "pairwise (\<lambda>x y. bytes x \<inter> bytes y = {}) L \<and>
    (\<forall>(p, n)\<in>L. 0 < n \<and> ly_small ly \<le> p \<and> p + n \<le> ly_huge ly + reservation_size)"
proof -
  obtain Ls Ll dl k where p: "parts IV cfg a Ls Ll dl k" and L: "L = held_by_clients ly a Ls Ll dl" using areach_parts [OF assms(4,1-3)] .
  note region = held_region [OF p assms(3,5)]
  have ly: "ly_small ly \<le> ly_large ly" "ly_large ly \<le> ly_huge ly" using assms(3) by (simp_all add: layout_ok_def)
  have "0 < n \<and> ly_small ly \<le> q \<and> q + n \<le> ly_huge ly + reservation_size" if "(q, n) \<in> L" for q n
    using that region [of q n] ly unfolding L held_by_clients_def Un_iff by linarith
  then show ?thesis using held_blocks_disjoint [OF p assms(3,5)] by (auto simp: pairwise_def L)
qed

subsection \<open>Reservations\<close>

context bracket_laws
begin

lemma peek_again:
  assumes "st_head (sized h t c) = Some i" "bs_peek_unchecked (l_free (locals h i)) = Inr b" "class_ok B c"
  shows "heap_peek cfg B t c h = Inr (Some (i, b), h)"
  using assms by (simp add: heap_peek_def class_index_ok_def class_ok_def)

lemma reserve_heap_ok:
  assumes "pool cfg B h L" "class_ok B c" "config_ok cfg"
  shows "(\<exists>off h1 h'. reserve_heap cfg B base t c h = Inr (base + off, h1) \<and> reserve_heap cfg B base t c h1 = Inr (base + off, h1) \<and>
      heap_take cfg B base t c h1 = Inr (Some (base + off), h')) \<or>
    reserve_heap cfg B base t c h = Inl Unwrap_None \<and> indices_exhausted cfg h"
  using pool_peek [OF assms, of t]
proof (elim disjE exE conjE)
  fix i b h1 off h'
  assume "heap_peek cfg B t c h = Inr (Some (i, b), h1)" "from_block cfg B c i b = Inr off"
    "\<forall>base. heap_pop cfg B base t c i b h1 = Inr (base + off, h')" "st_head (sized h1 t c) = Some i" "bs_peek_unchecked (l_free (locals h1 i)) = Inr b"
  then show ?thesis using peek_again [of h1 t c i b cfg] assms(2) by (simp add: reserve_heap_def heap_take_def offset_to_pointer_def)
qed (simp add: reserve_heap_def)

end

lemma on_heap_ctx:
  "on_small f (a\<lparr>a_small := h, a_help := help_arr h, a_log := log_state h\<rparr>) =
     andthen (f h) (\<lambda>(x, h'). Inr (x, a\<lparr>a_small := h', a_help := help_arr h', a_log := log_state h'\<rparr>))"
  "on_large g (a\<lparr>a_large := l, a_help := help_arr l, a_log := log_state l\<rparr>) =
     andthen (g l) (\<lambda>(x, h'). Inr (x, a\<lparr>a_large := h', a_help := help_arr h', a_log := log_state h'\<rparr>))"
  by (simp_all add: on_small_def on_large_def)

subsection \<open>A run with a small and a huge allocation\<close>

definition layout_at :: "nat \<Rightarrow> layout" where
  "layout_at base = \<lparr>ly_small = base, ly_large = base + reservation_size, ly_huge = base + 2 * reservation_size\<rparr>"

abbreviation cfg_plain :: config where "cfg_plain \<equiv> cfg_debug\<lparr>validate := False\<rparr>"

abbreviation init_lists :: "(nat \<times> nat) list allocator" where "init_lists \<equiv> allocator_init interval_lists"

lemma run_ok [simp]: "layout_ok (layout_at 32768)" "config_ok cfg_plain" "batch_bump_pop cfg_plain = 1" "thread_ok 1" "thread_ok 2"
  by (simp_all add: layout_ok_def layout_at_def small_bracket_def size_values config_ok_def cfg_debug_def thread_ok_def COUNT_THREAD_def)

lemma init_run:
  "has_room t (a_huge init_lists)" "frontier (view (a_small init_lists)) = 1" "frontier (view (a_large init_lists)) = 1"
  by (simp_all add: has_room_def huge_init_def frontier_def view_def heap_init_def or_min_def index_min_def allocator_init_def)

lemma roomy_small:
  assumes "frontier (view (a_small a)) \<le> 3" "frontier (view (a_large a)) \<le> 3"
  shows "roomy cfg_plain a"
proof -
  have "frontier (view (a_small a)) * 32768 \<le> 3 * 32768" "frontier (view (a_large a)) * 524288 \<le> 3 * 524288" using assms by simp_all
  then show ?thesis by (simp add: roomy_def reservation_size_def small_bracket_def large_bracket_def size_values)
qed

lemma granted_sizes: "granted_size 100 = 104" "granted_size 1048576 = 1048576"
  by (simp_all add: granted_size_def next_multiple_of_def SIZE_PAGE_def)

text \<open>Thread 1 allocates 100 bytes, then thread 2 allocates a mebibyte.\<close>

lemma first_run:
  obtains p a where "areach interval_lists cfg_plain (layout_at 32768) a {(p, 104)}" "roomy cfg_plain a" "has_room t (a_huge a)"
    "parts interval_lists cfg_plain a {(p - base_of small_bracket 32768, 104)} {} (\<lambda>_. []) 0"
    "frontier (view (a_small a)) \<le> 2" "frontier (view (a_large a)) \<le> 2" "a_huge a = a_huge init_lists"
proof -
  note init = parts_init(1) [OF ivl.interval_laws_axioms, of cfg_plain]
  have "roomy cfg_plain init_lists" using init_run by (intro roomy_small) simp_all
  then obtain off a where a: "allocate_untyped interval_lists cfg_plain (\<lambda>_ _. True) (layout_at 32768) 1 100 init_lists =
      Inr (Some (base_of small_bracket (ly_small (layout_at 32768)) + off), a)"
    "parts interval_lists cfg_plain a {(off, next_multiple_of 100 8)} {} (\<lambda>_. []) 0" "a_huge a = a_huge init_lists" "slab_growth cfg_plain init_lists a"
    using allocate_small_step [OF init, of 100 "\<lambda>_ _. True" "layout_at 32768" 1] roomy_indices [of cfg_plain init_lists] by auto
  have fr: "frontier (view (a_small a)) \<le> 2" "frontier (view (a_large a)) \<le> 2" using a(4) init_run by (simp_all add: slab_growth_def)
  have "areach interval_lists cfg_plain (layout_at 32768) a {(base_of small_bracket (ly_small (layout_at 32768)) + off, granted_size 100)}"
    using areach.alloc [OF areach.init _ _ _ init_run(1) a(1)] by (simp add: reservation_size_def)
  then show thesis using that [of a "base_of small_bracket 32768 + off"] a(2,3) fr init_run(1) roomy_small [of a]
    by (simp add: granted_sizes layout_at_def next_multiple_of_def)
qed

lemma slot_count_mib: "slot_count 1048576 = 1"
  by (simp add: slot_count_def next_multiple_of_def huge_bracket_def huge_size_slab_def)

lemma second_run:
  "\<exists>p q a. areach interval_lists cfg_plain (layout_at 32768) a {(p, 104), (q, 1048576)} \<and> roomy cfg_plain a"
proof -
  obtain p a where a: "areach interval_lists cfg_plain (layout_at 32768) a {(p, 104)}" "roomy cfg_plain a" "has_room 2 (a_huge a)"
    "parts interval_lists cfg_plain a {(p - base_of small_bracket 32768, 104)} {} (\<lambda>_. []) 0"
    "frontier (view (a_small a)) \<le> 2" "frontier (view (a_large a)) \<le> 2" by (rule first_run)
  have m: "next_multiple_of 1048576 SIZE_PAGE = 1048576" by (simp add: next_multiple_of_def SIZE_PAGE_def)
  obtain q a' where a': "allocate_untyped interval_lists cfg_plain (\<lambda>_ _. True) (layout_at 32768) 2 1048576 a = Inr (Some q, a')" "slab_growth cfg_plain a a'"
    using allocate_huge_step [OF ivl.interval_laws_axioms a(4), of 1048576 2 "layout_at 32768"] a(3) roomy_indices [OF a(2)]
    by (auto simp: m slot_count_mib reservation_size_def)
  have "areach interval_lists cfg_plain (layout_at 32768) a' (insert (q, granted_size 1048576) {(p, 104)})"
    using areach.alloc [OF a(1) _ _ _ a(3) a'(1)] by (simp add: reservation_size_def)
  moreover have "roomy cfg_plain a'" using a'(2) a(5,6) by (intro roomy_small) (simp_all add: slab_growth_def)
  ultimately show ?thesis by (auto simp: granted_sizes insert_commute)
qed

subsection \<open>Properties\<close>

text \<open>
  C1: after any sequence of allocations of any sizes and of frees by any threads, the blocks that
  the clients hold, whichever of the three heaps serves them, share no byte, are not empty and
  lie in the three reserved regions, as long as the slab heaps have not outgrown their regions.
\<close>

theorem untyped_never_overlap:
  assumes "interval_laws IV" "config_ok cfg" "layout_ok ly" and "areach IV cfg ly a L" "in_regions a"
  shows "pairwise (\<lambda>x y. bytes x \<inter> bytes y = {}) L \<and>
    (\<forall>(p, n)\<in>L. 0 < n \<and> ly_small ly \<le> p \<and> p + n \<le> ly_huge ly + reservation_size)"
  using assms by (rule areach_apart)

theorem untyped_never_overlap_witness:
  "\<exists>p q a. areach interval_lists cfg_plain (layout_at 32768) a {(p, 104), (q, 1048576)} \<and> bytes (p, 104) \<inter> bytes (q, 1048576) = {}"
proof -
  obtain p q a where a: "areach interval_lists cfg_plain (layout_at 32768) a {(p, 104), (q, 1048576)}" "roomy cfg_plain a" using second_run by blast
  then show ?thesis using untyped_never_overlap [OF ivl.interval_laws_axioms _ _ a(1) roomy_now [OF a(2)]] by (auto simp: pairwise_def)
qed



text \<open>
  C10: the size of a block is recovered from its address alone: the pointer is routed to the heap it came
  from, and the class recorded there, or the descriptor found there, is the size that was granted.
\<close>

theorem untyped_class_exact:
  assumes "interval_laws IV" "config_ok cfg" "layout_ok ly" and "areach IV cfg ly a L" "in_regions a" "(p, n) \<in> L"
  shows "class_untyped cfg ly p a = Inr n"
proof -
  obtain Ls Ll dl k where "parts IV cfg a Ls Ll dl k" "L = held_by_clients ly a Ls Ll dl" using areach_parts [OF assms(4,1-3)] .
  then show ?thesis using class_untyped_held [OF _ assms(3,5)] assms(6) by blast
qed

theorem untyped_class_exact_witness:
  "\<exists>p q a. areach interval_lists cfg_plain (layout_at 32768) a {(p, 104), (q, 1048576)} \<and>
    class_untyped cfg_plain (layout_at 32768) p a = Inr 104 \<and> class_untyped cfg_plain (layout_at 32768) q a = Inr 1048576"
proof -
  obtain p q a where a: "areach interval_lists cfg_plain (layout_at 32768) a {(p, 104), (q, 1048576)}" "roomy cfg_plain a" using second_run by blast
  have "class_untyped cfg_plain (layout_at 32768) p a = Inr 104" "class_untyped cfg_plain (layout_at 32768) q a = Inr 1048576"
    using untyped_class_exact [OF ivl.interval_laws_axioms _ _ a(1) roomy_now [OF a(2)]] by simp_all
  with a(1) show ?thesis by blast
qed





text \<open>
  A typed reservation leaves its block unallocated. It returns an address, a second reservation of
  the same size returns the same one, and the next allocation of that size by the thread hands out
  exactly that block.
\<close>

theorem reserve_is_next_allocation:
  assumes "interval_laws IV" "config_ok cfg" "layout_ok ly" and "areach IV cfg ly a L" "0 < n" "n \<le> 524288" "roomy cfg a"
  shows "\<exists>p a1 a2. reserve cfg ly t n a = Inr (p, a1) \<and> reserve cfg ly t n a1 = Inr (p, a1) \<and>
    allocate_untyped IV cfg map_ok ly t n a1 = Inr (Some p, a2)"
proof -
  obtain Ls Ll dl k where p: "parts IV cfg a Ls Ll dl k" using areach_parts [OF assms(4,1-3)] .
  have pools: "pool cfg small_bracket (with_ctx (a_help a) (a_log a) (a_small a)) (Ls \<union> descs dl)"
    "pool cfg large_bracket (with_ctx (a_help a) (a_log a) (a_large a)) Ll" using partsD(1,3) [OF p] by simp_all
  note left = roomy_indices [OF assms(7)]
  show ?thesis
  proof (cases "n \<le> 1016")
    case True
    obtain c where c: "small_new n = Inr (Some c)" "class_ok small_bracket c" using assms(5) True by (rule small_class_cases)
    from small.reserve_heap_ok [OF pools(1) c(2) assms(2), of "base_of small_bracket (ly_small ly)" t] left(1) show ?thesis
      using c(1) by (auto simp: reserve_def allocate_untyped_def on_heap_ctx) (auto simp: on_small_def)
  next
    case False
    then obtain c where c: "large_new n = Inr (Some c)" "class_ok large_bracket c" using large_class_cases [of n] assms(6) by auto
    from large.reserve_heap_ok [OF pools(2) c(2) assms(2), of "base_of large_bracket (ly_large ly)" t] left(2) show ?thesis
      using c(1) small_new_None [of n] False
      by (auto simp: reserve_def reserve_large_def allocate_untyped_def allocate_large_def on_heap_ctx) (auto simp: on_large_def)
  qed
qed

theorem reserve_is_next_allocation_witness:
  "\<exists>p a1 a2. reserve cfg_plain (layout_at 32768) 1 2000 init_lists = Inr (p, a1) \<and>
    allocate_untyped interval_lists cfg_plain (\<lambda>_ _. True) (layout_at 32768) 1 2000 a1 = Inr (Some p, a2)"
proof -
  have "roomy cfg_plain init_lists" using init_run by (intro roomy_small) simp_all
  from reserve_is_next_allocation [OF ivl.interval_laws_axioms _ _ areach.init _ _ this, of "layout_at 32768" 2000 1 "\<lambda>_ _. True"]
  show ?thesis by auto
qed

end
