(* ===== verification/Decimal.thy ===== *)
theory Decimal
  imports Main
begin

text \<open>
  Numbers as text, the way the standard library prints and reads a \<open>usize\<close>: decimal digits without
  leading zeros, surrounding white space trimmed before reading. Reading undoes printing, so printed
  numbers are distinct.
\<close>

definition digit :: "nat \<Rightarrow> char" where
  "digit d = char_of (48 + d)"

fun decimal :: "nat \<Rightarrow> string" where
  "decimal n = (if n < 10 then [digit n] else decimal (n div 10) @ [digit (n mod 10)])"

declare decimal.simps [simp del]

definition is_space :: "char \<Rightarrow> bool" where
  "is_space c \<longleftrightarrow> of_char c \<in> ({9, 10, 11, 12, 13, 32} :: nat set)"

definition trim :: "string \<Rightarrow> string" where
  "trim s = rev (dropWhile is_space (rev (dropWhile is_space s)))"

definition digit_of :: "char \<Rightarrow> nat option" where
  "digit_of c = (let n = of_char c :: nat in if 48 \<le> n \<and> n \<le> 57 then Some (n - 48) else None)"

fun parse_digits :: "nat \<Rightarrow> string \<Rightarrow> nat option" where
  "parse_digits acc [] = Some acc"
| "parse_digits acc (c # cs) = (case digit_of c of
     None \<Rightarrow> None
   | Some d \<Rightarrow> if acc * 10 + d < 2 ^ 64 then parse_digits (acc * 10 + d) cs else None)"

definition parse_usize :: "string \<Rightarrow> nat option" where
  "parse_usize s = (case s of
     [] \<Rightarrow> None
   | c # cs \<Rightarrow> if c = CHR ''+'' then (if cs = [] then None else parse_digits 0 cs) else parse_digits 0 s)"

lemma of_char_digit: "d < 10 \<Longrightarrow> of_char (digit d) = (48 + d :: nat)"
  by (simp add: digit_def)

lemma digit_of_digit [simp]: "d < 10 \<Longrightarrow> digit_of (digit d) = Some d"
  by (simp add: digit_of_def of_char_digit Let_def)

lemma parse_digits_snoc:
  "parse_digits acc (xs @ [c]) = Option.bind (parse_digits acc xs) (\<lambda>m. Option.bind (digit_of c) (\<lambda>d.
     if m * 10 + d < 2 ^ 64 then Some (m * 10 + d) else None))"
  by (induction xs arbitrary: acc) (auto split: option.splits)

lemma parse_decimal: "n < 2 ^ 64 \<Longrightarrow> parse_digits 0 (decimal n) = Some n"
proof (induction n rule: decimal.induct)
  case (1 n)
  show ?case
  proof (cases "n < 10")
    case True
    then show ?thesis by (simp add: decimal.simps)
  next
    case False
    then have "parse_digits 0 (decimal (n div 10)) = Some (n div 10)" using "1.IH" "1.prems" by simp
    then show ?thesis using False "1.prems" by (subst decimal.simps) (simp add: parse_digits_snoc)
  qed
qed

lemma decimal_digits: "c \<in> set (decimal n) \<Longrightarrow> \<exists>d<10. c = digit d"
proof (induction n rule: decimal.induct)
  case (1 n)
  have "\<exists>d<10. digit (n mod 10) = digit d" by (rule exI [of _ "n mod 10"]) simp
  then show ?case using 1 by (cases "n < 10") (auto simp: decimal.simps [of n])
qed

lemma decimal_nonempty: "decimal n \<noteq> []"
  by (subst decimal.simps) simp

lemma digit_not_space: "d < 10 \<Longrightarrow> \<not> is_space (digit d)"
  by (auto simp: is_space_def of_char_digit)

lemma decimal_no_space: "c \<in> set (decimal n) \<Longrightarrow> \<not> is_space c"
  using decimal_digits digit_not_space by blast

lemma parse_usize_decimal:
  assumes "n < 2 ^ 64"
  shows "parse_usize (decimal n) = Some n"
proof -
  obtain c cs where c: "decimal n = c # cs" using decimal_nonempty [of n] by (cases "decimal n") auto
  then obtain d where "c = digit d" "d < 10" using decimal_digits [of c n] by auto
  then have "of_char c = (48 + d :: nat)" by (simp add: of_char_digit)
  then have "c \<noteq> CHR ''+''" by auto
  then show ?thesis using parse_decimal [OF assms] c by (simp add: parse_usize_def)
qed

lemma trim_decimal: "trim (decimal n @ ''\<newline>'') = decimal n"
proof -
  have sp: "is_space (CHR ''\<newline>'')" by (simp add: is_space_def)
  have all: "dropWhile is_space xs = xs" if "\<forall>c\<in>set xs. \<not> is_space c" for xs
    using that by (cases xs) simp_all
  have "\<not> is_space (hd (decimal n))" using decimal_no_space decimal_nonempty hd_in_set by blast
  then have "dropWhile is_space (decimal n @ ''\<newline>'') = decimal n @ ''\<newline>''"
    using decimal_nonempty [of n] by (cases "decimal n") simp_all
  then show ?thesis using sp all [of "rev (decimal n)"] decimal_no_space by (simp add: trim_def)
qed

lemma decimal_inj:
  assumes "decimal m = decimal n" "m < 2 ^ 64" "n < 2 ^ 64"
  shows "m = n"
proof -
  have "Some m = parse_digits 0 (decimal m)" using parse_decimal [OF assms(2)] by (rule sym)
  also have "\<dots> = Some n" unfolding assms(1) by (rule parse_decimal [OF assms(3)])
  finally show ?thesis by blast
qed

end
