(* ===== verification/Backing.thy ===== *)
theory Backing
  imports Data Decimal
begin

text \<open>
  The shared memory backends (\<open>extern/shm\<close>): named shared memory objects, anonymous memory, DAX
  devices in turn, and the mappings a process makes of them. The kernel is a parameter; what the code
  relies on is stated as \<open>kernel_ok\<close>.
\<close>

subsection \<open>The address space of a process\<close>

text \<open>
  Where the byte at an address comes from: a reservation without access, or a byte of anonymous memory
  (a new one for every mapping), of a named object or of a device.
\<close>

datatype origin = Fresh nat | Object string | Device nat | Shared_Device

datatype mapping = Reserved | Backed origin nat

text \<open>Device backends hand out pieces of each device in turn.\<close>

record device =
  dv_size :: nat
  dv_align :: nat
  dv_offset :: nat

record dax =
  dx_devices :: "device list"
  dx_next :: nat

datatype backend = Mmap | Shm | Dax dax | DaxMmap dax nat nat | Ivshmem

record host =
  hs_at :: "nat \<Rightarrow> mapping option"
  hs_nonce :: nat
  hs_objects :: "string \<Rightarrow> nat option"
  hs_backend :: backend

subsection \<open>The kernel\<close>

datatype errno = ENOENT | EEXIST | Errno nat

definition MAP_SHARED :: "32 word" where "MAP_SHARED = 1"
definition MAP_PRIVATE :: "32 word" where "MAP_PRIVATE = 2"
definition MAP_SHARED_VALIDATE :: "32 word" where "MAP_SHARED_VALIDATE = 3"
definition MAP_FIXED :: "32 word" where "MAP_FIXED = 16"
definition MAP_ANONYMOUS :: "32 word" where "MAP_ANONYMOUS = 32"
definition MAP_POPULATE :: "32 word" where "MAP_POPULATE = 32768"

lemmas map_flags = MAP_SHARED_def MAP_PRIVATE_def MAP_SHARED_VALIDATE_def MAP_FIXED_def MAP_ANONYMOUS_def MAP_POPULATE_def

record request =
  rq_addr :: nat
  rq_len :: nat
  rq_access :: bool
  rq_flags :: "32 word"
  rq_fd :: "origin option"
  rq_offset :: nat

record kernel =
  k_mmap :: "request \<Rightarrow> host \<Rightarrow> errno + nat \<times> host"
  k_munmap :: "nat \<Rightarrow> nat \<Rightarrow> host \<Rightarrow> errno + host"
  k_mbind :: "nat \<Rightarrow> nat \<Rightarrow> 32 word \<Rightarrow> 64 word \<Rightarrow> errno option"
  k_set_mempolicy :: "32 word \<Rightarrow> 64 word \<Rightarrow> errno option"
  k_madvise :: "nat \<Rightarrow> nat \<Rightarrow> errno option"
  k_shm_open :: "string \<Rightarrow> bool \<Rightarrow> host \<Rightarrow> errno + host"
  k_shm_unlink :: "string \<Rightarrow> host \<Rightarrow> errno + host"
  k_ftruncate :: "string \<Rightarrow> nat \<Rightarrow> host \<Rightarrow> errno + host"
  k_dup :: bool
  k_find_alloc :: "string \<Rightarrow> nat \<Rightarrow> errno + nat \<times> bool"
  k_open :: "string \<Rightarrow> errno option"
  k_read :: "string \<Rightarrow> errno + string"

text \<open>
  The documented effect of \<open>mmap\<close>: with \<open>MAP_FIXED\<close> the mapping is placed at the given address, the bytes
  of the range now come from what was mapped, and no other byte changes. \<open>munmap\<close> empties the range.
\<close>

definition contents :: "request \<Rightarrow> host \<Rightarrow> nat \<Rightarrow> mapping" where
  "contents rq h i = (if \<not> rq_access rq then Reserved
     else case rq_fd rq of None \<Rightarrow> Backed (Fresh (hs_nonce h)) i | Some org \<Rightarrow> Backed org (rq_offset rq + i))"

definition mapped :: "nat \<Rightarrow> nat \<Rightarrow> (nat \<Rightarrow> mapping option) \<Rightarrow> (nat \<Rightarrow> mapping option) \<Rightarrow> nat \<Rightarrow> mapping option" where
  "mapped a len m at = (\<lambda>x. if a \<le> x \<and> x < a + len then m (x - a) else at x)"

definition mmap_effect :: "request \<Rightarrow> nat \<Rightarrow> host \<Rightarrow> host" where
  "mmap_effect rq a h = h\<lparr>hs_at := mapped a (rq_len rq) (\<lambda>i. Some (contents rq h i)) (hs_at h), hs_nonce := hs_nonce h + 1\<rparr>"

definition kernel_ok :: "kernel \<Rightarrow> bool" where
  "kernel_ok k \<longleftrightarrow>
     (\<forall>rq h a h'. k_mmap k rq h = Inr (a, h') \<longrightarrow>
        h' = mmap_effect rq a h \<and> a \<noteq> 0 \<and> (and (rq_flags rq) MAP_FIXED \<noteq> 0 \<longrightarrow> a = rq_addr rq)) \<and>
     (\<forall>a n h h'. k_munmap k a n h = Inr h' \<longrightarrow> h' = h\<lparr>hs_at := mapped a n (\<lambda>_. None) (hs_at h)\<rparr>) \<and>
     (\<forall>p x h h'. k_shm_open k p x h = Inr h' \<longrightarrow> h' = (if x then h\<lparr>hs_objects := (hs_objects h)(p := Some 0)\<rparr> else h)) \<and>
     (\<forall>p n h h'. k_ftruncate k p n h = Inr h' \<longrightarrow> h' = h\<lparr>hs_objects := (hs_objects h)(p := Some n)\<rparr>)"

subsection \<open>Errors\<close>

datatype shm_error = ShmName | ShmError string string errno | LibcError string errno

fun with_error_path :: "string \<Rightarrow> shm_error \<Rightarrow> shm_error res" where
  "with_error_path path (LibcError name e) = Inr (ShmError path name e)"
| "with_error_path path ShmName = Inl Unreachable"
| "with_error_path path (ShmError _ _ _) = Inl Unreachable"

fun is_not_found :: "shm_error \<Rightarrow> bool" where
  "is_not_found (ShmError _ _ e) \<longleftrightarrow> e = ENOENT"
| "is_not_found (LibcError _ e) \<longleftrightarrow> e = ENOENT"
| "is_not_found ShmName \<longleftrightarrow> False"

fun is_already_exists :: "shm_error \<Rightarrow> bool" where
  "is_already_exists (LibcError _ e) \<longleftrightarrow> e = EEXIST"
| "is_already_exists _ \<longleftrightarrow> False"

text \<open>A fallible call on a state: an error leaves the state as the call left it, \<open>?\<close> passes it on.\<close>

type_synonym ('e, 'a, 's) outcome = "(('e + 'a) \<times> 's) res"

definition attempt :: "('e, 'a, 's) outcome \<Rightarrow> ('a \<Rightarrow> 's \<Rightarrow> ('e, 'b, 's) outcome) \<Rightarrow> ('e, 'b, 's) outcome" where
  "attempt m f = andthen m (\<lambda>(r, s). case r of Inl e \<Rightarrow> Inr (Inl e, s) | Inr x \<Rightarrow> f x s)"

lemma attempt_simps [simp, res_simps]:
  "attempt (Inl p) f = Inl p" "attempt (Inr (Inl e, s)) f = Inr (Inl e, s)" "attempt (Inr (Inr x, s)) f = f x s"
  by (simp_all add: attempt_def)

lemma attempt_Inr_conv: "attempt m f = Inr (Inr y, s') \<longleftrightarrow> (\<exists>x s. m = Inr (Inr x, s) \<and> f x s = Inr (Inr y, s'))"
proof (cases m)
  case (Inr z)
  obtain r s where "z = (r, s)" by (cases z)
  then show ?thesis using Inr by (cases r) simp_all
qed simp

definition try_libc :: "string \<Rightarrow> errno + 's \<Rightarrow> 's \<Rightarrow> (shm_error, unit, 's) outcome" where
  "try_libc name r h = (case r of Inl e \<Rightarrow> Inr (Inl (LibcError name e), h) | Inr h1 \<Rightarrow> Inr (Inr (), h1))"

definition try_status :: "string \<Rightarrow> errno option \<Rightarrow> 's \<Rightarrow> (shm_error, unit, 's) outcome" where
  "try_status name r h = (case r of Some e \<Rightarrow> Inr (Inl (LibcError name e), h) | None \<Rightarrow> Inr (Inr (), h))"

subsection \<open>Memory policy\<close>

datatype numa = Bind nat | Interleave "nat list"

definition MPOL_BIND :: "32 word" where "MPOL_BIND = 2"
definition MPOL_INTERLEAVE :: "32 word" where "MPOL_INTERLEAVE = 3"
definition MPOL_F_STATIC_NODES :: "32 word" where "MPOL_F_STATIC_NODES = 32768"

text \<open>A shift by the width or more panics with overflow checks and is taken modulo the width without.\<close>

definition node_bit :: "config \<Rightarrow> nat \<Rightarrow> 64 word res" where
  "node_bit cfg n = (if n < 64 then Inr (push_bit n 1) else if overflow_checks cfg then Inl Overflow else Inr (push_bit (n mod 64) 1))"

primrec node_bits :: "config \<Rightarrow> nat list \<Rightarrow> 64 word \<Rightarrow> 64 word res" where
  "node_bits cfg [] acc = Inr acc"
| "node_bits cfg (n # ns) acc = andthen (node_bit cfg n) (\<lambda>b. node_bits cfg ns (or acc b))"

fun to_mode_mask :: "config \<Rightarrow> numa \<Rightarrow> (32 word \<times> 64 word) res" where
  "to_mode_mask cfg (Bind node) = andthen (node_bit cfg node) (\<lambda>mask. Inr (or MPOL_BIND MPOL_F_STATIC_NODES, mask))"
| "to_mode_mask cfg (Interleave nodes) = andthen (node_bits cfg nodes 0) (\<lambda>mask. Inr (or MPOL_INTERLEAVE MPOL_F_STATIC_NODES, mask))"

definition numa_mbind :: "config \<Rightarrow> kernel \<Rightarrow> numa \<Rightarrow> nat \<Rightarrow> nat \<Rightarrow> host \<Rightarrow> (shm_error, unit, host) outcome" where
  "numa_mbind cfg k n a len h = andthen (to_mode_mask cfg n) (\<lambda>(mode, mask).
     try_status ''mbind_syscall'' (k_mbind k a len mode mask) h)"

definition set_mempolicy :: "config \<Rightarrow> kernel \<Rightarrow> numa \<Rightarrow> host \<Rightarrow> (shm_error, unit, host) outcome" where
  "set_mempolicy cfg k n h = andthen (to_mode_mask cfg n) (\<lambda>(mode, mask).
     try_status ''set_mempolicy_syscall'' (k_set_mempolicy k mode mask) h)"

subsection \<open>Files and their mappings\<close>

record bfile =
  bf_fd :: "origin option"
  bf_size :: nat
  bf_offset :: nat
  bf_create :: bool
  bf_extra_flags :: "32 word"
  bf_override_flags :: "32 word option"

definition bfile_new :: "origin option \<Rightarrow> nat \<Rightarrow> nat \<Rightarrow> bool \<Rightarrow> bfile" where
  "bfile_new fd n off create = \<lparr>bf_fd = fd, bf_size = n, bf_offset = off, bf_create = create, bf_extra_flags = 0, bf_override_flags = None\<rparr>"

definition bfile_flags :: "bfile \<Rightarrow> 32 word" where
  "bfile_flags f = or (case bf_override_flags f of Some flags \<Rightarrow> flags
     | None \<Rightarrow> (case bf_fd f of Some _ \<Rightarrow> MAP_SHARED_VALIDATE | None \<Rightarrow> or MAP_ANONYMOUS MAP_PRIVATE)) (bf_extra_flags f)"

datatype populate = PageTable | Physical

definition bfile_map ::
  "config \<Rightarrow> kernel \<Rightarrow> nat option \<Rightarrow> numa option \<Rightarrow> populate option \<Rightarrow> bfile \<Rightarrow> host \<Rightarrow> (shm_error, nat, host) outcome" where
  "bfile_map cfg k address numa populate f h =
     (let rq = \<lparr>rq_addr = (case address of None \<Rightarrow> 0 | Some a \<Rightarrow> a), rq_len = bf_size f, rq_access = True,
        rq_flags = or (or (bfile_flags f) (if address = None then 0 else MAP_FIXED)) (if populate = Some PageTable then MAP_POPULATE else 0),
        rq_fd = bf_fd f, rq_offset = bf_offset f\<rparr> in
      case k_mmap k rq h of
        Inl e \<Rightarrow> Inr (Inl (LibcError ''mmap64'' e), h)
      | Inr (a, h1) \<Rightarrow>
          andthen (unwrap (nonzero a)) (\<lambda>actual.
          andthen (require (address = None \<or> address = Some actual) (Assertion ''address'')) (\<lambda>_.
          attempt (case numa of None \<Rightarrow> Inr (Inr (), h1) | Some n \<Rightarrow> numa_mbind cfg k n actual (bf_size f) h1) (\<lambda>_ h2.
          attempt (if populate = Some Physical then try_status ''madvise'' (k_madvise k actual (bf_size f)) h2 else Inr (Inr (), h2)) (\<lambda>_ h3.
          Inr (Inr actual, h3))))))"

subsection \<open>Reserved address space\<close>

definition reserve_range :: "kernel \<Rightarrow> nat \<Rightarrow> host \<Rightarrow> (shm_error, nat, host) outcome" where
  "reserve_range k n h =
     (case k_mmap k \<lparr>rq_addr = 0, rq_len = n, rq_access = False, rq_flags = or MAP_ANONYMOUS MAP_PRIVATE, rq_fd = None, rq_offset = 0\<rparr> h of
        Inl e \<Rightarrow> Inr (Inl (LibcError ''mmap64'' e), h)
      | Inr (a, h1) \<Rightarrow> andthen (unwrap (nonzero a)) (\<lambda>a'. Inr (Inr a', h1)))"

definition reservation_new :: "nat \<Rightarrow> kernel \<Rightarrow> host \<Rightarrow> (shm_error, nat, host) outcome" where
  "reservation_new n k h = reserve_range k n h"

definition reservation_contiguous :: "nat \<Rightarrow> nat \<Rightarrow> kernel \<Rightarrow> host \<Rightarrow> (shm_error, nat list, host) outcome" where
  "reservation_contiguous n count k h =
     attempt (reserve_range k (n * count) h) (\<lambda>a h1. Inr (Inr (map (\<lambda>i. a + n * i) [0..<count]), h1))"

definition reservation_unmap :: "nat \<Rightarrow> kernel \<Rightarrow> nat \<Rightarrow> host \<Rightarrow> (shm_error, unit, host) outcome" where
  "reservation_unmap n k a h = try_libc ''munmap'' (k_munmap k a n h) h"

subsection \<open>Named shared memory objects\<close>

definition NUL :: char where "NUL = CHR 0x00"

definition MAX_LEN :: nat where "MAX_LEN = 62"

text \<open>The bytes before the first NUL; it is an error if there is none.\<close>

definition until_nul :: "string \<Rightarrow> string option" where
  "until_nul bs = (if NUL \<in> set bs then Some (takeWhile (\<lambda>c. c \<noteq> NUL) bs) else None)"

definition with_path :: "string \<Rightarrow> (string \<Rightarrow> host \<Rightarrow> (shm_error, 'a, host) outcome) \<Rightarrow> host \<Rightarrow> (shm_error, 'a, host) outcome" where
  "with_path nm apply h =
     (if MAX_LEN < length nm then Inr (Inl ShmName, h)
      else let path = CHR ''/'' # nm @ replicate (MAX_LEN - length nm) NUL in
        andthen (unwrap (until_nul path)) (\<lambda>p.
        andthen (apply p h) (\<lambda>(r, h1). case r of
          Inl e \<Rightarrow> andthen (with_error_path path e) (\<lambda>e'. Inr (Inl e', h1))
        | Inr x \<Rightarrow> Inr (Inr x, h1))))"

definition shm_create :: "kernel \<Rightarrow> nat \<Rightarrow> string \<Rightarrow> host \<Rightarrow> (shm_error, bool \<times> string, host) outcome" where
  "shm_create k n p h =
     attempt (case k_shm_open k p True h of
         Inr h1 \<Rightarrow> Inr (Inr True, h1)
       | Inl e \<Rightarrow>
           if is_already_exists (LibcError ''shm_open'' e)
           then attempt (try_libc ''shm_open'' (k_shm_open k p False h) h) (\<lambda>_ h1. Inr (Inr False, h1))
           else Inr (Inl (LibcError ''shm_open'' e), h)) (\<lambda>create h1.
     attempt (if create then try_libc ''ftruncate64'' (k_ftruncate k p n h1) h1 else Inr (Inr (), h1)) (\<lambda>_ h2.
     Inr (Inr (create, p), h2)))"

definition shm_open :: "config \<Rightarrow> kernel \<Rightarrow> string \<Rightarrow> nat \<Rightarrow> host \<Rightarrow> (shm_error, bfile, host) outcome" where
  "shm_open cfg k nm n h =
     andthen (next_multiple_of_w cfg n SIZE_PAGE) (\<lambda>sz.
     attempt (with_path nm (shm_create k sz) h) (\<lambda>(create, p) h1.
     andthen (unwrap (nonzero sz)) (\<lambda>sz'.
     Inr (Inr (bfile_new (Some (Object p)) sz' 0 create), h1))))"

definition shm_unlink :: "kernel \<Rightarrow> string \<Rightarrow> host \<Rightarrow> (shm_error, unit, host) outcome" where
  "shm_unlink k nm h = with_path nm (\<lambda>p h1. try_libc ''shm_unlink'' (k_shm_unlink k p h1) h1) h"

subsection \<open>Anonymous memory\<close>

definition mmap_open :: "config \<Rightarrow> nat \<Rightarrow> host \<Rightarrow> (shm_error, bfile, host) outcome" where
  "mmap_open cfg n h =
     andthen (next_multiple_of_w cfg n SIZE_PAGE) (\<lambda>sz.
     andthen (unwrap (nonzero sz)) (\<lambda>sz'. Inr (Inr (bfile_new None sz' 0 True), h)))"

subsection \<open>Devices\<close>

text \<open>
  \<open>Path::file_name\<close>: the last component, without empty and current-directory components; none for
  the parent directory and for an empty path.
\<close>

fun components :: "string \<Rightarrow> string \<Rightarrow> string list" where
  "components acc [] = (if acc = [] then [] else [rev acc])"
| "components acc (c # cs) =
     (if c = CHR ''/'' then (if acc = [] then [] else [rev acc]) @ components [] cs else components (c # acc) cs)"

definition file_name :: "string \<Rightarrow> string option" where
  "file_name path = (case rev (filter (\<lambda>c. c \<noteq> ''.'') (components [] path)) of
     [] \<Rightarrow> None | c # _ \<Rightarrow> if c = ''..'' then None else Some c)"

datatype dev_error = InvalidPath | OpenFailed errno | ReadFailed errno | ParseFailed

definition device_align :: "kernel \<Rightarrow> string \<Rightarrow> dev_error + nat" where
  "device_align k path = (case file_name path of
     None \<Rightarrow> Inl InvalidPath
   | Some name \<Rightarrow> (case k_read k (''/sys/bus/dax/devices/'' @ name @ ''/align'') of
       Inl _ \<Rightarrow> Inr 4096
     | Inr text \<Rightarrow> (case parse_usize (trim text) of None \<Rightarrow> Inl ParseFailed | Some n \<Rightarrow> Inr n)))"

definition device_size :: "kernel \<Rightarrow> string \<Rightarrow> dev_error + nat" where
  "device_size k path = (case file_name path of
     None \<Rightarrow> Inl InvalidPath
   | Some name \<Rightarrow> (case k_read k (''/sys/bus/dax/devices/'' @ name @ ''/size'') of
       Inl e \<Rightarrow> Inl (ReadFailed e)
     | Inr text \<Rightarrow> (case parse_usize (trim text) of None \<Rightarrow> Inl ParseFailed | Some n \<Rightarrow> Inr n)))"

definition open_device :: "kernel \<Rightarrow> string \<Rightarrow> dev_error + device" where
  "open_device k path = (case k_open k path of
     Some e \<Rightarrow> Inl (OpenFailed e)
   | None \<Rightarrow>
       andthen (device_size k path) (\<lambda>n.
       andthen (device_align k path) (\<lambda>al. Inr \<lparr>dv_size = n, dv_align = al, dv_offset = 0\<rparr>)))"

primrec open_devices :: "kernel \<Rightarrow> string list \<Rightarrow> dev_error + device list" where
  "open_devices k [] = Inr []"
| "open_devices k (p # ps) = andthen (open_device k p) (\<lambda>d. andthen (open_devices k ps) (\<lambda>ds. Inr (d # ds)))"

definition dax_new :: "kernel \<Rightarrow> string list \<Rightarrow> (dev_error + dax) res" where
  "dax_new k paths = andthen (require (paths \<noteq> []) (Assertion ''paths'')) (\<lambda>_.
     Inr (andthen (open_devices k paths) (\<lambda>ds. Inr \<lparr>dx_devices = ds, dx_next = 0\<rparr>)))"

definition dax_align :: "dax \<Rightarrow> nat" where
  "dax_align d = (if dx_devices d = [] then 4096 else Max (set (map dv_align (dx_devices d))))"

definition dax_open :: "config \<Rightarrow> kernel \<Rightarrow> nat \<Rightarrow> dax \<Rightarrow> (bfile \<times> dax) res" where
  "dax_open cfg k n d =
     andthen (require (dx_devices d \<noteq> []) Divide_By_Zero) (\<lambda>_.
     let index = dx_next d mod length (dx_devices d); dv = dx_devices d ! index in
     andthen (require (dv_align dv \<noteq> 0) Divide_By_Zero) (\<lambda>_.
     andthen (next_multiple_of_w cfg n (dv_align dv)) (\<lambda>sz.
     andthen (add_w cfg 64 (dv_offset dv) sz) (\<lambda>reach.
     andthen (require (reach \<le> dv_size dv) (Assertion ''exhausted'')) (\<lambda>_.
     andthen (require (k_dup k) (Explicit ''Failed to clone DAX device fd'')) (\<lambda>_.
     andthen (unwrap (nonzero sz)) (\<lambda>sz'.
     Inr ((bfile_new (Some (Device index)) sz' (dv_offset dv) True)\<lparr>bf_override_flags := Some MAP_SHARED\<rparr>,
       \<lparr>dx_devices = (dx_devices d)[index := dv\<lparr>dv_offset := (dv_offset dv + sz) mod 2 ^ 64\<rparr>],
        dx_next = (dx_next d + 1) mod 2 ^ 64\<rparr>))))))))"

definition daxmmap_new :: "kernel \<Rightarrow> string list \<Rightarrow> (dev_error + backend) res" where
  "daxmmap_new k paths = andthen (dax_new k paths) (\<lambda>r. Inr (andthen r (\<lambda>d. Inr (DaxMmap d (dax_align d) 0))))"

text \<open>Devices and anonymous memory in turn.\<close>

definition daxmmap_open :: "config \<Rightarrow> kernel \<Rightarrow> nat \<Rightarrow> dax \<Rightarrow> nat \<Rightarrow> nat \<Rightarrow> (bfile \<times> backend) res" where
  "daxmmap_open cfg k n d al index =
     (let index1 = (index + 1) mod 2 ^ 64 in
      if index mod 2 = 0 then andthen (dax_open cfg k n d) (\<lambda>(f, d1). Inr (f, DaxMmap d1 al index1))
      else
        andthen (require (al \<noteq> 0) Divide_By_Zero) (\<lambda>_.
        andthen (next_multiple_of_w cfg n al) (\<lambda>size_aligned.
        andthen (next_multiple_of_w cfg size_aligned SIZE_PAGE) (\<lambda>sz.
        andthen (unwrap (nonzero sz)) (\<lambda>sz'.
        Inr (bfile_new None sz' 0 True, DaxMmap d al index1))))))"

definition ivshmem_open :: "kernel \<Rightarrow> string \<Rightarrow> nat \<Rightarrow> host \<Rightarrow> (shm_error, bfile, host) outcome" where
  "ivshmem_open k nm n h =
     andthen (require (length nm < 28) (Assertion ''id'')) (\<lambda>_.
     case k_find_alloc k nm n of
       Inl e \<Rightarrow> Inl (Explicit ''Failed to allocate from ivshmem device'')
     | Inr (off, existing) \<Rightarrow>
         andthen (require (k_dup k) (Explicit ''Failed to clone ivshmem device'')) (\<lambda>_.
         Inr (Inr (bfile_new (Some Shared_Device) n off (\<not> existing)), h)))"

subsection \<open>The backend of a heap\<close>

definition backend_open :: "config \<Rightarrow> kernel \<Rightarrow> string \<Rightarrow> nat \<Rightarrow> host \<Rightarrow> (shm_error, bfile, host) outcome" where
  "backend_open cfg k nm n h = (case hs_backend h of
     Mmap \<Rightarrow> mmap_open cfg n h
   | Shm \<Rightarrow> shm_open cfg k nm n h
   | Dax d \<Rightarrow> andthen (dax_open cfg k n d) (\<lambda>(f, d1). Inr (Inr f, h\<lparr>hs_backend := Dax d1\<rparr>))
   | DaxMmap d al i \<Rightarrow> andthen (daxmmap_open cfg k n d al i) (\<lambda>(f, b). Inr (Inr f, h\<lparr>hs_backend := b\<rparr>))
   | Ivshmem \<Rightarrow> ivshmem_open k nm n h)"

definition backend_unlink :: "kernel \<Rightarrow> string \<Rightarrow> host \<Rightarrow> (shm_error, unit, host) outcome" where
  "backend_unlink k nm h = (if hs_backend h = Shm then shm_unlink k nm h else Inr (Inr (), h))"

definition backend_name :: "backend \<Rightarrow> string" where
  "backend_name b = (case b of Mmap \<Rightarrow> ''mmap'' | Shm \<Rightarrow> ''shm'' | Dax _ \<Rightarrow> ''dax'' | DaxMmap _ _ _ \<Rightarrow> ''dax-mmap'' | Ivshmem \<Rightarrow> ''ivshmem'')"

subsection \<open>A single shared object\<close>

record shm_raw =
  sr_name :: string
  sr_size :: nat
  sr_address :: nat

definition shm_raw_new ::
  "config \<Rightarrow> kernel \<Rightarrow> string \<Rightarrow> nat \<Rightarrow> bool \<Rightarrow> numa option \<Rightarrow> populate option \<Rightarrow> host \<Rightarrow> (shm_error, shm_raw, host) outcome" where
  "shm_raw_new cfg k name n create numa populate h =
     attempt
       (if create
        then andthen (shm_unlink k name h) (\<lambda>(r, h1). case r of
            Inr _ \<Rightarrow> Inr (Inr (), h1)
          | Inl e \<Rightarrow> if is_not_found e then Inr (Inr (), h1) else Inr (Inl e, h1))
        else Inr (Inr (), h)) (\<lambda>_ h1.
     andthen (unwrap (nonzero n)) (\<lambda>n'.
     attempt (shm_open cfg k name n' h1) (\<lambda>f h2.
     attempt (bfile_map cfg k None numa populate f h2) (\<lambda>a h3.
     Inr (Inr \<lparr>sr_name = name, sr_size = n', sr_address = a\<rparr>, h3)))))"

definition shm_raw_unlink :: "kernel \<Rightarrow> shm_raw \<Rightarrow> host \<Rightarrow> (shm_error, unit, host) outcome" where
  "shm_raw_unlink k r h = shm_unlink k (sr_name r) h"

definition shm_raw_drop :: "kernel \<Rightarrow> shm_raw \<Rightarrow> host \<Rightarrow> host res" where
  "shm_raw_drop k r h = (case k_munmap k (sr_address r) (sr_size r) h of
     Inl _ \<Rightarrow> Inl (Explicit ''Failed to munmap'') | Inr h1 \<Rightarrow> Inr h1)"

end
