(* ===== verification/Region.thy ===== *)
theory Region
  imports Backing Allocator Stat
begin

text \<open>
  The memory of a heap (\<open>raw/region.rs\<close>, \<open>raw.rs\<close>, and the layout and fault handling of \<open>heap.rs\<close>): names of
  regions, regions mapped at once, in segments or at given offsets, the creation of a heap and
  the mapping of its segments when an access faults.
\<close>

subsection \<open>Names\<close>

record ident =
  id_buffer :: string
  id_len :: nat

definition ID_SIZE :: nat where "ID_SIZE = 64"

definition id_new :: "string \<Rightarrow> ident res" where
  "id_new inner = andthen (require (length inner \<le> ID_SIZE) Out_Of_Range) (\<lambda>_.
     Inr \<lparr>id_buffer = inner @ replicate (ID_SIZE - length inner) NUL, id_len = length inner\<rparr>)"

text \<open>\<open>rposition\<close>: the last position at which the predicate holds.\<close>

fun rposition :: "('a \<Rightarrow> bool) \<Rightarrow> 'a list \<Rightarrow> nat option" where
  "rposition P [] = None"
| "rposition P (x # xs) = (case rposition P xs of Some i \<Rightarrow> Some (Suc i) | None \<Rightarrow> if P x then Some 0 else None)"

definition with_suffix :: "ident \<Rightarrow> string \<Rightarrow> ident res" where
  "with_suffix i suffix =
     andthen (require (id_len i \<le> ID_SIZE) Out_Of_Range) (\<lambda>_.
     let text = CHR ''-'' # suffix in
     andthen (require (length text \<le> ID_SIZE - id_len i) (Explicit ''failed to write whole buffer'')) (\<lambda>_.
     let buffer = take (id_len i) (id_buffer i) @ text @ drop (id_len i + length text) (id_buffer i) in
     andthen (unwrap (rposition (\<lambda>c. c \<noteq> NUL) buffer)) (\<lambda>last.
     Inr \<lparr>id_buffer = buffer, id_len = last + 1\<rparr>)))"

definition id_str :: "ident \<Rightarrow> string" where
  "id_str i = take (id_len i) (id_buffer i)"

text \<open>Offsets are printed as \<open>{:#x}\<close>.\<close>

definition hex_digit :: "nat \<Rightarrow> char" where
  "hex_digit d = (if d < 10 then digit d else char_of (87 + d))"

fun hexadecimal :: "nat \<Rightarrow> string" where
  "hexadecimal n = (if n < 16 then [hex_digit n] else hexadecimal (n div 16) @ [hex_digit (n mod 16)])"

declare hexadecimal.simps [simp del]

definition hex_offset :: "nat \<Rightarrow> string" where
  "hex_offset n = ''0x'' @ hexadecimal n"

subsection \<open>Regions\<close>

datatype region_error = Out_Of_Bounds | Ioctl errno | Ftruncate errno | Mmap_Failed errno | Munmap errno | Mbind errno | Madvise errno
  | ShmOpen errno | ShmUnlink errno | Shm_Failed shm_error | Io errno

definition from_shm :: "(shm_error, 'a, 's) outcome \<Rightarrow> (region_error, 'a, 's) outcome" where
  "from_shm m = andthen m (\<lambda>(r, s). Inr (case r of Inl e \<Rightarrow> Inl (Shm_Failed e) | Inr x \<Rightarrow> Inr x, s))"

text \<open>The policy of a heap's backend for the memory it maps.\<close>

record policy =
  pc_numa :: "numa option"
  pc_populate :: "populate option"

record fixed =
  fx_id :: ident
  fx_create :: bool
  fx_address :: nat
  fx_size :: nat

datatype sequential =
    Normal (sq_id: ident) (sq_create: bool) (sq_start: nat) (sq_size: nat)
  | Mcas (sq_id: ident) (sq_start: nat) (sq_size: nat)

record random =
  rd_id :: ident
  rd_start :: nat

definition fixed_new :: "config \<Rightarrow> kernel \<Rightarrow> policy \<Rightarrow> ident \<Rightarrow> nat \<Rightarrow> host \<Rightarrow> (region_error, fixed, host) outcome" where
  "fixed_new cfg k pc i n h =
     andthen (andthen (next_multiple_of_w cfg n SIZE_PAGE) (\<lambda>m. unwrap (nonzero m))) (\<lambda>sz.
     attempt (from_shm (backend_open cfg k (id_str i) sz h)) (\<lambda>f h1.
     attempt (from_shm (bfile_map cfg k None (pc_numa pc) (pc_populate pc) f h1)) (\<lambda>a h2.
     Inr (Inr \<lparr>fx_id = i, fx_create = bf_create f, fx_address = a, fx_size = sz\<rparr>, h2))))"

definition sequential_new ::
  "config \<Rightarrow> kernel \<Rightarrow> policy \<Rightarrow> ident \<Rightarrow> nat \<Rightarrow> nat \<Rightarrow> bool \<Rightarrow> host \<Rightarrow> (region_error, sequential, host) outcome" where
  "sequential_new cfg k pc i start n lazy h =
     andthen (andthen (next_multiple_of_w cfg n SIZE_PAGE) (\<lambda>m. unwrap (nonzero m))) (\<lambda>sz.
     attempt
       (if lazy then Inr (Inr False, h)
        else
          andthen (with_suffix i (decimal 0)) (\<lambda>i0.
          attempt (from_shm (backend_open cfg k (id_str i0) sz h)) (\<lambda>f h1.
          attempt (from_shm (bfile_map cfg k (Some start) (pc_numa pc) (pc_populate pc) f h1)) (\<lambda>_ h2.
          Inr (Inr (bf_create f), h2))))) (\<lambda>create h1.
     Inr (Inr (Normal i create start sz), h1)))"

definition sequential_map :: "config \<Rightarrow> kernel \<Rightarrow> policy \<Rightarrow> sequential \<Rightarrow> nat \<Rightarrow> host \<Rightarrow> (region_error, unit, host) outcome" where
  "sequential_map cfg k pc s off h =
     (let index = off div sq_size s in
      case s of
        Normal i _ start sz \<Rightarrow>
          andthen (with_suffix i (decimal index)) (\<lambda>i1.
          attempt (from_shm (backend_open cfg k (id_str i1) sz h)) (\<lambda>f h1.
          attempt (from_shm (bfile_map cfg k (Some (start + sq_size s * index)) (pc_numa pc) (pc_populate pc) f h1)) (\<lambda>_ h2.
          Inr (Inr (), h2))))
      | Mcas _ _ _ \<Rightarrow> Inl Unreachable)"

definition random_map :: "config \<Rightarrow> kernel \<Rightarrow> policy \<Rightarrow> random \<Rightarrow> nat \<Rightarrow> nat \<Rightarrow> host \<Rightarrow> (region_error, unit, host) outcome" where
  "random_map cfg k pc r off n h =
     andthen (with_suffix (rd_id r) (hex_offset off)) (\<lambda>i1.
     attempt (from_shm (backend_open cfg k (id_str i1) n h)) (\<lambda>f h1.
     attempt (from_shm (bfile_map cfg k (Some (rd_start r + off)) (pc_numa pc) (pc_populate pc) f h1)) (\<lambda>_ h2.
     Inr (Inr (), h2))))"

text \<open>Errors of both calls are ignored.\<close>

definition random_unmap :: "kernel \<Rightarrow> random \<Rightarrow> nat \<Rightarrow> nat \<Rightarrow> host \<Rightarrow> host res" where
  "random_unmap k r off n h =
     andthen (with_suffix (rd_id r) (hex_offset off)) (\<lambda>i1.
     let h1 = (case k_munmap k (rd_start r + off) n h of Inl _ \<Rightarrow> h | Inr h' \<Rightarrow> h') in
     andthen (backend_unlink k (id_str i1) h1) (\<lambda>(_, h2). Inr h2))"

definition fixed_unmap :: "kernel \<Rightarrow> fixed \<Rightarrow> host \<Rightarrow> (region_error, unit, host) outcome" where
  "fixed_unmap k r h = (case k_munmap k (fx_address r) (fx_size r) h of Inl e \<Rightarrow> Inr (Inl (Munmap e), h) | Inr h1 \<Rightarrow> Inr (Inr (), h1))"

definition sequential_unmap :: "kernel \<Rightarrow> sequential \<Rightarrow> host \<Rightarrow> (region_error, unit, host) outcome" where
  "sequential_unmap k s h = (case s of
     Normal _ _ start _ \<Rightarrow> from_shm (reservation_unmap reservation_size k start h) | Mcas _ _ _ \<Rightarrow> Inr (Inr (), h))"

definition random_region_unmap :: "kernel \<Rightarrow> random \<Rightarrow> host \<Rightarrow> (region_error, unit, host) outcome" where
  "random_region_unmap k r h = from_shm (reservation_unmap reservation_size k (rd_start r) h)"

definition sequential_is_clean :: "sequential \<Rightarrow> bool" where
  "sequential_is_clean s = (case s of Normal _ create _ _ \<Rightarrow> create | Mcas _ _ _ \<Rightarrow> False)"

definition sequential_mapped_size :: "sequential \<Rightarrow> nat option" where
  "sequential_mapped_size s = (case s of
     Normal _ create _ sz \<Rightarrow> if \<not> create then None else Some sz | Mcas _ _ sz \<Rightarrow> Some sz)"

subsection \<open>Layouts\<close>

text \<open>
  Sizes of the compiler's making are parameters: of a slab's local descriptor and of its remote cell, and
  size and alignment of the structures in the shared and the owned region.
\<close>

definition layout_array :: "nat \<Rightarrow> nat \<Rightarrow> nat option" where
  "layout_array sz count = (if sz * count < 2 ^ 63 then Some (sz * count) else None)"

record heap_layout =
  hl_locals :: nat
  hl_remotes :: nat
  hl_data :: nat

definition heap_layout_of :: "config \<Rightarrow> 'c bracket \<Rightarrow> nat \<times> nat \<Rightarrow> nat \<Rightarrow> heap_layout res" where
  "heap_layout_of cfg B sizes count =
     andthen (andthen (unwrap (layout_array (fst sizes) count)) (\<lambda>n. unwrap (nonzero n))) (\<lambda>l.
     andthen (andthen (unwrap (layout_array (snd sizes) count)) (\<lambda>n. unwrap (nonzero n))) (\<lambda>r.
     andthen (require (SIZE_SLAB B * count < 2 ^ 64 \<or> \<not> overflow_checks cfg) Overflow) (\<lambda>_.
     andthen (andthen (unwrap (layout_array 1 (SIZE_SLAB B * count mod 2 ^ 64))) (\<lambda>n. unwrap (nonzero n))) (\<lambda>d.
     Inr \<lparr>hl_locals = l, hl_remotes = r, hl_data = d\<rparr>))))"

definition heap_layout_default :: "config \<Rightarrow> 'c bracket \<Rightarrow> nat \<times> nat \<Rightarrow> heap_layout res" where
  "heap_layout_default cfg B sizes =
     andthen (next_multiple_of_w cfg (2 ^ 30) (SIZE_SLAB B)) (\<lambda>n.
     andthen (unwrap (nonzero (n div SIZE_SLAB B))) (heap_layout_of cfg B sizes))"

text \<open>A requested size selects an eager layout, zero a lazy one of the default size.\<close>

definition requested_layout :: "config \<Rightarrow> 'c bracket \<Rightarrow> nat \<times> nat \<Rightarrow> nat \<Rightarrow> (bool \<times> heap_layout) res" where
  "requested_layout cfg B sizes n =
     andthen (next_multiple_of_w cfg n (SIZE_SLAB B)) (\<lambda>m. case nonzero (m div SIZE_SLAB B) of
       None \<Rightarrow> andthen (heap_layout_default cfg B sizes) (\<lambda>l. Inr (True, l))
     | Some count \<Rightarrow> andthen (heap_layout_of cfg B sizes count) (\<lambda>l. Inr (False, l)))"

text \<open>The \<open>layout!\<close> macro: fields one after the other, each padded to its alignment, the whole to the largest.\<close>

definition layout_extend :: "nat \<times> nat \<Rightarrow> nat \<times> nat \<Rightarrow> ((nat \<times> nat) \<times> nat) option" where
  "layout_extend l f = (let off = next_multiple_of (fst l) (snd f) in
     if off + fst f + max (snd l) (snd f) \<le> 2 ^ 63 then Some ((off + fst f, max (snd l) (snd f)), off) else None)"

fun layout_fields :: "nat \<times> nat \<Rightarrow> (nat \<times> nat) list \<Rightarrow> ((nat \<times> nat) \<times> nat list) res" where
  "layout_fields l [] = Inr (l, [])"
| "layout_fields l (f # fs) = andthen (unwrap (layout_extend l f)) (\<lambda>(l1, off).
     andthen (layout_fields l1 fs) (\<lambda>(l2, offs). Inr (l2, off # offs)))"

definition struct_layout :: "nat \<times> nat \<Rightarrow> (nat \<times> nat) list \<Rightarrow> (nat \<times> nat list) res" where
  "struct_layout head rest = andthen (layout_fields head rest) (\<lambda>(l, offs).
     andthen (unwrap (nonzero (next_multiple_of (fst l) (snd l)))) (\<lambda>sz. Inr (sz, 0 # offs)))"

subsection \<open>A heap\<close>

record sizes =
  sz_small :: "nat \<times> nat"
  sz_large :: "nat \<times> nat"
  sz_shared :: "(nat \<times> nat) list"
  sz_owned :: "(nat \<times> nat) list"

record raw =
  rw_policy :: policy
  rw_shared :: fixed
  rw_owned :: fixed
  rw_local_small :: sequential
  rw_local_large :: sequential
  rw_remote_small :: sequential
  rw_remote_large :: sequential
  rw_data_small :: sequential
  rw_data_large :: sequential
  rw_data_huge :: random
  rw_stat :: process_recorder
  rw_free :: bool

definition set_tunables :: "nat option \<Rightarrow> nat option \<Rightarrow> nat option \<Rightarrow> config \<Rightarrow> config" where
  "set_tunables cache batch_global batch_bump cfg = cfg\<lparr>
     count_cache_slab := (case cache of None \<Rightarrow> count_cache_slab cfg | Some n \<Rightarrow> n),
     batch_global_push := (case batch_global of None \<Rightarrow> batch_global_push cfg | Some n \<Rightarrow> n),
     batch_bump_pop := (case batch_bump of None \<Rightarrow> batch_bump_pop cfg | Some n \<Rightarrow> n)\<rparr>"

definition suffixed :: "ident \<Rightarrow> string \<Rightarrow> (ident \<Rightarrow> host \<Rightarrow> (region_error, 'a, host) outcome) \<Rightarrow> host \<Rightarrow> (region_error, 'a, host) outcome" where
  "suffixed i s f h = andthen (with_suffix i s) (\<lambda>i1. f i1 h)"

text \<open>A region that grows in segments, in a reservation of its own.\<close>

definition reserved_new ::
  "config \<Rightarrow> kernel \<Rightarrow> policy \<Rightarrow> ident \<Rightarrow> string \<Rightarrow> nat \<Rightarrow> bool \<Rightarrow> host \<Rightarrow> (region_error, sequential, host) outcome" where
  "reserved_new cfg k pc i suffix n lazy h =
     attempt (from_shm (reservation_new reservation_size k h)) (\<lambda>start h1.
     suffixed i suffix (\<lambda>i1. sequential_new cfg k pc i1 start n lazy) h1)"

definition raw_new ::
  "config \<Rightarrow> kernel \<Rightarrow> policy \<Rightarrow> sizes \<Rightarrow> string \<Rightarrow> nat \<Rightarrow> nat \<Rightarrow> bool \<Rightarrow> host \<Rightarrow> (region_error, raw, host) outcome" where
  "raw_new cfg k pc sz name n_small n_large free h =
     andthen (id_new name) (\<lambda>i.
     andthen (struct_layout (hd (sz_shared sz)) (tl (sz_shared sz))) (\<lambda>(shared_size, _).
     attempt (suffixed i ''s'' (\<lambda>i1. fixed_new cfg k pc i1 shared_size) h) (\<lambda>shared h.
     andthen (struct_layout (hd (sz_owned sz)) (tl (sz_owned sz))) (\<lambda>(owned_size, _).
     attempt (suffixed i ''o'' (\<lambda>i1. fixed_new cfg k pc i1 owned_size) h) (\<lambda>owned h.
     andthen (requested_layout cfg small_bracket (sz_small sz) n_small) (\<lambda>(small_lazy, sm).
     attempt (reserved_new cfg k pc i ''ls'' (hl_locals sm) small_lazy h) (\<lambda>local_small h.
     attempt (suffixed i ''rs'' (\<lambda>i1 h. attempt (from_shm (reservation_new reservation_size k h)) (\<lambda>start.
       sequential_new cfg k pc i1 start (hl_remotes sm) small_lazy)) h) (\<lambda>remote_small h.
     andthen (requested_layout cfg large_bracket (sz_large sz) n_large) (\<lambda>(large_lazy, lg).
     attempt (reserved_new cfg k pc i ''ll'' (hl_locals lg) large_lazy h) (\<lambda>local_large h.
     attempt (reserved_new cfg k pc i ''rl'' (hl_remotes lg) large_lazy h) (\<lambda>remote_large h.
     attempt (from_shm (reservation_contiguous reservation_size 3 k h)) (\<lambda>starts h.
     attempt (suffixed i ''ds'' (\<lambda>i1. sequential_new cfg k pc i1 (starts ! 0) (hl_data sm) small_lazy) h) (\<lambda>data_small h.
     attempt (suffixed i ''dl'' (\<lambda>i1. sequential_new cfg k pc i1 (starts ! 1) (hl_data lg) large_lazy) h) (\<lambda>data_large h.
     andthen (with_suffix i ''dh'') (\<lambda>i_huge.
     Inr (Inr \<lparr>rw_policy = pc, rw_shared = shared, rw_owned = owned, rw_local_small = local_small, rw_local_large = local_large,
       rw_remote_small = remote_small, rw_remote_large = remote_large, rw_data_small = data_small, rw_data_large = data_large,
       rw_data_huge = \<lparr>rd_id = i_huge, rd_start = starts ! 2\<rparr>,
       rw_stat = \<lparr>fault_small = 0, fault_large = 0, fault_huge = 0\<rparr>, rw_free = free\<rparr>, h))))))))))))))))"

text \<open>The builder first stores the tunables it was given; they stay set also when the creation fails.\<close>

definition raw_build ::
  "kernel \<Rightarrow> policy \<Rightarrow> sizes \<Rightarrow> string \<Rightarrow> nat \<Rightarrow> nat \<Rightarrow> bool \<Rightarrow> nat option \<Rightarrow> nat option \<Rightarrow> nat option \<Rightarrow> config \<Rightarrow> host \<Rightarrow>
    config \<times> (region_error, raw, host) outcome" where
  "raw_build k pc sz name n_small n_large free cache batch_global batch_bump cfg h =
     (let cfg1 = set_tunables cache batch_global batch_bump cfg in (cfg1, raw_new cfg1 k pc sz name n_small n_large free h))"

text \<open>The regions as the allocator sees them.\<close>

definition raw_layout :: "raw \<Rightarrow> layout" where
  "raw_layout r = \<lparr>ly_small = sq_start (rw_data_small r), ly_large = sq_start (rw_data_large r), ly_huge = rd_start (rw_data_huge r)\<rparr>"

text \<open>The region of huge allocations is never clean.\<close>

definition raw_is_clean :: "raw \<Rightarrow> bool" where
  "raw_is_clean r \<longleftrightarrow> fx_create (rw_shared r) \<or> fx_create (rw_owned r) \<or>
     list_ex sequential_is_clean [rw_local_small r, rw_local_large r, rw_remote_small r, rw_remote_large r, rw_data_small r, rw_data_large r]"

fun zero_words :: "nat \<Rightarrow> nat \<Rightarrow> (nat \<Rightarrow> 8 word) \<Rightarrow> nat \<Rightarrow> 8 word" where
  "zero_words ptr 0 m = m"
| "zero_words ptr (Suc count) m = zero_words (ptr + 8) count (\<lambda>x. if ptr \<le> x \<and> x < ptr + 8 then 0 else m x)"

definition zero_metadata :: "raw \<Rightarrow> (nat \<Rightarrow> 8 word) \<Rightarrow> nat \<Rightarrow> 8 word" where
  "zero_metadata r m = fold (\<lambda>f. zero_words (fx_address f) (fx_size f div 8)) [rw_shared r, rw_owned r] m"

definition ignore_error :: "('e, 'a, 's) outcome \<Rightarrow> 's res" where
  "ignore_error m = andthen m (\<lambda>(_, s). Inr s)"

definition raw_drop :: "kernel \<Rightarrow> raw \<Rightarrow> host \<Rightarrow> host res" where
  "raw_drop k r h =
     andthen (ignore_error (fixed_unmap k (rw_shared r) h)) (\<lambda>h.
     andthen (ignore_error (fixed_unmap k (rw_owned r) h)) (\<lambda>h.
     andthen (ignore_error (sequential_unmap k (rw_local_small r) h)) (\<lambda>h.
     andthen (ignore_error (sequential_unmap k (rw_local_large r) h)) (\<lambda>h.
     andthen (ignore_error (sequential_unmap k (rw_remote_small r) h)) (\<lambda>h.
     andthen (ignore_error (sequential_unmap k (rw_remote_large r) h)) (\<lambda>h.
     andthen (ignore_error (sequential_unmap k (rw_data_small r) h)) (\<lambda>h.
     andthen (ignore_error (sequential_unmap k (rw_data_large r) h)) (\<lambda>h.
     andthen (ignore_error (random_region_unmap k (rw_data_huge r) h)) (\<lambda>h.
     if rw_free r then Inl Todo else Inr h)))))))))"

subsection \<open>Faults\<close>

text \<open>The offsets, in the local, remote and data region, of the slab an address belongs to.\<close>

definition fault_offsets :: "nat \<times> nat \<Rightarrow> nat \<Rightarrow> nat \<Rightarrow> nat \<Rightarrow> nat \<Rightarrow> nat \<Rightarrow> nat \<Rightarrow> (nat \<times> nat \<times> nat) option" where
  "fault_offsets sz slab len local_lo remote_lo data_lo p =
     (if local_lo \<le> p \<and> p < local_lo + len * fst sz
      then let off = p - local_lo in Some (off, off div fst sz * snd sz, off div fst sz * slab)
      else if remote_lo \<le> p \<and> p < remote_lo + len * snd sz
      then let off = p - remote_lo in Some (off div snd sz * fst sz, off, off div snd sz * slab)
      else if data_lo \<le> p \<and> p < data_lo + len * slab
      then let off = p - data_lo in Some (off div slab * fst sz, off div slab * snd sz, off)
      else None)"

definition heap_try_map ::
  "config \<Rightarrow> kernel \<Rightarrow> policy \<Rightarrow> 'c bracket \<Rightarrow> nat \<times> nat \<Rightarrow> sequential \<Rightarrow> sequential \<Rightarrow> sequential \<Rightarrow> nat \<Rightarrow> nat \<Rightarrow>
    host \<Rightarrow> 'c heap \<Rightarrow> (((region_error + unit) \<times> host) \<times> 'c heap) res" where
  "heap_try_map cfg k pc B sz local remote data t p h hp =
     (let (l, hp1) = shared_len cfg t hp in
      case l of
        None \<Rightarrow> Inr ((Inl Out_Of_Bounds, h), hp1)
      | Some i \<Rightarrow>
          (case fault_offsets sz (SIZE_SLAB B) (index_to_u32 i) (sq_start local) (sq_start remote) (sq_start data) p of
             None \<Rightarrow> Inr ((Inl Out_Of_Bounds, h), hp1)
           | Some (lo, ro, dt) \<Rightarrow>
               andthen (attempt (sequential_map cfg k pc local lo h) (\<lambda>_ h1.
                 attempt (sequential_map cfg k pc remote ro h1) (\<lambda>_ h2. sequential_map cfg k pc data dt h2)))
                 (\<lambda>r. Inr (r, hp1))))"

text \<open>An allocator before a thread takes it up: it knows no free address ranges yet.\<close>

definition unfocused :: "'s interval_ops \<Rightarrow> nat \<Rightarrow> 's allocator \<Rightarrow> 's allocator" where
  "unfocused IV t a = a\<lparr>a_huge := set_alloc t \<lparr>ha_free = iv_empty IV, ha_index = 0\<rparr> (a_huge a)\<rparr>"

definition raw_allocator :: "'s interval_ops \<Rightarrow> config \<Rightarrow> nat \<Rightarrow> 's allocator \<Rightarrow> 's allocator res" where
  "raw_allocator IV cfg t a = allocator_focus IV cfg t True (unfocused IV t a)"

text \<open>The allocator focused for the fault is dropped, and with it the free intervals it rebuilt.\<close>

definition unfocus :: "'s allocator \<Rightarrow> 's allocator \<Rightarrow> 's allocator" where
  "unfocus a f = f\<lparr>a_huge := (a_huge f)\<lparr>hg_alloc := hg_alloc (a_huge a)\<rparr>\<rparr>"

definition raw_map ::
  "'s interval_ops \<Rightarrow> config \<Rightarrow> kernel \<Rightarrow> (nat \<Rightarrow> nat \<Rightarrow> bool) \<Rightarrow> sizes \<Rightarrow> nat \<Rightarrow> nat \<Rightarrow> raw \<times> 's allocator \<times> host \<Rightarrow>
    (bool \<times> raw \<times> 's allocator \<times> host) res" where
  "raw_map IV cfg k map_ok sz t p s = (case s of (r, a, h) \<Rightarrow>
     if p = 0 then Inr (False, s)
     else
       andthen (allocator_focus IV cfg t False (unfocused IV t a)) (\<lambda>f.
       andthen (on_small (heap_try_map cfg k (rw_policy r) small_bracket (sz_small sz)
         (rw_local_small r) (rw_remote_small r) (rw_data_small r) t p h) f) (\<lambda>((r1, h1), f1). case r1 of
         Inr _ \<Rightarrow> Inr (True, r\<lparr>rw_stat := process_record FaultSmall (rw_stat r)\<rparr>, unfocus a f1, h1)
       | Inl e1 \<Rightarrow>
           andthen (require (e1 = Out_Of_Bounds) (Explicit ''Failed to extend small heap'')) (\<lambda>_.
           andthen (on_large (heap_try_map cfg k (rw_policy r) large_bracket (sz_large sz)
             (rw_local_large r) (rw_remote_large r) (rw_data_large r) t p h1) f1) (\<lambda>((r2, h2), f2). case r2 of
             Inr _ \<Rightarrow> Inr (True, r\<lparr>rw_stat := process_record FaultLarge (rw_stat r)\<rparr>, unfocus a f2, h2)
           | Inl e2 \<Rightarrow>
               andthen (require (e2 = Out_Of_Bounds) (Explicit ''Failed to extend large heap'')) (\<lambda>_.
               andthen (huge_try_map cfg map_ok (rd_start (rw_data_huge r)) (base_of huge_bracket (rd_start (rw_data_huge r))) t p (a_huge f2)) (\<lambda>(r3, hg).
               let f3 = f2\<lparr>a_huge := hg\<rparr> in case r3 of
                 Inr _ \<Rightarrow> Inr (True, r\<lparr>rw_stat := process_record FaultHuge (rw_stat r)\<rparr>, unfocus a f3, h2)
               | Inl e3 \<Rightarrow>
                   andthen (require (e3 = OutOfBounds) (Explicit ''Failed to map huge allocation'')) (\<lambda>_.
                   Inr (False, r, unfocus a f3, h2)))))))))"

end
