(* ===== verification/Region_Inv.thy ===== *)
theory Region_Inv
  imports Region
begin

text \<open>
  What the calls on regions do: names grow by their suffix and stay distinct, a call on a named
  object maps nothing but what it says, and a mapped segment is backed by its own object, by new
  anonymous memory, or by the next piece of a device.
\<close>

subsection \<open>Names\<close>

definition id_wf :: "ident \<Rightarrow> bool" where
  "id_wf i \<longleftrightarrow> id_len i \<le> ID_SIZE \<and> length (id_buffer i) = ID_SIZE \<and> drop (id_len i) (id_buffer i) = replicate (ID_SIZE - id_len i) NUL"

lemma rposition_None: "rposition P xs = None \<longleftrightarrow> (\<forall>x\<in>set xs. \<not> P x)"
  by (induction xs) (auto split: option.splits)

lemma rposition_last:
  assumes "\<forall>x\<in>set ys. \<not> P x" "P x"
  shows "rposition P (xs @ x # ys) = Some (length xs)"
  using assms by (induction xs) (auto simp: rposition_None split: option.splits)

lemma id_new_wf:
  assumes "id_new name = Inr i"
  shows "id_wf i" "id_str i = name"
  using assms by (auto simp: id_new_def andthen_Inr_conv id_wf_def id_str_def)

lemma with_suffix_ok:
  assumes wf: "id_wf i" and fits: "id_len i + 1 + length s \<le> ID_SIZE" and s: "NUL \<notin> set s"
  shows "\<exists>i'. with_suffix i s = Inr i' \<and> id_wf i' \<and> id_str i' = id_str i @ CHR ''-'' # s"
proof -
  let ?text = "CHR ''-'' # s" and ?n = "id_len i + 1 + length s"
  define pre where "pre = take (id_len i) (id_buffer i)"
  have len: "length (id_buffer i) = ID_SIZE" "length pre = id_len i" using wf by (simp_all add: id_wf_def pre_def)
  have "drop (id_len i + length ?text) (id_buffer i) = drop (length ?text) (replicate (ID_SIZE - id_len i) NUL)"
    using wf by (metis drop_drop add.commute id_wf_def)
  then have tail: "drop (id_len i + length ?text) (id_buffer i) = replicate (ID_SIZE - ?n) NUL" by simp
  obtain body c where body: "?text = body @ [c]" "c \<noteq> NUL"
  proof (cases s rule: rev_cases)
    case Nil
    then show thesis using that [of "[]" "CHR ''-''"] by (simp add: NUL_def)
  next
    case (snoc ys y)
    then show thesis using that [of "CHR ''-'' # ys" y] s by auto
  qed
  have "length (body @ [c]) = 1 + length s" using body(1) [symmetric] by simp
  then have "rposition (\<lambda>c. c \<noteq> NUL) (pre @ ?text @ replicate (ID_SIZE - ?n) NUL) = Some (id_len i + length s)"
    using rposition_last [of "replicate (ID_SIZE - ?n) NUL" "\<lambda>c. c \<noteq> NUL" c "pre @ body"] body len(2) by simp
  moreover have "length ?text \<le> ID_SIZE - id_len i" "id_len i \<le> ID_SIZE" using fits by simp_all
  ultimately have "with_suffix i s = Inr \<lparr>id_buffer = pre @ ?text @ replicate (ID_SIZE - ?n) NUL, id_len = ?n\<rparr>"
    using tail unfolding with_suffix_def Let_def pre_def [symmetric] by simp
  then show ?thesis using fits len by (simp add: id_wf_def id_str_def pre_def [symmetric])
qed

lemma with_suffix_full:
  assumes "id_wf i" "ID_SIZE < id_len i + 1 + length s"
  shows "with_suffix i s = Inl (Explicit ''failed to write whole buffer'')"
proof -
  have "\<not> length (CHR ''-'' # s) \<le> ID_SIZE - id_len i" "id_len i \<le> ID_SIZE" using assms by (simp_all add: id_wf_def)
  then show ?thesis unfolding with_suffix_def Let_def by simp
qed

lemma with_suffix_Inr:
  assumes "with_suffix i s = Inr i'" "id_wf i" "NUL \<notin> set s"
  shows "id_wf i'" "id_str i' = id_str i @ CHR ''-'' # s"
  using with_suffix_ok [of i s] with_suffix_full [of i s] assms by (cases "id_len i + 1 + length s \<le> ID_SIZE"; auto)+

lemma decimal_no: "c \<in> set (decimal n) \<Longrightarrow> of_char c < (58 :: nat) \<and> 47 < (of_char c :: nat)"
proof (induction n rule: decimal.induct)
  case (1 n)
  then show ?case by (subst (asm) (2) decimal.simps) (auto simp: of_char_digit split: if_splits)
qed

lemma decimal_chars: "NUL \<notin> set (decimal n)" "CHR ''-'' \<notin> set (decimal n)"
  using decimal_no [of NUL n] decimal_no [of "CHR ''-''" n] by (auto simp: NUL_def)

text \<open>Printed offsets are distinct: reading the digits back gives the number.\<close>

definition unhex :: "char \<Rightarrow> nat" where
  "unhex c = (let n = of_char c in if n < 58 then n - 48 else n - 87)"

lemma unhex_digit: "d < 16 \<Longrightarrow> unhex (hex_digit d) = d"
  by (auto simp: unhex_def hex_digit_def of_char_digit Let_def)

lemma hexadecimal_value: "foldl (\<lambda>v c. 16 * v + unhex c) 0 (hexadecimal n) = n"
proof (induction n rule: hexadecimal.induct)
  case (1 n)
  then show ?case by (subst hexadecimal.simps) (auto simp: unhex_digit)
qed

lemma hex_offset_inj: "hex_offset m = hex_offset n \<longleftrightarrow> m = n"
  by (metis hex_offset_def same_append_eq hexadecimal_value)

lemma hexadecimal_chars: "c \<in> set (hexadecimal n) \<Longrightarrow> 47 < (of_char c :: nat)"
proof (induction n rule: hexadecimal.induct)
  case (1 n)
  then show ?case by (subst (asm) (2) hexadecimal.simps) (auto simp: hex_digit_def of_char_digit split: if_splits)
qed

lemma hex_offset_chars: "NUL \<notin> set (hex_offset n)"
  using hexadecimal_chars [of NUL n] by (auto simp: hex_offset_def NUL_def)

subsection \<open>The files of a heap\<close>

text \<open>
  Every part of a heap and the file it is mapped from: the shared and the owned region, the segments
  of the six sequential regions, the huge allocations.
\<close>

datatype part = Shared_Part | Owned_Part | Segment string nat | Huge_Part nat

definition sequential_suffixes :: "string set" where
  "sequential_suffixes = {''ls'', ''rs'', ''ll'', ''rl'', ''ds'', ''dl''}"

fun part_ok :: "part \<Rightarrow> bool" where
  "part_ok (Segment s n) \<longleftrightarrow> s \<in> sequential_suffixes \<and> n < 2 ^ 64"
| "part_ok _ \<longleftrightarrow> True"

fun part_name :: "ident \<Rightarrow> part \<Rightarrow> string res" where
  "part_name i Shared_Part = andthen (with_suffix i ''s'') (\<lambda>j. Inr (id_str j))"
| "part_name i Owned_Part = andthen (with_suffix i ''o'') (\<lambda>j. Inr (id_str j))"
| "part_name i (Segment s n) = andthen (with_suffix i s) (\<lambda>j. andthen (with_suffix j (decimal n)) (\<lambda>l. Inr (id_str l)))"
| "part_name i (Huge_Part off) = andthen (with_suffix i ''dh'') (\<lambda>j. andthen (with_suffix j (hex_offset off)) (\<lambda>l. Inr (id_str l)))"

fun part_suffix :: "part \<Rightarrow> string" where
  "part_suffix Shared_Part = ''-s''"
| "part_suffix Owned_Part = ''-o''"
| "part_suffix (Segment s n) = CHR ''-'' # s @ CHR ''-'' # decimal n"
| "part_suffix (Huge_Part off) = ''-dh-'' @ hex_offset off"

lemma part_name_suffix:
  assumes "part_name i x = Inr n" "id_wf i" "part_ok x"
  shows "n = id_str i @ part_suffix x"
proof (cases x)
  case (Segment s m)
  have "NUL \<notin> set s" using assms(3) Segment by (auto simp: sequential_suffixes_def NUL_def)
  then show ?thesis using assms Segment decimal_chars(1) with_suffix_Inr by (fastforce simp: andthen_Inr_conv)
next
  case (Huge_Part off)
  have "NUL \<notin> set ''dh''" by (simp add: NUL_def)
  then show ?thesis using assms Huge_Part hex_offset_chars with_suffix_Inr by (fastforce simp: andthen_Inr_conv)
next
  case Shared_Part
  have "NUL \<notin> set ''s''" by (simp add: NUL_def)
  then show ?thesis using assms Shared_Part with_suffix_Inr by (fastforce simp: andthen_Inr_conv)
next
  case Owned_Part
  have "NUL \<notin> set ''o''" by (simp add: NUL_def)
  then show ?thesis using assms Owned_Part with_suffix_Inr by (fastforce simp: andthen_Inr_conv)
qed

lemma part_suffix_inj:
  assumes "part_suffix x = part_suffix y" "part_ok x" "part_ok y"
  shows "x = y"
  using assms
  by (cases x; cases y) (auto simp: sequential_suffixes_def hex_offset_inj intro: decimal_inj)

subsection \<open>Mappings\<close>

lemma takeWhile_nul: "NUL \<notin> set xs \<Longrightarrow> takeWhile (\<lambda>c. c \<noteq> NUL) (xs @ NUL # ys) = xs"
  by (induction xs) auto

lemma until_nul_path:
  assumes "NUL \<notin> set nm" "length nm \<le> MAX_LEN"
  shows "until_nul (CHR ''/'' # nm @ replicate (MAX_LEN - length nm) NUL) = (if length nm = MAX_LEN then None else Some (CHR ''/'' # nm))"
proof (cases "length nm = MAX_LEN")
  case True
  then show ?thesis using assms(1) by (simp add: until_nul_def NUL_def)
next
  case False
  then obtain n where "MAX_LEN - length nm = Suc n" using assms(2) by (cases "MAX_LEN - length nm") auto
  then show ?thesis using False takeWhile_nul [of "CHR ''/'' # nm" "replicate n NUL"] assms(1) by (simp add: until_nul_def NUL_def)
qed

text \<open>The longest name that passes the length check leaves no room for the terminating NUL.\<close>

lemma shm_name_62_panics:
  assumes "NUL \<notin> set nm" "length nm = 62"
  shows "shm_unlink k nm h = Inl Unwrap_None"
  using until_nul_path [of nm] assms by (simp add: shm_unlink_def with_path_def MAX_LEN_def)

lemma with_path_Inr:
  assumes "with_path nm f h = Inr (Inr x, h')" "NUL \<notin> set nm"
  shows "f (CHR ''/'' # nm) h = Inr (Inr x, h')"
proof -
  have "length nm \<le> MAX_LEN" using assms(1) by (simp add: with_path_def split: if_splits)
  then have "andthen (f (CHR ''/'' # nm) h) (\<lambda>(r, h1). case r of
      Inl e \<Rightarrow> andthen (with_error_path (CHR ''/'' # nm @ replicate (MAX_LEN - length nm) NUL) e) (\<lambda>e'. Inr (Inl e', h1))
    | Inr x \<Rightarrow> Inr (Inr x, h1)) = Inr (Inr x, h')"
    using assms until_nul_path [OF assms(2)] by (simp add: with_path_def Let_def split: if_splits)
  then obtain r h1 where "f (CHR ''/'' # nm) h = Inr (r, h1)" "(case r of
      Inl e \<Rightarrow> andthen (with_error_path (CHR ''/'' # nm @ replicate (MAX_LEN - length nm) NUL) e) (\<lambda>e'. Inr (Inl e', h1))
    | Inr x \<Rightarrow> Inr (Inr x, h1)) = Inr (Inr x, h')" by (auto simp: andthen_Inr_conv)
  then show ?thesis by (cases r) (auto simp: andthen_Inr_conv)
qed

text \<open>What a call leaves of the host: \<open>same_maps\<close> says that it maps nothing.\<close>

definition same_maps :: "host \<Rightarrow> host \<Rightarrow> bool" where
  "same_maps h h' \<longleftrightarrow> hs_at h' = hs_at h \<and> hs_nonce h' = hs_nonce h"

lemma try_libc_Inr: "try_libc name r h = Inr (Inr u, h') \<longleftrightarrow> r = Inr h'"
  by (cases r) (simp_all add: try_libc_def)

definition same_but_objects :: "host \<Rightarrow> host \<Rightarrow> bool" where
  "same_but_objects h h' \<longleftrightarrow> same_maps h h' \<and> hs_backend h' = hs_backend h"

lemma kernel_okD:
  assumes "kernel_ok k"
  shows "k_mmap k rq h = Inr (a, h') \<Longrightarrow> h' = mmap_effect rq a h"
    "k_mmap k rq h = Inr (a, h') \<Longrightarrow> and (rq_flags rq) MAP_FIXED \<noteq> 0 \<Longrightarrow> a = rq_addr rq" "k_mmap k rq h = Inr (a, h') \<Longrightarrow> a \<noteq> 0"
    "k_shm_open k p x h = Inr h' \<Longrightarrow> h' = (if x then h\<lparr>hs_objects := (hs_objects h)(p := Some 0)\<rparr> else h)"
    "k_ftruncate k p n h = Inr h' \<Longrightarrow> h' = h\<lparr>hs_objects := (hs_objects h)(p := Some n)\<rparr>"
  using assms unfolding kernel_ok_def by blast+

lemma kernel_shm:
  assumes "kernel_ok k"
  shows "k_shm_open k p x h = Inr h' \<Longrightarrow> same_but_objects h h'" "k_ftruncate k p n h = Inr h' \<Longrightarrow> same_but_objects h h'"
  using kernel_okD(4) [OF assms, of p x h h'] kernel_okD(5) [OF assms, of p n h h']
  by (auto simp: same_but_objects_def same_maps_def split: if_splits)

lemma same_trans: "same_but_objects h h1 \<Longrightarrow> same_but_objects h1 h2 \<Longrightarrow> same_but_objects h h2" "same_but_objects h h"
  by (simp_all add: same_but_objects_def same_maps_def)

lemma shm_create_frame:
  assumes k: "kernel_ok k" and c: "shm_create k n p h = Inr (Inr (create, p'), h')"
  shows "p' = p" "same_but_objects h h'"
proof -
  obtain created h1 where h1: "(case k_shm_open k p True h of
         Inr h1 \<Rightarrow> Inr (Inr True, h1)
       | Inl e \<Rightarrow>
           if is_already_exists (LibcError ''shm_open'' e)
           then attempt (try_libc ''shm_open'' (k_shm_open k p False h) h) (\<lambda>_ h1. Inr (Inr False, h1))
           else Inr (Inl (LibcError ''shm_open'' e), h)) = Inr (Inr created, h1)"
    "attempt (if created then try_libc ''ftruncate64'' (k_ftruncate k p n h1) h1 else Inr (Inr (), h1)) (\<lambda>_ h2. Inr (Inr (created, p), h2)) =
      Inr (Inr (create, p'), h')"
    using c unfolding shm_create_def attempt_Inr_conv by blast
  have "same_but_objects h h1"
    using h1(1) kernel_shm(1) [OF k] by (auto simp: attempt_Inr_conv try_libc_Inr split: sum.splits if_splits)
  moreover have "p' = p \<and> same_but_objects h1 h'"
    using h1(2) kernel_shm(2) [OF k] same_trans(2) by (auto simp: attempt_Inr_conv try_libc_Inr split: if_splits)
  ultimately show "p' = p" "same_but_objects h h'" using same_trans(1) by blast+
qed

lemma page_multiple: "SIZE_PAGE dvd n \<Longrightarrow> next_multiple_of_w cfg n SIZE_PAGE = Inr n"
  by (simp add: next_multiple_of_w_def dvd_eq_mod_eq_0)

lemma shm_open_frame:
  assumes "kernel_ok k" "SIZE_PAGE dvd n" "NUL \<notin> set nm" "shm_open cfg k nm n h = Inr (Inr f, h')"
  shows "bf_fd f = Some (Object (CHR ''/'' # nm))" "bf_size f = n" "bf_offset f = 0" "same_but_objects h h'"
proof -
  obtain create p where c: "with_path nm (shm_create k n) h = Inr (Inr (create, p), h')" and f: "f = bfile_new (Some (Object p)) n 0 create"
    using assms(4) by (auto simp: shm_open_def page_multiple [OF assms(2)] attempt_Inr_conv andthen_Inr_conv)
  note fr = shm_create_frame [OF assms(1) with_path_Inr [OF c assms(3)]]
  show "bf_fd f = Some (Object (CHR ''/'' # nm))" "bf_size f = n" "bf_offset f = 0" using f fr(1) by (simp_all add: bfile_new_def)
  show "same_but_objects h h'" using fr by simp
qed

definition bfile_contents :: "bfile \<Rightarrow> host \<Rightarrow> nat \<Rightarrow> mapping option" where
  "bfile_contents f h i = Some (case bf_fd f of None \<Rightarrow> Backed (Fresh (hs_nonce h)) i | Some org \<Rightarrow> Backed org (bf_offset f + i))"

lemma fixed_flag: "and (or (or x MAP_FIXED) y) MAP_FIXED \<noteq> 0"
proof -
  have "bit (and (or (or x MAP_FIXED) y) MAP_FIXED) 4" by (simp add: MAP_FIXED_def bit_simps)
  then show ?thesis by (metis bit_0_eq bot_apply bot_boolE)
qed

lemma try_status_Inr: "try_status name r h = Inr (Inr u, h') \<longleftrightarrow> r = None \<and> h' = h"
  by (cases r) (auto simp: try_status_def)

lemma bfile_map_frame:
  assumes k: "kernel_ok k" and m: "bfile_map cfg k (Some a) numa populate f h = Inr (Inr b, h')"
  shows "h' = h\<lparr>hs_at := mapped a (bf_size f) (bfile_contents f h) (hs_at h), hs_nonce := hs_nonce h + 1\<rparr>"
proof -
  define rq where "rq = \<lparr>rq_addr = a, rq_len = bf_size f, rq_access = True,
    rq_flags = or (or (bfile_flags f) MAP_FIXED) (if populate = Some PageTable then MAP_POPULATE else 0), rq_fd = bf_fd f, rq_offset = bf_offset f\<rparr>"
  obtain c h1 where c: "k_mmap k rq h = Inr (c, h1)" "h' = h1"
    using m by (auto simp: bfile_map_def rq_def [symmetric] Let_def andthen_Inr_conv attempt_Inr_conv numa_mbind_def try_status_Inr
      split: sum.splits option.splits if_splits prod.splits)
  have "h1 = mmap_effect rq c h" "c = a" using kernel_okD(1,2) [OF k c(1)] fixed_flag by (auto simp: rq_def)
  moreover have "(\<lambda>i. Some (contents rq h i)) = bfile_contents f h" "rq_len rq = bf_size f"
    by (auto simp: fun_eq_iff bfile_contents_def contents_def rq_def split: option.splits)
  ultimately show ?thesis using c(2) by (simp add: mmap_effect_def)
qed

lemma from_shm_Inr: "from_shm m = Inr (Inr x, s) \<longleftrightarrow> m = Inr (Inr x, s)"
proof (cases m)
  case (Inr z)
  obtain r s where "z = (r, s)" by (cases z)
  then show ?thesis using Inr by (cases r) (auto simp: from_shm_def)
qed (simp add: from_shm_def)

lemma from_shm_simps [simp]: "from_shm (Inr (Inr x, s)) = Inr (Inr x, s)"
  by (simp add: from_shm_def)

subsection \<open>Segments\<close>

definition seg_start :: "sequential \<Rightarrow> nat \<Rightarrow> nat" where
  "seg_start s off = sq_start s + sq_size s * (off div sq_size s)"

definition seg_range :: "sequential \<Rightarrow> nat \<Rightarrow> nat set" where
  "seg_range s off = {seg_start s off..<seg_start s off + sq_size s}"

definition seg_object :: "sequential \<Rightarrow> nat \<Rightarrow> string" where
  "seg_object s off = CHR ''/'' # id_str (sq_id s) @ CHR ''-'' # decimal (off div sq_size s)"

definition seq_ok :: "sequential \<Rightarrow> bool" where
  "seq_ok s \<longleftrightarrow> (\<exists>i c start sz. s = Normal i c start sz) \<and> id_wf (sq_id s) \<and> NUL \<notin> set (id_str (sq_id s)) \<and> SIZE_PAGE dvd sq_size s \<and> 0 < sq_size s \<and> 0 < sq_start s"

lemma seg_member: "0 < sq_size s \<Longrightarrow> sq_start s + off \<in> seg_range s off" "sq_start s + off - seg_start s off = off mod sq_size s"
proof -
  have eq: "sq_size s * (off div sq_size s) + off mod sq_size s = off" by simp
  then show "sq_start s + off - seg_start s off = off mod sq_size s" unfolding seg_start_def by linarith
  show "sq_start s + off \<in> seg_range s off" if "0 < sq_size s"
    using eq mod_less_divisor [OF that, of off] unfolding seg_range_def seg_start_def atLeastLessThan_iff by linarith
qed

lemma sequential_map_Inr:
  assumes "sequential_map cfg k pc s off h = Inr (Inr u, h')" "seq_ok s" "kernel_ok k"
  obtains i1 f h1 where "backend_open cfg k (id_str i1) (sq_size s) h = Inr (Inr f, h1)" "id_str i1 = id_str (sq_id s) @ CHR ''-'' # decimal (off div sq_size s)"
    "h' = h1\<lparr>hs_at := mapped (seg_start s off) (bf_size f) (bfile_contents f h1) (hs_at h1), hs_nonce := hs_nonce h1 + 1\<rparr>"
proof -
  obtain i c start sz where s: "s = Normal i c start sz" using assms(2) by (cases s) (auto simp: seq_ok_def)
  then obtain i1 f h1 b where i: "with_suffix i (decimal (off div sz)) = Inr i1" "backend_open cfg k (id_str i1) sz h = Inr (Inr f, h1)"
    "bfile_map cfg k (Some (start + sz * (off div sz))) (pc_numa pc) (pc_populate pc) f h1 = Inr (Inr b, h')"
    using assms(1) by (auto simp: sequential_map_def Let_def andthen_Inr_conv attempt_Inr_conv from_shm_Inr)
  have "id_str i1 = id_str i @ CHR ''-'' # decimal (off div sz)"
    using with_suffix_Inr(2) [OF i(1)] assms(2) s decimal_chars(1) by (simp add: seq_ok_def)
  then show thesis using that [of i1 f h1] i(2) bfile_map_frame [OF assms(3) i(3)] s by (simp add: seg_start_def)
qed

text \<open>With named objects the segment is backed by the object of that segment, from its start.\<close>

lemma sequential_map_shm:
  assumes "sequential_map cfg k pc s off h = Inr (Inr u, h')" "seq_ok s" "kernel_ok k" "hs_backend h = Shm"
  shows "hs_at h' = mapped (seg_start s off) (sq_size s) (\<lambda>j. Some (Backed (Object (seg_object s off)) j)) (hs_at h)" "hs_backend h' = Shm"
proof -
  obtain i1 f h1 where i: "backend_open cfg k (id_str i1) (sq_size s) h = Inr (Inr f, h1)" "id_str i1 = id_str (sq_id s) @ CHR ''-'' # decimal (off div sq_size s)"
    "h' = h1\<lparr>hs_at := mapped (seg_start s off) (bf_size f) (bfile_contents f h1) (hs_at h1), hs_nonce := hs_nonce h1 + 1\<rparr>"
    using sequential_map_Inr [OF assms(1-3)] by blast
  have o: "shm_open cfg k (id_str i1) (sq_size s) h = Inr (Inr f, h1)" using i(1) assms(4) by (simp add: backend_open_def)
  have "SIZE_PAGE dvd sq_size s" "NUL \<notin> set (id_str i1)" using assms(2) i(2) decimal_chars(1) [of "off div sq_size s"] by (simp_all add: seq_ok_def NUL_def)
  note f = shm_open_frame [OF assms(3) this o]
  have "bfile_contents f h1 = (\<lambda>j. Some (Backed (Object (seg_object s off)) j))"
    using f i(2) by (auto simp: bfile_contents_def fun_eq_iff seg_object_def)
  then show "hs_at h' = mapped (seg_start s off) (sq_size s) (\<lambda>j. Some (Backed (Object (seg_object s off)) j)) (hs_at h)" "hs_backend h' = Shm"
    using i(3) f(2,4) assms(4) by (simp_all add: same_but_objects_def same_maps_def)
qed

text \<open>With anonymous memory it is backed by memory that no mapping had before.\<close>

lemma sequential_map_mmap:
  assumes "sequential_map cfg k pc s off h = Inr (Inr u, h')" "seq_ok s" "kernel_ok k" "hs_backend h = Mmap"
  shows "hs_at h' = mapped (seg_start s off) (sq_size s) (\<lambda>j. Some (Backed (Fresh (hs_nonce h)) j)) (hs_at h)" "hs_backend h' = Mmap" "hs_nonce h' = hs_nonce h + 1"
proof -
  obtain i1 f h1 where i: "backend_open cfg k (id_str i1) (sq_size s) h = Inr (Inr f, h1)"
    "h' = h1\<lparr>hs_at := mapped (seg_start s off) (bf_size f) (bfile_contents f h1) (hs_at h1), hs_nonce := hs_nonce h1 + 1\<rparr>"
    using sequential_map_Inr [OF assms(1-3)] by blast
  have "h1 = h" "bf_fd f = None" "bf_size f = sq_size s"
    using i(1) assms(2,4) by (auto simp: backend_open_def mmap_open_def page_multiple seq_ok_def bfile_new_def)
  moreover then have "bfile_contents f h1 = (\<lambda>j. Some (Backed (Fresh (hs_nonce h)) j))" by (simp add: bfile_contents_def fun_eq_iff)
  ultimately show "hs_at h' = mapped (seg_start s off) (sq_size s) (\<lambda>j. Some (Backed (Fresh (hs_nonce h)) j)) (hs_at h)"
    "hs_backend h' = Mmap" "hs_nonce h' = hs_nonce h + 1" using i(2) assms(4) by simp_all
qed

lemma mapped_at: "x \<in> seg_range s off \<Longrightarrow> mapped (seg_start s off) (sq_size s) m at x = m (x - seg_start s off)"
  "x \<notin> seg_range s off \<Longrightarrow> mapped (seg_start s off) (sq_size s) m at x = at x"
  by (auto simp: mapped_def seg_range_def)

end
