(* ===== verification/Region_Spec.thy ===== *)
theory Region_Spec
  imports Region_Inv
begin

text \<open>
  Names of regions are well formed and distinct. With named shared memory every segment is backed by
  the same object in every process, a fault on any part of a slab is resolved, and a created heap has
  the contiguous regions the allocator relies on. With anonymous memory or devices a fault can replace
  memory that is in use.
\<close>

subsection \<open>A kernel that grants\<close>

text \<open>A kernel that grants every mapping at a given address and every object, as far as the rules allow.\<close>

definition kernel_grants :: "kernel \<Rightarrow> bool" where
  "kernel_grants k \<longleftrightarrow> kernel_ok k \<and>
     (\<forall>rq h. rq_addr rq \<noteq> 0 \<longrightarrow> (\<exists>h'. k_mmap k rq h = Inr (rq_addr rq, h'))) \<and>
     (\<forall>p h. if hs_objects h p = None then \<exists>h'. k_shm_open k p True h = Inr h'
        else k_shm_open k p True h = Inl EEXIST \<and> (\<exists>h'. k_shm_open k p False h = Inr h')) \<and>
     (\<forall>p n h. \<exists>h'. k_ftruncate k p n h = Inr h') \<and>
     (\<forall>a n mode mask. k_mbind k a n mode mask = None) \<and> (\<forall>a n. k_madvise k a n = None)"

lemma grants_open:
  assumes g: "kernel_grants k" and n: "SIZE_PAGE dvd n" "0 < n" and nm: "NUL \<notin> set nm" "length nm < MAX_LEN"
  shows "\<exists>f h'. shm_open cfg k nm n h = Inr (Inr f, h')"
proof -
  let ?p = "CHR ''/'' # nm"
  have "\<exists>create h'. shm_create k n ?p h = Inr (Inr (create, ?p), h')"
  proof (cases "hs_objects h ?p")
    case None
    then obtain h1 where h1: "k_shm_open k ?p True h = Inr h1" using g unfolding kernel_grants_def by metis
    obtain h2 where "k_ftruncate k ?p n h1 = Inr h2" using g unfolding kernel_grants_def by blast
    then show ?thesis using h1 by (intro exI [of _ True] exI [of _ h2]) (simp add: shm_create_def try_libc_def)
  next
    case (Some m)
    then obtain h1 where "k_shm_open k ?p True h = Inl EEXIST" "k_shm_open k ?p False h = Inr h1"
      using g unfolding kernel_grants_def by (metis option.distinct(1))
    then show ?thesis by (intro exI [of _ False] exI [of _ h1]) (simp add: shm_create_def try_libc_def)
  qed
  then obtain create h' where "shm_create k n ?p h = Inr (Inr (create, ?p), h')" by blast
  then have "with_path nm (shm_create k n) h = Inr (Inr (create, ?p), h')"
    using until_nul_path [OF nm(1)] nm(2) by (simp add: with_path_def)
  then show ?thesis using n by (simp add: shm_open_def page_multiple)
qed

lemma grants_map:
  assumes g: "kernel_grants k" and a: "a \<noteq> 0" and numa: "\<And>n. numa = Some n \<Longrightarrow> \<exists>m. to_mode_mask cfg n = Inr m"
  shows "\<exists>h'. bfile_map cfg k (Some a) numa populate f h = Inr (Inr a, h')"
proof -
  define rq where "rq = \<lparr>rq_addr = a, rq_len = bf_size f, rq_access = True,
    rq_flags = or (or (bfile_flags f) MAP_FIXED) (if populate = Some PageTable then MAP_POPULATE else 0), rq_fd = bf_fd f, rq_offset = bf_offset f\<rparr>"
  have "rq_addr rq = a" by (simp add: rq_def)
  then obtain h1 where h1: "k_mmap k rq h = Inr (a, h1)" using g a unfolding kernel_grants_def by metis
  have "(case numa of None \<Rightarrow> Inr (Inr (), h1) | Some n \<Rightarrow> numa_mbind cfg k n a (bf_size f) h1) = Inr (Inr (), h1)"
    using g numa by (cases numa) (auto simp: numa_mbind_def kernel_grants_def try_status_def)
  moreover have "k_madvise k a (bf_size f) = None" using g by (simp add: kernel_grants_def)
  ultimately show ?thesis using h1 a by (simp add: bfile_map_def Let_def rq_def [symmetric] try_status_def)
qed

definition policy_ok :: "config \<Rightarrow> policy \<Rightarrow> bool" where
  "policy_ok cfg pc \<longleftrightarrow> (case pc_numa pc of None \<Rightarrow> True | Some n \<Rightarrow> \<not> isl (to_mode_mask cfg n))"

definition name_fits :: "sequential \<Rightarrow> nat \<Rightarrow> bool" where
  "name_fits s off \<longleftrightarrow> id_len (sq_id s) + 1 + length (decimal (off div sq_size s)) < MAX_LEN"

lemma grants_sequential_map:
  assumes g: "kernel_grants k" and s: "seq_ok s" "name_fits s off" and "policy_ok cfg pc" and b: "hs_backend h = Shm \<or> hs_backend h = Mmap"
  shows "\<exists>h'. sequential_map cfg k pc s off h = Inr (Inr (), h')"
proof -
  obtain i c start sz where eq: "s = Normal i c start sz" using s(1) by (auto simp: seq_ok_def)
  have i: "id_wf i" "NUL \<notin> set (id_str i)" "SIZE_PAGE dvd sz" "0 < sz" "0 < start" using s(1) eq by (simp_all add: seq_ok_def)
  obtain i1 where i1: "with_suffix i (decimal (off div sz)) = Inr i1" "id_str i1 = id_str i @ CHR ''-'' # decimal (off div sz)"
    using with_suffix_ok [OF i(1) _ decimal_chars(1), of "off div sz"] s(2) eq by (auto simp: name_fits_def MAX_LEN_def ID_SIZE_def)
  have "length (id_str i) = id_len i" using i(1) by (simp add: id_wf_def id_str_def)
  then have "NUL \<notin> set (id_str i1)" "length (id_str i1) < MAX_LEN"
    using i1(2) i(2) s(2) eq decimal_chars(1) [of "off div sz"] by (simp_all add: name_fits_def NUL_def)
  then have "\<exists>f h1. shm_open cfg k (id_str i1) sz h = Inr (Inr f, h1)" using grants_open [OF g i(3,4)] by blast
  then obtain f h1 where f: "backend_open cfg k (id_str i1) sz h = Inr (Inr f, h1)"
    using b i(3,4) by (auto simp: backend_open_def mmap_open_def page_multiple)
  have "start + sz * (off div sz) \<noteq> 0" using i(5) by simp
  moreover have "\<exists>m. to_mode_mask cfg n = Inr m" if "pc_numa pc = Some n" for n
    using assms(4) that by (cases "to_mode_mask cfg n") (auto simp: policy_ok_def)
  ultimately obtain h2 where "bfile_map cfg k (Some (start + sz * (off div sz))) (pc_numa pc) (pc_populate pc) f h1 = Inr (Inr (start + sz * (off div sz)), h2)"
    using grants_map [OF g] by blast
  then show ?thesis using i1(1) f eq by (simp add: sequential_map_def)
qed

subsection \<open>Faults\<close>

text \<open>The address that faulted is the address of its slab's part in one of the three regions.\<close>

lemma fault_offsets_address:
  assumes "fault_offsets sz slab len L R D p = Some (lo, ro, dt)"
  shows "p = L + lo \<or> p = R + ro \<or> p = D + dt"
  using assms by (auto simp: fault_offsets_def Let_def split: if_splits)

text \<open>Three segments that do not overlap, mapped one after the other.\<close>

definition segments_apart :: "sequential \<Rightarrow> nat \<Rightarrow> sequential \<Rightarrow> nat \<Rightarrow> sequential \<Rightarrow> nat \<Rightarrow> bool" where
  "segments_apart s1 o1 s2 o2 s3 o3 \<longleftrightarrow>
     seg_range s1 o1 \<inter> seg_range s2 o2 = {} \<and> seg_range s1 o1 \<inter> seg_range s3 o3 = {} \<and> seg_range s2 o2 \<inter> seg_range s3 o3 = {}"

abbreviation map_three :: "config \<Rightarrow> kernel \<Rightarrow> policy \<Rightarrow> sequential \<Rightarrow> nat \<Rightarrow> sequential \<Rightarrow> nat \<Rightarrow> sequential \<Rightarrow> nat \<Rightarrow> host \<Rightarrow>
    (region_error, unit, host) outcome" where
  "map_three cfg k pc s1 o1 s2 o2 s3 o3 h \<equiv> attempt (sequential_map cfg k pc s1 o1 h) (\<lambda>_ h1.
     attempt (sequential_map cfg k pc s2 o2 h1) (\<lambda>_ h2. sequential_map cfg k pc s3 o3 h2))"

lemma map_three_shm:
  assumes g: "kernel_grants k" and s: "seq_ok s1" "seq_ok s2" "seq_ok s3" "name_fits s1 o1" "name_fits s2 o2" "name_fits s3 o3"
    and pc: "policy_ok cfg pc" and shm: "hs_backend h = Shm" and ap: "segments_apart s1 o1 s2 o2 s3 o3"
  obtains h' where "map_three cfg k pc s1 o1 s2 o2 s3 o3 h = Inr (Inr (), h')"
    "\<And>s off. (s, off) \<in> {(s1, o1), (s2, o2), (s3, o3)} \<Longrightarrow>
       hs_at h' (sq_start s + off) = Some (Backed (Object (seg_object s off)) (off mod sq_size s))"
    "\<And>x. x \<notin> seg_range s1 o1 \<union> seg_range s2 o2 \<union> seg_range s3 o3 \<Longrightarrow> hs_at h' x = hs_at h x"
proof -
  have k: "kernel_ok k" using g by (simp add: kernel_grants_def)
  obtain h1 where h1: "sequential_map cfg k pc s1 o1 h = Inr (Inr (), h1)" using grants_sequential_map [OF g s(1,4) pc] shm by blast
  note m1 = sequential_map_shm [OF h1 s(1) k shm]
  obtain h2 where h2: "sequential_map cfg k pc s2 o2 h1 = Inr (Inr (), h2)" using grants_sequential_map [OF g s(2,5) pc] m1(2) by blast
  note m2 = sequential_map_shm [OF h2 s(2) k m1(2)]
  obtain h3 where h3: "sequential_map cfg k pc s3 o3 h2 = Inr (Inr (), h3)" using grants_sequential_map [OF g s(3,6) pc] m2(2) by blast
  note m3 = sequential_map_shm [OF h3 s(3) k m2(2)]
  have mem: "sq_start s1 + o1 \<in> seg_range s1 o1" "sq_start s2 + o2 \<in> seg_range s2 o2" "sq_start s3 + o3 \<in> seg_range s3 o3"
    using s(1-3) by (simp_all add: seq_ok_def seg_member)
  have out: "sq_start s1 + o1 \<notin> seg_range s2 o2" "sq_start s1 + o1 \<notin> seg_range s3 o3" "sq_start s2 + o2 \<notin> seg_range s3 o3"
    using mem ap by (auto simp: segments_apart_def)
  show thesis
  proof (rule that [of h3])
    show "map_three cfg k pc s1 o1 s2 o2 s3 o3 h = Inr (Inr (), h3)" using h1 h2 h3 by simp
    show "hs_at h3 (sq_start s + off) = Some (Backed (Object (seg_object s off)) (off mod sq_size s))"
      if "(s, off) \<in> {(s1, o1), (s2, o2), (s3, o3)}" for s off
      using that mem out by (auto simp: m1(1) m2(1) m3(1) mapped_at seg_member(2))
    show "hs_at h3 x = hs_at h x" if "x \<notin> seg_range s1 o1 \<union> seg_range s2 o2 \<union> seg_range s3 o3" for x
      using that by (simp add: m1(1) m2(1) m3(1) mapped_at)
  qed
qed

subsection \<open>A concrete kernel\<close>

definition kernel_sim :: kernel where
  "kernel_sim = \<lparr>k_mmap = (\<lambda>rq h. if rq_addr rq = 0 then (if and (rq_flags rq) MAP_FIXED \<noteq> 0 then Inl (Errno 1) else Inr (2 ^ 44, mmap_effect rq (2 ^ 44) h))
       else Inr (rq_addr rq, mmap_effect rq (rq_addr rq) h)),
     k_munmap = (\<lambda>a n h. Inr (h\<lparr>hs_at := mapped a n (\<lambda>_. None) (hs_at h)\<rparr>)),
     k_mbind = (\<lambda>_ _ _ _. None), k_set_mempolicy = (\<lambda>_ _. None), k_madvise = (\<lambda>_ _. None),
     k_shm_open = (\<lambda>p x h. if x then (if hs_objects h p = None then Inr (h\<lparr>hs_objects := (hs_objects h)(p := Some 0)\<rparr>) else Inl EEXIST)
       else if hs_objects h p = None then Inl ENOENT else Inr h),
     k_shm_unlink = (\<lambda>p h. if hs_objects h p = None then Inl ENOENT else Inr (h\<lparr>hs_objects := (hs_objects h)(p := None)\<rparr>)),
     k_ftruncate = (\<lambda>p n h. Inr (h\<lparr>hs_objects := (hs_objects h)(p := Some n)\<rparr>)),
     k_dup = True, k_find_alloc = (\<lambda>_ _. Inr (0, False)), k_open = (\<lambda>_. None), k_read = (\<lambda>_. Inl ENOENT)\<rparr>"

lemma kernel_sim_ok: "kernel_ok kernel_sim"
  by (auto simp: kernel_ok_def kernel_sim_def Let_def fixed_flag split: if_splits)

lemma kernel_sim_grants: "kernel_grants kernel_sim"
  unfolding kernel_grants_def using kernel_sim_ok by (auto simp: kernel_sim_def)

definition host_init :: "backend \<Rightarrow> host" where
  "host_init b = \<lparr>hs_at = (\<lambda>_. None), hs_nonce = 0, hs_objects = (\<lambda>_. None), hs_backend = b\<rparr>"

subsection \<open>Segments on a device\<close>

lemma dax_open_single:
  assumes "dx_devices d = [dv]" "dax_open cfg k n d = Inr (f, d')" "dv_offset dv + next_multiple_of n (dv_align dv) < 2 ^ 64"
  defines "r \<equiv> next_multiple_of n (dv_align dv)"
  shows "bf_fd f = Some (Device 0)" "bf_size f = r" "bf_offset f = dv_offset dv" "dx_devices d' = [dv\<lparr>dv_offset := dv_offset dv + r\<rparr>]" "0 < dv_align dv"
proof -
  have al: "0 < dv_align dv" using assms(1,2) by (auto simp: dax_open_def andthen_Inr_conv Let_def)
  then have "next_multiple_of_w cfg n (dv_align dv) = Inr r" using next_multiple_of_w_ok [OF al, of n cfg] assms(3) by (simp add: r_def)
  then show "bf_fd f = Some (Device 0)" "bf_size f = r" "bf_offset f = dv_offset dv"
    "dx_devices d' = [dv\<lparr>dv_offset := dv_offset dv + r\<rparr>]" "0 < dv_align dv"
    using assms(1,2) assms(3) [folded r_def] al by (auto simp: dax_open_def andthen_Inr_conv Let_def bfile_new_def)
qed

lemma sequential_map_dax:
  assumes "sequential_map cfg k pc s off h = Inr (Inr u, h')" "seq_ok s" "kernel_ok k" "hs_backend h = Dax d"
    and d: "dx_devices d = [dv]" "dv_offset dv + next_multiple_of (sq_size s) (dv_align dv) < 2 ^ 64"
  defines "r \<equiv> next_multiple_of (sq_size s) (dv_align dv)"
  obtains d' where "hs_at h' = mapped (seg_start s off) r (\<lambda>j. Some (Backed (Device 0) (dv_offset dv + j))) (hs_at h)"
    "hs_backend h' = Dax d'" "dx_devices d' = [dv\<lparr>dv_offset := dv_offset dv + r\<rparr>]" "0 < dv_align dv"
proof -
  obtain i1 f h1 where i: "backend_open cfg k (id_str i1) (sq_size s) h = Inr (Inr f, h1)"
    "h' = h1\<lparr>hs_at := mapped (seg_start s off) (bf_size f) (bfile_contents f h1) (hs_at h1), hs_nonce := hs_nonce h1 + 1\<rparr>"
    using sequential_map_Inr [OF assms(1-3)] by blast
  obtain d' where d': "dax_open cfg k (sq_size s) d = Inr (f, d')" "h1 = h\<lparr>hs_backend := Dax d'\<rparr>"
    using i(1) assms(4) by (auto simp: backend_open_def andthen_Inr_conv)
  note o = dax_open_single [OF d(1) d'(1) d(2), folded r_def]
  have "bfile_contents f h1 = (\<lambda>j. Some (Backed (Device 0) (dv_offset dv + j)))" using o by (simp add: bfile_contents_def fun_eq_iff)
  then show thesis using that [of d'] i(2) d'(2) o by simp
qed

subsection \<open>A created heap\<close>

lemma from_shm_attempt: "from_shm (reservation_new n k h) = Inr (Inr a, h') \<Longrightarrow> kernel_ok k \<Longrightarrow> a \<noteq> 0"
  by (auto simp: from_shm_Inr reservation_new_def reserve_range_def andthen_Inr_conv split: sum.splits)

lemma sequential_new_ok:
  assumes "sequential_new cfg k pc i start n lazy h = Inr (Inr s, h')" "id_wf i" "NUL \<notin> set (id_str i)" "0 < start" "n < 2 ^ 64 - SIZE_PAGE"
  shows "seq_ok s" "sq_start s = start" "sq_id s = i"
proof -
  have "next_multiple_of n SIZE_PAGE < 2 ^ 64" using next_multiple_of_less [of SIZE_PAGE n] assms(5) by (simp add: SIZE_PAGE_def)
  then have "next_multiple_of_w cfg n SIZE_PAGE = Inr (next_multiple_of n SIZE_PAGE)" by (intro next_multiple_of_w_ok) (simp_all add: SIZE_PAGE_def)
  then obtain c where "s = Normal i c start (next_multiple_of n SIZE_PAGE)" "0 < next_multiple_of n SIZE_PAGE"
    using assms(1) by (auto simp: sequential_new_def andthen_Inr_conv attempt_Inr_conv)
  then show "seq_ok s" "sq_start s = start" "sq_id s = i" using assms(2-4) by (simp_all add: seq_ok_def)
qed

lemma heap_layout_bounds:
  assumes "heap_layout_of cfg B sz count = Inr l"
  shows "hl_locals l < 2 ^ 63" "hl_remotes l < 2 ^ 63" "hl_data l < 2 ^ 63"
  using assms by (auto simp: heap_layout_of_def andthen_Inr_conv layout_array_def split: if_splits)

lemma requested_layout_bounds:
  assumes "requested_layout cfg B sz n = Inr (lazy, l)"
  shows "hl_locals l < 2 ^ 64 - SIZE_PAGE" "hl_remotes l < 2 ^ 64 - SIZE_PAGE" "hl_data l < 2 ^ 64 - SIZE_PAGE"
proof -
  obtain count where "heap_layout_of cfg B sz count = Inr l"
    using assms by (auto simp: requested_layout_def heap_layout_default_def andthen_Inr_conv split: option.splits)
  from heap_layout_bounds [OF this]
  show "hl_locals l < 2 ^ 64 - SIZE_PAGE" "hl_remotes l < 2 ^ 64 - SIZE_PAGE" "hl_data l < 2 ^ 64 - SIZE_PAGE" by (simp_all add: SIZE_PAGE_def)
qed

text \<open>A part of a heap: its name is that of the heap with a suffix.\<close>

definition part_of :: "string \<Rightarrow> string \<Rightarrow> sequential \<Rightarrow> bool" where
  "part_of name suffix s \<longleftrightarrow> seq_ok s \<and> id_str (sq_id s) = name @ CHR ''-'' # suffix"

lemma suffixed_part:
  assumes "suffixed i suffix (\<lambda>i1. sequential_new cfg k pc i1 start n lazy) h = Inr (Inr s, h')" "id_wf i" "NUL \<notin> set (id_str i)"
    "NUL \<notin> set suffix" "0 < start" "n < 2 ^ 64 - SIZE_PAGE"
  shows "part_of (id_str i) suffix s" "sq_start s = start"
proof -
  obtain i1 where i1: "with_suffix i suffix = Inr i1" "sequential_new cfg k pc i1 start n lazy h = Inr (Inr s, h')"
    using assms(1) by (auto simp: suffixed_def andthen_Inr_conv)
  note w = with_suffix_Inr [OF i1(1) assms(2,4)]
  have "NUL \<notin> set (id_str i1)" using w(2) assms(3,4) by (simp add: NUL_def)
  from sequential_new_ok [OF i1(2) w(1) this assms(5,6)] show "part_of (id_str i) suffix s" "sq_start s = start" using w(2) by (simp_all add: part_of_def)
qed

lemma reserved_part:
  assumes "reserved_new cfg k pc i suffix n lazy h = Inr (Inr s, h')" "kernel_ok k" "id_wf i" "NUL \<notin> set (id_str i)" "NUL \<notin> set suffix" "n < 2 ^ 64 - SIZE_PAGE"
  shows "part_of (id_str i) suffix s"
proof -
  obtain a h1 where a: "from_shm (reservation_new reservation_size k h) = Inr (Inr a, h1)"
    "suffixed i suffix (\<lambda>i1. sequential_new cfg k pc i1 a n lazy) h1 = Inr (Inr s, h')"
    using assms(1) by (auto simp: reserved_new_def attempt_Inr_conv)
  have "0 < a" using from_shm_attempt [OF a(1) assms(2)] by simp
  from suffixed_part(1) [OF a(2) assms(3-5) this assms(6)] show ?thesis .
qed

lemma id_len_str: "id_wf i \<Longrightarrow> id_len i = length (id_str i)"
  by (simp add: id_wf_def id_str_def)

lemma remote_small_part:
  assumes "suffixed i suffix (\<lambda>i1 h. attempt (from_shm (reservation_new reservation_size k h)) (\<lambda>start. sequential_new cfg k pc i1 start n lazy)) h = Inr (Inr s, h')"
    "kernel_ok k" "id_wf i" "NUL \<notin> set (id_str i)" "NUL \<notin> set suffix" "n < 2 ^ 64 - SIZE_PAGE"
  shows "part_of (id_str i) suffix s"
proof -
  obtain i1 a h1 where a: "with_suffix i suffix = Inr i1" "from_shm (reservation_new reservation_size k h) = Inr (Inr a, h1)"
    "sequential_new cfg k pc i1 a n lazy h1 = Inr (Inr s, h')"
    using assms(1) by (auto simp: suffixed_def attempt_Inr_conv andthen_Inr_conv)
  have "0 < a" using from_shm_attempt [OF a(2) assms(2)] by simp
  moreover have "suffixed i suffix (\<lambda>i1. sequential_new cfg k pc i1 a n lazy) h1 = Inr (Inr s, h')" using a(1,3) by (simp add: suffixed_def)
  ultimately show ?thesis using suffixed_part(1) assms(3-6) by blast
qed

lemma contiguous_starts:
  assumes "from_shm (reservation_contiguous n 3 k h) = Inr (Inr starts, h')" "kernel_ok k"
  obtains a where "0 < a" "starts ! 0 = a" "starts ! 1 = a + n" "starts ! 2 = a + 2 * n"
proof -
  obtain a where a: "reserve_range k (n * 3) h = Inr (Inr a, h')" "starts = map (\<lambda>i. a + n * i) [0..<3]"
    using assms(1) unfolding from_shm_Inr reservation_contiguous_def attempt_Inr_conv by auto
  have "0 < a" using a(1) by (auto simp: reserve_range_def andthen_Inr_conv split: sum.splits)
  then show thesis using that [of a] a(2) by (simp add: mult.commute)
qed

lemma raw_new_Inr:
  assumes "raw_new cfg k pc sz name n_small n_large free h = Inr (Inr r, h')"
  shows "\<exists>i sl sm ll lg. id_new name = Inr i \<and> requested_layout cfg small_bracket (sz_small sz) n_small = Inr (sl, sm) \<and>
    requested_layout cfg large_bracket (sz_large sz) n_large = Inr (ll, lg) \<and>
    (\<exists>h h'. reserved_new cfg k pc i ''ls'' (hl_locals sm) sl h = Inr (Inr (rw_local_small r), h')) \<and>
    (\<exists>h h'. suffixed i ''rs'' (\<lambda>i1 h. attempt (from_shm (reservation_new reservation_size k h)) (\<lambda>start.
       sequential_new cfg k pc i1 start (hl_remotes sm) sl)) h = Inr (Inr (rw_remote_small r), h')) \<and>
    (\<exists>h h'. reserved_new cfg k pc i ''ll'' (hl_locals lg) ll h = Inr (Inr (rw_local_large r), h')) \<and>
    (\<exists>h h'. reserved_new cfg k pc i ''rl'' (hl_remotes lg) ll h = Inr (Inr (rw_remote_large r), h')) \<and>
    (\<exists>starts h h' h1 h1' h2 h2'. from_shm (reservation_contiguous reservation_size 3 k h) = Inr (Inr starts, h') \<and>
       suffixed i ''ds'' (\<lambda>i1. sequential_new cfg k pc i1 (starts ! 0) (hl_data sm) sl) h1 = Inr (Inr (rw_data_small r), h1') \<and>
       suffixed i ''dl'' (\<lambda>i1. sequential_new cfg k pc i1 (starts ! 1) (hl_data lg) ll) h2 = Inr (Inr (rw_data_large r), h2') \<and>
       rd_start (rw_data_huge r) = starts ! 2)"
  using assms unfolding raw_new_def andthen_Inr_conv attempt_Inr_conv split_paired_Ex split_conv sum.inject prod.inject
  apply clarify
  apply (simp only: raw.select_convs random.select_convs)
  apply (intro exI conjI)
  apply (assumption | rule refl)+
  done

subsection \<open>Metadata\<close>

text \<open>A size and alignment as every type has them.\<close>

definition field_ok :: "nat \<times> nat \<Rightarrow> bool" where
  "field_ok f \<longleftrightarrow> 0 < snd f \<and> fst f + snd f \<le> 2 ^ 63"

lemma layout_fields_apart:
  assumes "layout_fields l fs = Inr (l', offs)" "\<forall>f\<in>set fs. field_ok f" "field_ok l"
  shows "length offs = length fs \<and> fst l \<le> fst l' \<and> field_ok l' \<and>
    (\<forall>i<length fs. fst l \<le> offs ! i \<and> snd (fs ! i) dvd offs ! i \<and> offs ! i + fst (fs ! i) \<le> fst l' \<and>
      (\<forall>j<length fs. i < j \<longrightarrow> offs ! i + fst (fs ! i) \<le> offs ! j))"
  using assms
proof (induction fs arbitrary: l offs)
  case (Cons f fs)
  define off where "off = next_multiple_of (fst l) (snd f)"
  obtain l1 offs1 where l1: "l1 = (off + fst f, max (snd l) (snd f))" "layout_fields l1 fs = Inr (l', offs1)" "offs = off # offs1"
    using Cons.prems(1) by (auto simp: andthen_Inr_conv layout_extend_def Let_def off_def split: if_splits)
  have ok: "field_ok l1" using Cons.prems l1(1) by (auto simp: andthen_Inr_conv layout_extend_def Let_def off_def field_ok_def split: if_splits)
  note IH = Cons.IH [OF l1(2) _ ok]
  have "fst l \<le> off" "snd f dvd off" using Cons.prems(2) by (simp_all add: off_def next_multiple_of_ge field_ok_def)
  then show ?case using IH Cons.prems(2) l1(1,3) by (simp add: All_less_Suc2) fastforce
qed simp

lemma struct_layout_apart:
  assumes "struct_layout head rest = Inr (n, offs)" "\<forall>f\<in>set (head # rest). field_ok f"
  shows "length offs = length (head # rest) \<and> n < 2 ^ 63 \<and>
    (\<forall>i<length (head # rest). snd ((head # rest) ! i) dvd offs ! i \<and> offs ! i + fst ((head # rest) ! i) \<le> n \<and>
      (\<forall>j<length (head # rest). i < j \<longrightarrow> offs ! i + fst ((head # rest) ! i) \<le> offs ! j))"
proof -
  obtain l offs1 where l: "layout_fields head rest = Inr (l, offs1)" "offs = 0 # offs1" "n = next_multiple_of (fst l) (snd l)"
    using assms(1) by (auto simp: struct_layout_def andthen_Inr_conv)
  note F = layout_fields_apart [OF l(1)]
  have "field_ok l" using F assms(2) by simp
  then have "fst l \<le> n" "n < 2 ^ 63" using l(3) next_multiple_of_ge [of "snd l" "fst l"] next_multiple_of_less [of "snd l" "fst l"] by (simp_all add: field_ok_def)
  then show ?thesis using F assms(2) l(2) by (simp add: All_less_Suc2) fastforce
qed

lemma fixed_new_size:
  assumes "fixed_new cfg k pc i n h = Inr (Inr f, h')" "n < 2 ^ 63"
  shows "n \<le> fx_size f" "8 dvd fx_size f"
proof -
  have "next_multiple_of n SIZE_PAGE < 2 ^ 64" using next_multiple_of_less [of SIZE_PAGE n] assms(2) by (simp add: SIZE_PAGE_def)
  then have f: "fx_size f = next_multiple_of n SIZE_PAGE"
    using assms(1) next_multiple_of_w_ok [of SIZE_PAGE n cfg] by (auto simp: fixed_new_def andthen_Inr_conv attempt_Inr_conv SIZE_PAGE_def)
  show "n \<le> fx_size f" unfolding f by (intro next_multiple_of_ge) (simp add: SIZE_PAGE_def)
  have "8 dvd SIZE_PAGE" by (simp add: SIZE_PAGE_def)
  then show "8 dvd fx_size f" unfolding f using next_multiple_of_dvd dvd_trans by blast
qed

lemma raw_new_fixed:
  assumes "raw_new cfg k pc sz name n_small n_large free h = Inr (Inr r, h')"
  shows "\<exists>n so m oo. struct_layout (hd (sz_shared sz)) (tl (sz_shared sz)) = Inr (n, so) \<and> struct_layout (hd (sz_owned sz)) (tl (sz_owned sz)) = Inr (m, oo) \<and>
    (\<exists>i h h'. fixed_new cfg k pc i n h = Inr (Inr (rw_shared r), h')) \<and> (\<exists>i h h'. fixed_new cfg k pc i m h = Inr (Inr (rw_owned r), h'))"
  using assms unfolding raw_new_def andthen_Inr_conv attempt_Inr_conv split_paired_Ex split_conv sum.inject prod.inject suffixed_def
  apply clarify
  apply (simp only: raw.select_convs)
  apply (intro exI conjI)
  apply (assumption | rule refl)+
  done

lemma zero_words_at: "zero_words ptr count m x = (if ptr \<le> x \<and> x < ptr + 8 * count then 0 else m x)"
  by (induction ptr count m rule: zero_words.induct) auto

lemma zero_metadata_at:
  assumes "8 dvd fx_size (rw_shared r)" "8 dvd fx_size (rw_owned r)"
  shows "zero_metadata r m x = (if fx_address (rw_shared r) \<le> x \<and> x < fx_address (rw_shared r) + fx_size (rw_shared r) \<or>
    fx_address (rw_owned r) \<le> x \<and> x < fx_address (rw_owned r) + fx_size (rw_owned r) then 0 else m x)"
proof -
  have "8 * (fx_size (rw_shared r) div 8) = fx_size (rw_shared r)" "8 * (fx_size (rw_owned r) div 8) = fx_size (rw_owned r)" using assms by simp_all
  then show ?thesis by (simp add: zero_metadata_def zero_words_at)
qed

subsection \<open>A small heap in three regions\<close>

text \<open>
  A heap created with room for 32 slabs: a segment of the data region and of the local region holds 32
  slabs, while a segment of the remote region, rounded up to a page, covers 512. The 33rd slab is in use.
\<close>

definition demo_region :: "string \<Rightarrow> nat \<Rightarrow> nat \<Rightarrow> sequential" where
  "demo_region name start n = Normal \<lparr>id_buffer = name @ replicate (ID_SIZE - length name) NUL, id_len = length name\<rparr> True start n"

abbreviation demo_local :: sequential where "demo_local \<equiv> demo_region ''h-ls'' (2 ^ 44) 16384"
abbreviation demo_remote :: sequential where "demo_remote \<equiv> demo_region ''h-rs'' (2 ^ 44 + 2 ^ 40) 4096"
abbreviation demo_data :: sequential where "demo_data \<equiv> demo_region ''h-ds'' (2 ^ 45) 1048576"

definition demo_heap :: "small heap" where
  "demo_heap = (heap_init small_bracket (Small 0))\<lparr>gbump := \<lparr>c_id = None, c_version = 0, c_inner = Some 34\<rparr>\<rparr>"

abbreviation demo_policy :: policy where "demo_policy \<equiv> \<lparr>pc_numa = None, pc_populate = None\<rparr>"

lemma demo_ok: "seq_ok demo_local" "seq_ok demo_remote" "seq_ok demo_data"
  by (simp_all add: seq_ok_def demo_region_def id_wf_def id_str_def ID_SIZE_def NUL_def SIZE_PAGE_def) (rule exI [of _ True], simp)+

lemma demo_fits: "name_fits demo_local 16384" "name_fits demo_remote 256" "name_fits demo_data 1048576" "name_fits demo_remote 0"
  by (simp_all add: name_fits_def demo_region_def decimal.simps MAX_LEN_def)

lemma demo_len: "shared_len cfg_debug 1 demo_heap = (Some 34, demo_heap)"
  by (simp add: shared_len_def det_load_def det_help_def demo_heap_def Let_def)

lemma demo_offsets:
  "fault_offsets (512, 8) (SIZE_SLAB small_bracket) (index_to_u32 34) (sq_start demo_local) (sq_start demo_remote) (sq_start demo_data) (2 ^ 45 + 1048576) =
    Some (16384, 256, 1048576)"
  by (simp add: fault_offsets_def demo_region_def small_bracket_def size_values index_to_u32_def)

lemma demo_apart: "segments_apart demo_local 16384 demo_remote 256 demo_data 1048576"
  by (auto simp: segments_apart_def seg_range_def seg_start_def demo_region_def)

lemma demo_policy_ok: "policy_ok cfg demo_policy"
  by (simp add: policy_ok_def)

text \<open>One device of a gibibyte, aligned to two mebibytes.\<close>

abbreviation demo_dax :: "nat \<Rightarrow> dax \<Rightarrow> bool" where
  "demo_dax off d \<equiv> dx_devices d = [\<lparr>dv_size = 2 ^ 30, dv_align = 2 ^ 21, dv_offset = off\<rparr>]"

lemma demo_dax_map:
  assumes "hs_backend h = Dax d" "demo_dax off d" "off \<le> 2 ^ 21" "n = 0 \<or> n = 4096"
  shows "\<exists>h'. sequential_map cfg_debug kernel_sim demo_policy demo_remote n h = Inr (Inr (), h')"
proof -
  let ?i = "sq_id demo_remote"
  have i: "id_wf ?i" "id_len ?i = 4" using demo_ok(2) by (simp_all add: seq_ok_def demo_region_def)
  have "\<exists>c. decimal (n div 4096) = [c]" using assms(4) by (auto simp: decimal.simps)
  then have "id_len ?i + 1 + length (decimal (n div 4096)) \<le> ID_SIZE" using i(2) by (auto simp: ID_SIZE_def)
  then obtain i1 where i1: "with_suffix ?i (decimal (n div 4096)) = Inr i1" using with_suffix_ok [OF i(1) _ decimal_chars(1)] by blast
  have "next_multiple_of_w cfg_debug 4096 (2 ^ 21) = Inr (2 ^ 21)"
    using next_multiple_of_w_ok [of "2 ^ 21" 4096 cfg_debug] by (simp add: next_multiple_of_def)
  then obtain f d' where "dax_open cfg_debug kernel_sim 4096 d = Inr (f, d')"
    using assms(2,3) by (auto simp: dax_open_def Let_def kernel_sim_def add_w_def)
  then have "backend_open cfg_debug kernel_sim (id_str i1) 4096 h = Inr (Inr f, h\<lparr>hs_backend := Dax d'\<rparr>)" using assms(1) by (simp add: backend_open_def)
  moreover obtain h' where "bfile_map cfg_debug kernel_sim (Some (2 ^ 44 + 2 ^ 40 + 4096 * (n div 4096))) None None f (h\<lparr>hs_backend := Dax d'\<rparr>) =
      Inr (Inr (2 ^ 44 + 2 ^ 40 + 4096 * (n div 4096)), h')" using grants_map [OF kernel_sim_grants, of "2 ^ 44 + 2 ^ 40 + 4096 * (n div 4096)" None cfg_debug None f "h\<lparr>hs_backend := Dax d'\<rparr>"] by auto
  ultimately show ?thesis using i1 by (simp add: sequential_map_def demo_region_def)
qed

text \<open>Creating a lazy heap in anonymous memory.\<close>

definition demo_sizes :: sizes where
  "demo_sizes = \<lparr>sz_small = (512, 8), sz_large = (128, 8), sz_shared = [(64, 64), (128, 64)], sz_owned = [(4096, 64)]\<rparr>"

lemma sim_reserve: "\<exists>h'. reserve_range kernel_sim n h = Inr (Inr (2 ^ 44), h') \<and> hs_backend h' = hs_backend h"
  by (simp add: reserve_range_def kernel_sim_def fixed_flag mmap_effect_def MAP_FIXED_def MAP_ANONYMOUS_def MAP_PRIVATE_def)

lemma sim_fixed:
  assumes "hs_backend h = Mmap" "0 < n" "n \<le> 4096"
  shows "\<exists>f h'. fixed_new cfg_debug kernel_sim demo_policy i n h = Inr (Inr f, h') \<and> hs_backend h' = Mmap"
proof -
  have "(n + 4095) div 4096 = 1" using assms(2,3) by arith
  then have "next_multiple_of n SIZE_PAGE = SIZE_PAGE" by (simp add: next_multiple_of_def SIZE_PAGE_def)
  then have n: "next_multiple_of_w cfg_debug n SIZE_PAGE = Inr 4096" using next_multiple_of_w_ok [of SIZE_PAGE n cfg_debug] by (simp add: SIZE_PAGE_def)
  have "next_multiple_of_w cfg_debug 4096 SIZE_PAGE = Inr 4096" by (simp add: next_multiple_of_w_def SIZE_PAGE_def)
  then show ?thesis using n assms(1)
    by (simp add: fixed_new_def backend_open_def mmap_open_def bfile_new_def from_shm_def bfile_map_def bfile_flags_def kernel_sim_def
      mmap_effect_def MAP_FIXED_def MAP_ANONYMOUS_def MAP_SHARED_def MAP_PRIVATE_def Let_def)
qed

lemma demo_layouts: "\<exists>l. requested_layout cfg_debug small_bracket (512, 8) 0 = Inr (True, l) \<and> 0 < hl_locals l \<and> 0 < hl_remotes l \<and> 0 < hl_data l"
  "\<exists>l. requested_layout cfg_debug large_bracket (128, 8) 0 = Inr (True, l) \<and> 0 < hl_locals l \<and> 0 < hl_remotes l \<and> 0 < hl_data l"
  by (simp_all add: requested_layout_def heap_layout_default_def heap_layout_of_def next_multiple_of_w_def layout_array_def
    small_bracket_def large_bracket_def size_values nonzero_def)

lemma demo_suffix: "id_new ''heap'' = Inr i \<Longrightarrow> length s \<le> 2 \<Longrightarrow> NUL \<notin> set s \<Longrightarrow> \<exists>i1. with_suffix i s = Inr i1"
  using with_suffix_ok [of i s] id_new_wf [of "''heap''" i] id_len_str [of i] by (auto simp: ID_SIZE_def)

lemma lazy_sequential:
  assumes "0 < n" "n < 2 ^ 64 - SIZE_PAGE"
  shows "\<exists>s. sequential_new cfg k pc i start n True h = Inr (Inr s, h)"
proof -
  have "next_multiple_of n SIZE_PAGE < 2 ^ 64" "n \<le> next_multiple_of n SIZE_PAGE"
    using next_multiple_of_less [of SIZE_PAGE n] next_multiple_of_ge [of SIZE_PAGE n] assms(2) by (simp_all add: SIZE_PAGE_def)
  then show ?thesis using next_multiple_of_w_ok [of SIZE_PAGE n cfg] assms(1) by (simp add: sequential_new_def SIZE_PAGE_def)
qed

lemma lazy_suffixed:
  assumes "\<exists>i1. with_suffix i s = Inr i1" "0 < n" "n < 2 ^ 64 - SIZE_PAGE"
  shows "\<exists>r. suffixed i s (\<lambda>i1. sequential_new cfg k pc i1 start n True) h = Inr (Inr r, h)"
    "\<exists>r h'. reserved_new cfg kernel_sim pc i s n True h = Inr (Inr r, h')"
    "\<exists>r h'. suffixed i s (\<lambda>i1 h. attempt (from_shm (reservation_new reservation_size kernel_sim h)) (\<lambda>start.
       sequential_new cfg kernel_sim pc i1 start n True)) h = Inr (Inr r, h')"
proof -
  obtain i1 where i1: "with_suffix i s = Inr i1" using assms(1) by blast
  show "\<exists>r. suffixed i s (\<lambda>i1. sequential_new cfg k pc i1 start n True) h = Inr (Inr r, h)"
    using lazy_sequential [OF assms(2,3)] i1 by (simp add: suffixed_def)
  obtain h' where r: "from_shm (reservation_new reservation_size kernel_sim h) = Inr (Inr (2 ^ 44), h')"
    using sim_reserve [of reservation_size h] by (auto simp: from_shm_Inr reservation_new_def)
  obtain s' where "sequential_new cfg kernel_sim pc i1 (2 ^ 44) n True h' = Inr (Inr s', h')" using lazy_sequential [OF assms(2,3)] by blast
  then show "\<exists>r h'. reserved_new cfg kernel_sim pc i s n True h = Inr (Inr r, h')"
    "\<exists>r h'. suffixed i s (\<lambda>i1 h. attempt (from_shm (reservation_new reservation_size kernel_sim h)) (\<lambda>start.
       sequential_new cfg kernel_sim pc i1 start n True)) h = Inr (Inr r, h')"
    using i1 r by (simp_all add: reserved_new_def suffixed_def)
qed

lemma demo_created: "\<exists>r h'. raw_new cfg_debug kernel_sim demo_policy demo_sizes ''heap'' 0 0 False (host_init Mmap) = Inr (Inr r, h')"
proof -
  obtain i where i: "id_new ''heap'' = Inr i" by (auto simp: id_new_def ID_SIZE_def)
  note S = demo_suffix [OF i]
  obtain sm lg where sm: "requested_layout cfg_debug small_bracket (512, 8) 0 = Inr (True, sm)" "0 < hl_locals sm" "0 < hl_remotes sm" "0 < hl_data sm"
    and lg: "requested_layout cfg_debug large_bracket (128, 8) 0 = Inr (True, lg)" "0 < hl_locals lg" "0 < hl_remotes lg" "0 < hl_data lg"
    using demo_layouts by metis
  note bs = requested_layout_bounds [OF sm(1)] and bl = requested_layout_bounds [OF lg(1)]
  have lay: "struct_layout (64, 64) [(128, 64)] = Inr (192, [0, 64])" "struct_layout (4096, 64) [] = Inr (4096, [0])"
    by (simp_all add: struct_layout_def layout_extend_def next_multiple_of_def)
  have two: "\<exists>i1. with_suffix i [a, b] = Inr i1" "\<exists>i1. with_suffix i [a] = Inr i1" if "a \<noteq> NUL" "b \<noteq> NUL" for a b using S that by auto
  have nn: "CHR ''s'' \<noteq> NUL" "CHR ''o'' \<noteq> NUL" "CHR ''l'' \<noteq> NUL" "CHR ''r'' \<noteq> NUL" "CHR ''d'' \<noteq> NUL" "CHR ''h'' \<noteq> NUL" by (simp_all add: NUL_def)
  obtain i1 i2 i3 where i1: "with_suffix i ''s'' = Inr i1" and i2: "with_suffix i ''o'' = Inr i2" and i3: "with_suffix i ''dh'' = Inr i3" using two nn by metis
  obtain f1 h1 where h1: "fixed_new cfg_debug kernel_sim demo_policy i1 192 (host_init Mmap) = Inr (Inr f1, h1)" "hs_backend h1 = Mmap"
    using sim_fixed [of "host_init Mmap" 192 i1] by (auto simp: host_init_def)
  obtain f2 h2 where h2: "fixed_new cfg_debug kernel_sim demo_policy i2 4096 h1 = Inr (Inr f2, h2)" using sim_fixed [OF h1(2), of 4096 i2] by auto
  obtain r3 h3 where h3: "reserved_new cfg_debug kernel_sim demo_policy i ''ls'' (hl_locals sm) True h2 = Inr (Inr r3, h3)"
    using lazy_suffixed(2) [OF two(1) sm(2) bs(1)] nn by blast
  obtain r4 h4 where h4: "suffixed i ''rs'' (\<lambda>i1 h. attempt (from_shm (reservation_new reservation_size kernel_sim h)) (\<lambda>start.
       sequential_new cfg_debug kernel_sim demo_policy i1 start (hl_remotes sm) True)) h3 = Inr (Inr r4, h4)" using lazy_suffixed(3) [OF two(1) sm(3) bs(2)] nn by blast
  obtain r5 h5 where h5: "reserved_new cfg_debug kernel_sim demo_policy i ''ll'' (hl_locals lg) True h4 = Inr (Inr r5, h5)"
    using lazy_suffixed(2) [OF two(1) lg(2) bl(1)] nn by blast
  obtain r6 h6 where h6: "reserved_new cfg_debug kernel_sim demo_policy i ''rl'' (hl_remotes lg) True h5 = Inr (Inr r6, h6)"
    using lazy_suffixed(2) [OF two(1) lg(3) bl(2)] nn by blast
  obtain starts h7 where h7: "from_shm (reservation_contiguous reservation_size 3 kernel_sim h6) = Inr (Inr starts, h7)"
    using sim_reserve [of "reservation_size * 3" h6] by (auto simp: from_shm_Inr reservation_contiguous_def)
  obtain r8 where h8: "suffixed i ''ds'' (\<lambda>i1. sequential_new cfg_debug kernel_sim demo_policy i1 (starts ! 0) (hl_data sm) True) h7 = Inr (Inr r8, h7)"
    using lazy_suffixed(1) [OF two(1) sm(4) bs(3)] nn by blast
  obtain r9 where h9: "suffixed i ''dl'' (\<lambda>i1. sequential_new cfg_debug kernel_sim demo_policy i1 (starts ! 1) (hl_data lg) True) h7 = Inr (Inr r9, h7)"
    using lazy_suffixed(1) [OF two(1) lg(4) bl(3)] nn by blast
  have sx: "suffixed i ''s'' (\<lambda>i1. fixed_new cfg_debug kernel_sim demo_policy i1 192) (host_init Mmap) = Inr (Inr f1, h1)"
    "suffixed i ''o'' (\<lambda>i1. fixed_new cfg_debug kernel_sim demo_policy i1 4096) h1 = Inr (Inr f2, h2)"
    using i1 i2 h1(1) h2 by (simp_all add: suffixed_def)
  show ?thesis unfolding raw_new_def demo_sizes_def using i lay sx sm(1) h3 h4 lg(1) h5 h6 h7 h8 h9 i3 by simp
qed

subsection \<open>Properties\<close>

text \<open>
  C19: a region identifier always is a buffer of 64 bytes that holds a name followed by zeros: creating one
  from a name and appending a suffix keep that form, the name grows by a dash and the suffix,
  and appending panics exactly when the result would not fit.
\<close>

theorem identifiers_well_formed:
  assumes "id_wf i" and "NUL \<notin> set s"
  shows "(id_new name = Inr j \<longrightarrow> id_wf j \<and> id_str j = name) \<and>
    (if id_len i + 1 + length s \<le> ID_SIZE
     then \<exists>i'. with_suffix i s = Inr i' \<and> id_wf i' \<and> id_str i' = id_str i @ CHR ''-'' # s
     else with_suffix i s = Inl (Explicit ''failed to write whole buffer''))"
  using id_new_wf [of name j] with_suffix_ok [OF assms(1) _ assms(2)] with_suffix_full [OF assms(1)] by auto

theorem identifiers_well_formed_witness:
  "\<exists>i i'. id_new ''heap'' = Inr i \<and> with_suffix i ''ls'' = Inr i' \<and> id_str i' = ''heap-ls''"
proof -
  obtain i where i: "id_new ''heap'' = Inr i" "id_wf i" "id_str i = ''heap''" using id_new_wf [of "''heap''"] by (auto simp: id_new_def ID_SIZE_def)
  have "id_len i = 4" using i(1) by (simp add: id_new_def ID_SIZE_def) auto
  then show ?thesis using identifiers_well_formed [OF i(2), of "''ls''" "''heap''" i] i by (auto simp: NUL_def ID_SIZE_def)
qed



text \<open>
  C15: with named shared memory, an access to any part of a slab in use that faults is resolved: the handler
  maps the segments of the slab's local and remote descriptor and of its data, each from its own object,
  at the same offset in every process, so the address is accessible afterwards, and nothing outside
  these segments changes.
\<close>

theorem fault_resolved:
  assumes "kernel_grants k" "policy_ok cfg pc" "hs_backend h = Shm" "seq_ok local" "seq_ok remote" "seq_ok data"
    and "shared_len cfg t hp = (Some i, hp1)"
    and "fault_offsets sz (SIZE_SLAB B) (index_to_u32 i) (sq_start local) (sq_start remote) (sq_start data) p = Some (lo, ro, dt)"
    and "name_fits local lo" "name_fits remote ro" "name_fits data dt" "segments_apart local lo remote ro data dt"
  shows "\<exists>h'. heap_try_map cfg k pc B sz local remote data t p h hp = Inr ((Inr (), h'), hp1) \<and>
    (\<exists>(s, off)\<in>{(local, lo), (remote, ro), (data, dt)}. p = sq_start s + off) \<and>
    (\<forall>(s, off)\<in>{(local, lo), (remote, ro), (data, dt)}.
      hs_at h' (sq_start s + off) = Some (Backed (Object (seg_object s off)) (off mod sq_size s))) \<and>
    (\<forall>x. x \<notin> seg_range local lo \<union> seg_range remote ro \<union> seg_range data dt \<longrightarrow> hs_at h' x = hs_at h x)"
proof -
  obtain h' where h': "map_three cfg k pc local lo remote ro data dt h = Inr (Inr (), h')"
    "\<And>s off. (s, off) \<in> {(local, lo), (remote, ro), (data, dt)} \<Longrightarrow>
       hs_at h' (sq_start s + off) = Some (Backed (Object (seg_object s off)) (off mod sq_size s))"
    "\<And>x. x \<notin> seg_range local lo \<union> seg_range remote ro \<union> seg_range data dt \<Longrightarrow> hs_at h' x = hs_at h x"
    using map_three_shm [OF assms(1,4-6,9-11,2,3,12)] by blast
  have "heap_try_map cfg k pc B sz local remote data t p h hp = Inr ((Inr (), h'), hp1)"
    using assms(7,8) h'(1) by (simp add: heap_try_map_def)
  moreover have "\<exists>(s, off)\<in>{(local, lo), (remote, ro), (data, dt)}. p = sq_start s + off"
    using fault_offsets_address [OF assms(8)] by auto
  ultimately show ?thesis using h'(2,3) by (intro exI [of _ h']) blast
qed

theorem fault_resolved_witness:
  "\<exists>h'. heap_try_map cfg_debug kernel_sim demo_policy small_bracket (512, 8) demo_local demo_remote demo_data 1 (2 ^ 45 + 1048576)
      (host_init Shm) demo_heap = Inr ((Inr (), h'), demo_heap) \<and>
    hs_at h' (2 ^ 45 + 1048576) = Some (Backed (Object (seg_object demo_data 1048576)) 0)"
proof -
  have b: "hs_backend (host_init Shm) = Shm" by (simp add: host_init_def)
  obtain h' where h': "heap_try_map cfg_debug kernel_sim demo_policy small_bracket (512, 8) demo_local demo_remote demo_data 1 (2 ^ 45 + 1048576)
      (host_init Shm) demo_heap = Inr ((Inr (), h'), demo_heap)"
    "\<forall>(s, off)\<in>{(demo_local, 16384), (demo_remote, 256), (demo_data, 1048576)}.
      hs_at h' (sq_start s + off) = Some (Backed (Object (seg_object s off)) (off mod sq_size s))"
    using fault_resolved [OF kernel_sim_grants demo_policy_ok b demo_ok demo_len demo_offsets demo_fits(1-3) demo_apart] by blast
  have "hs_at h' (sq_start demo_data + 1048576) = Some (Backed (Object (seg_object demo_data 1048576)) (1048576 mod sq_size demo_data))" using h'(2) by blast
  then show ?thesis using h'(1) by (auto simp: demo_region_def)
qed



text \<open>
  C36: on a device, a segment whose size is no multiple of the device's alignment reaches into the next one:
  when a segment is mapped after its successor, the start of the successor is no longer backed
  by the bytes of the device that it was mapped from.
\<close>

theorem dax_segments_overlap:
  assumes "kernel_ok k" "seq_ok s" "hs_backend h = Dax d" "dx_devices d = [dv]" "\<not> dv_align dv dvd sq_size s"
    and "dv_offset dv + 2 * next_multiple_of (sq_size s) (dv_align dv) < 2 ^ 64"
    and "off2 div sq_size s = Suc (off1 div sq_size s)"
    and "sequential_map cfg k pc s off2 h = Inr (Inr u, h1)" "sequential_map cfg k pc s off1 h1 = Inr (Inr v, h2)"
  shows "hs_at h1 (seg_start s off2) = Some (Backed (Device 0) (dv_offset dv)) \<and> hs_at h2 (seg_start s off2) \<noteq> hs_at h1 (seg_start s off2)"
proof -
  let ?r = "next_multiple_of (sq_size s) (dv_align dv)"
  have b: "dv_offset dv + ?r < 2 ^ 64" using assms(6) by simp
  obtain d' where d': "hs_at h1 = mapped (seg_start s off2) ?r (\<lambda>j. Some (Backed (Device 0) (dv_offset dv + j))) (hs_at h)"
    "hs_backend h1 = Dax d'" "dx_devices d' = [dv\<lparr>dv_offset := dv_offset dv + ?r\<rparr>]" "0 < dv_align dv"
    using sequential_map_dax [OF assms(8,2,1,3,4) b] by blast
  obtain d'' where d'': "hs_at h2 = mapped (seg_start s off1) ?r (\<lambda>j. Some (Backed (Device 0) (dv_offset dv + ?r + j))) (hs_at h1)"
    using sequential_map_dax [OF assms(9,2,1) d'(2,3)] assms(6) by auto
  have pos: "0 < sq_size s" using assms(2) by (simp add: seq_ok_def)
  have "sq_size s \<noteq> ?r" using assms(5) next_multiple_of_dvd by metis
  then have r: "sq_size s < ?r" using next_multiple_of_ge [OF d'(4), of "sq_size s"] by simp
  have st: "seg_start s off2 = seg_start s off1 + sq_size s" using assms(7) by (simp add: seg_start_def)
  have "hs_at h1 (seg_start s off2) = Some (Backed (Device 0) (dv_offset dv))" using d'(1) r by (simp add: mapped_def)
  moreover have "hs_at h2 (seg_start s off2) = Some (Backed (Device 0) (dv_offset dv + ?r + sq_size s))" using d'' r st by (simp add: mapped_def)
  ultimately show ?thesis using pos by simp
qed

theorem dax_segments_overlap_witness:
  "\<exists>h h1 h2. sequential_map cfg_debug kernel_sim demo_policy demo_remote 4096 h = Inr (Inr (), h1) \<and>
    sequential_map cfg_debug kernel_sim demo_policy demo_remote 0 h1 = Inr (Inr (), h2) \<and>
    hs_at h1 (2 ^ 44 + 2 ^ 40 + 4096) = Some (Backed (Device 0) 0) \<and> hs_at h2 (2 ^ 44 + 2 ^ 40 + 4096) \<noteq> hs_at h1 (2 ^ 44 + 2 ^ 40 + 4096)"
proof -
  define d where "d = \<lparr>dx_devices = [\<lparr>dv_size = 2 ^ 30, dv_align = 2 ^ 21, dv_offset = 0\<rparr>], dx_next = 0\<rparr>"
  let ?h = "host_init (Dax d)" and ?dv = "\<lparr>dv_size = 2 ^ 30, dv_align = 2 ^ 21, dv_offset = 0\<rparr> :: device"
  have d: "hs_backend ?h = Dax d" "dx_devices d = [?dv]" by (simp_all add: host_init_def d_def)
  have r: "next_multiple_of (sq_size demo_remote) (dv_align ?dv) = 2 ^ 21" by (simp add: demo_region_def next_multiple_of_def)
  have al: "\<not> dv_align ?dv dvd sq_size demo_remote" "dv_offset ?dv + 2 * next_multiple_of (sq_size demo_remote) (dv_align ?dv) < 2 ^ 64"
    "(4096::nat) div sq_size demo_remote = Suc (0 div sq_size demo_remote)" unfolding r by (simp_all add: demo_region_def)
  obtain h1 where h1: "sequential_map cfg_debug kernel_sim demo_policy demo_remote 4096 ?h = Inr (Inr (), h1)" using demo_dax_map [OF d] by auto
  have "dv_offset ?dv + next_multiple_of (sq_size demo_remote) (dv_align ?dv) < 2 ^ 64" unfolding r by simp
  then obtain d' where d': "hs_backend h1 = Dax d'" "dx_devices d' = [?dv\<lparr>dv_offset := dv_offset ?dv + 2 ^ 21\<rparr>]"
    using sequential_map_dax [OF h1 demo_ok(2) kernel_sim_ok d] unfolding r by blast
  obtain h2 where h2: "sequential_map cfg_debug kernel_sim demo_policy demo_remote 0 h1 = Inr (Inr (), h2)"
    using demo_dax_map [OF d'(1), of "2 ^ 21" 0] d'(2) by auto
  have "seg_start demo_remote 4096 = 2 ^ 44 + 2 ^ 40 + 4096" by (simp add: seg_start_def demo_region_def)
  then have "hs_at h1 (2 ^ 44 + 2 ^ 40 + 4096) = Some (Backed (Device 0) 0)" "hs_at h2 (2 ^ 44 + 2 ^ 40 + 4096) \<noteq> hs_at h1 (2 ^ 44 + 2 ^ 40 + 4096)"
    using dax_segments_overlap [OF kernel_sim_ok demo_ok(2) d al h1 h2] by auto
  then show ?thesis using h1 h2 by blast
qed



text \<open>
  C16: a heap that was created consists of six growing regions, each named after the heap with its own suffix,
  with a segment size that is a positive multiple of the page size, and its three data regions are
  adjacent terabytes in the order small, large, huge, which the routing of addresses relies on.
\<close>

theorem created_heap_regions:
  assumes "raw_new cfg k pc sz name n_small n_large free h = Inr (Inr r, h')" and "kernel_ok k" and "NUL \<notin> set name"
  shows "part_of name ''ls'' (rw_local_small r) \<and> part_of name ''rs'' (rw_remote_small r) \<and> part_of name ''ds'' (rw_data_small r) \<and>
    part_of name ''ll'' (rw_local_large r) \<and> part_of name ''rl'' (rw_remote_large r) \<and> part_of name ''dl'' (rw_data_large r) \<and>
    0 < ly_small (raw_layout r) \<and> ly_large (raw_layout r) = ly_small (raw_layout r) + reservation_size \<and>
    ly_huge (raw_layout r) = ly_large (raw_layout r) + reservation_size"
proof -
  obtain i sl sm ll lg where i: "id_new name = Inr i"
    and sm: "requested_layout cfg small_bracket (sz_small sz) n_small = Inr (sl, sm)"
    and lg: "requested_layout cfg large_bracket (sz_large sz) n_large = Inr (ll, lg)"
    and P: "\<exists>h h'. reserved_new cfg k pc i ''ls'' (hl_locals sm) sl h = Inr (Inr (rw_local_small r), h')"
      "\<exists>h h'. suffixed i ''rs'' (\<lambda>i1 h. attempt (from_shm (reservation_new reservation_size k h)) (\<lambda>start.
         sequential_new cfg k pc i1 start (hl_remotes sm) sl)) h = Inr (Inr (rw_remote_small r), h')"
      "\<exists>h h'. reserved_new cfg k pc i ''ll'' (hl_locals lg) ll h = Inr (Inr (rw_local_large r), h')"
      "\<exists>h h'. reserved_new cfg k pc i ''rl'' (hl_remotes lg) ll h = Inr (Inr (rw_remote_large r), h')"
      "\<exists>starts h h' h1 h1' h2 h2'. from_shm (reservation_contiguous reservation_size 3 k h) = Inr (Inr starts, h') \<and>
         suffixed i ''ds'' (\<lambda>i1. sequential_new cfg k pc i1 (starts ! 0) (hl_data sm) sl) h1 = Inr (Inr (rw_data_small r), h1') \<and>
         suffixed i ''dl'' (\<lambda>i1. sequential_new cfg k pc i1 (starts ! 1) (hl_data lg) ll) h2 = Inr (Inr (rw_data_large r), h2') \<and>
         rd_start (rw_data_huge r) = starts ! 2"
    using raw_new_Inr [OF assms(1)] by blast
  note w = id_new_wf [OF i]
  have nul: "NUL \<notin> set (id_str i)" "NUL \<notin> set ''ls''" "NUL \<notin> set ''rs''" "NUL \<notin> set ''ds''" "NUL \<notin> set ''ll''" "NUL \<notin> set ''rl''" "NUL \<notin> set ''dl''"
    using assms(3) w(2) by (simp_all add: NUL_def)
  note bs = requested_layout_bounds [OF sm] and bl = requested_layout_bounds [OF lg]
  obtain starts a where st: "0 < a" "starts ! 0 = a" "starts ! 1 = a + reservation_size" "starts ! 2 = a + 2 * reservation_size"
    and D: "\<exists>h1 h1'. suffixed i ''ds'' (\<lambda>i1. sequential_new cfg k pc i1 (starts ! 0) (hl_data sm) sl) h1 = Inr (Inr (rw_data_small r), h1')"
      "\<exists>h2 h2'. suffixed i ''dl'' (\<lambda>i1. sequential_new cfg k pc i1 (starts ! 1) (hl_data lg) ll) h2 = Inr (Inr (rw_data_large r), h2')"
      "rd_start (rw_data_huge r) = starts ! 2"
    using P(5) contiguous_starts [OF _ assms(2)] by metis
  have ds: "part_of (id_str i) ''ds'' (rw_data_small r)" "sq_start (rw_data_small r) = a"
    using D(1) suffixed_part [OF _ w(1) nul(1,4) _ bs(3)] st(1,2) by auto
  have dl: "part_of (id_str i) ''dl'' (rw_data_large r)" "sq_start (rw_data_large r) = a + reservation_size"
    using D(2) suffixed_part [OF _ w(1) nul(1,7) _ bl(3)] st(1,3) by auto
  have "part_of (id_str i) ''ls'' (rw_local_small r)" using P(1) reserved_part [OF _ assms(2) w(1) nul(1,2) bs(1)] by blast
  moreover have "part_of (id_str i) ''rs'' (rw_remote_small r)" using P(2) remote_small_part [OF _ assms(2) w(1) nul(1,3) bs(2)] by blast
  moreover have "part_of (id_str i) ''ll'' (rw_local_large r)" using P(3) reserved_part [OF _ assms(2) w(1) nul(1,5) bl(1)] by blast
  moreover have "part_of (id_str i) ''rl'' (rw_remote_large r)" using P(4) reserved_part [OF _ assms(2) w(1) nul(1,6) bl(2)] by blast
  ultimately show ?thesis using ds dl st D(3) w(2) by (simp add: raw_layout_def)
qed

theorem created_heap_regions_witness:
  "\<exists>r h'. raw_new cfg_debug kernel_sim demo_policy demo_sizes ''heap'' 0 0 False (host_init Mmap) = Inr (Inr r, h') \<and>
    part_of ''heap'' ''ls'' (rw_local_small r) \<and> ly_large (raw_layout r) = ly_small (raw_layout r) + reservation_size"
proof -
  obtain r h' where n: "raw_new cfg_debug kernel_sim demo_policy demo_sizes ''heap'' 0 0 False (host_init Mmap) = Inr (Inr r, h')"
    using demo_created by blast
  have "NUL \<notin> set ''heap''" by (simp add: NUL_def)
  from created_heap_regions [OF n kernel_sim_ok this] show ?thesis using n by blast
qed

end
