(* ===== verification/Process.thy ===== *)
theory Process
  imports Region
begin

text \<open>
  The library as a process uses it: the C interface (\<open>cxlalloc-static/src/lib.rs\<close>) and the Rust interface over one
  heap per process (\<open>cxlalloc-global/src/lib.rs\<close>). The heap is created once per process, the allocator of a
  thread on its first call, with the identity the thread has then.
\<close>

subsection \<open>Strings\<close>

text \<open>\<open>str::from_utf8\<close>, on the bytes of a C string.\<close>

definition continuation :: "nat \<Rightarrow> bool" where
  "continuation b \<longleftrightarrow> 128 \<le> b \<and> b < 192"

fun valid_utf8 :: "nat list \<Rightarrow> bool" where
  "valid_utf8 [] \<longleftrightarrow> True"
| "valid_utf8 (b # bs) \<longleftrightarrow>
     (if b < 128 then valid_utf8 bs
      else if 194 \<le> b \<and> b < 224 then (case bs of c # cs \<Rightarrow> continuation c \<and> valid_utf8 cs | _ \<Rightarrow> False)
      else if 224 \<le> b \<and> b < 240
      then (case bs of c # d # ds \<Rightarrow> continuation c \<and> (b = 224 \<longrightarrow> 160 \<le> c) \<and> (b = 237 \<longrightarrow> c < 160) \<and> continuation d \<and> valid_utf8 ds | _ \<Rightarrow> False)
      else if 240 \<le> b \<and> b < 245
      then (case bs of c # d # e # es \<Rightarrow> continuation c \<and> (b = 240 \<longrightarrow> 144 \<le> c) \<and> (b = 244 \<longrightarrow> c < 144) \<and> continuation d \<and> continuation e \<and> valid_utf8 es
            | _ \<Rightarrow> False)
      else False)"

definition to_str :: "string \<Rightarrow> string option" where
  "to_str s = (if valid_utf8 (map of_char s) then Some s else None)"

text \<open>\<open>trim_start_matches\<close> removes the prefix as often as it occurs.\<close>

function trim_start_matches :: "string \<Rightarrow> string \<Rightarrow> string" where
  "trim_start_matches p s =
     (if p \<noteq> [] \<and> take (length p) s = p then trim_start_matches p (drop (length p) s) else s)"
  by auto

termination
proof (relation "measure (\<lambda>(p, s). length s)")
  fix p s :: string
  assume "p \<noteq> [] \<and> take (length p) s = p"
  then have "s \<noteq> []" "0 < length p" by auto
  then show "((p, drop (length p) s), (p, s)) \<in> measure (\<lambda>(p, s). length s)" by simp
qed simp

declare trim_start_matches.simps [simp del]

fun split_on :: "char \<Rightarrow> string \<Rightarrow> string \<Rightarrow> string list" where
  "split_on c acc [] = [rev acc]"
| "split_on c acc (x # xs) = (if x = c then rev acc # split_on c [] xs else split_on c (x # acc) xs)"

subsection \<open>State\<close>

text \<open>What a process starts with: the libraries it calls, the build, and the environment variable that names devices.\<close>

record 's env =
  en_iv :: "'s interval_ops"
  en_cfg :: config
  en_kernel :: kernel
  en_map :: "nat \<Rightarrow> nat \<Rightarrow> bool"
  en_sizes :: sizes
  en_devices :: "string option"

text \<open>A thread-local allocator, by the identity of the thread that created it.\<close>

datatype tls = Unset | Live nat | Destroyed

record 's process =
  ps_raw :: "raw option"
  ps_thread :: "nat \<Rightarrow> nat"
  ps_local :: "nat \<Rightarrow> tls"
  ps_handler :: bool
  ps_heap :: "'s allocator"
  ps_host :: host

definition process_raw :: "'s process \<Rightarrow> raw res" where
  "process_raw s = (case ps_raw s of None \<Rightarrow> Inl (Explicit ''Uninitialized heap: was cxlalloc_init called?'') | Some r \<Rightarrow> Inr r)"

text \<open>Access to a thread-local value, which is created on the first one.\<close>

definition with_local :: "('s process \<Rightarrow> (nat \<times> 's process) res) \<Rightarrow> nat \<Rightarrow> (nat \<Rightarrow> 's process \<Rightarrow> ('x \<times> 's process) res) \<Rightarrow>
    's process \<Rightarrow> ('x \<times> 's process) res" where
  "with_local create tid f s = (case ps_local s tid of
     Destroyed \<Rightarrow> Inl (Explicit ''cannot access a Thread Local Storage value during or after destruction'')
   | Live t \<Rightarrow> f t s
   | Unset \<Rightarrow> andthen (create s) (\<lambda>(t, s1). f t (s1\<lparr>ps_local := (ps_local s1)(tid := Live t)\<rparr>)))"

definition on_allocator :: "(layout \<Rightarrow> nat \<Rightarrow> 's allocator \<Rightarrow> ('x \<times> 's allocator) res) \<Rightarrow> nat \<Rightarrow> 's process \<Rightarrow> ('x \<times> 's process) res" where
  "on_allocator f t s = (case ps_raw s of
     None \<Rightarrow> Inl Undefined
   | Some r \<Rightarrow> andthen (f (raw_layout r) t (ps_heap s)) (\<lambda>(x, a). Inr (x, s\<lparr>ps_heap := a\<rparr>)))"

definition null_or :: "nat option \<Rightarrow> nat" where
  "null_or p = (case p of None \<Rightarrow> 0 | Some q \<Rightarrow> q)"

subsection \<open>The C interface\<close>

definition static_create :: "'s env \<Rightarrow> nat \<Rightarrow> 's process \<Rightarrow> (nat \<times> 's process) res" where
  "static_create E tid s =
     andthen (process_raw s) (\<lambda>_.
     andthen (raw_allocator (en_iv E) (en_cfg E) (ps_thread s tid) (ps_heap s)) (\<lambda>a.
     Inr (ps_thread s tid, s\<lparr>ps_heap := a\<rparr>)))"

definition static_with :: "'s env \<Rightarrow> nat \<Rightarrow> (layout \<Rightarrow> nat \<Rightarrow> 's allocator \<Rightarrow> ('x \<times> 's allocator) res) \<Rightarrow> 's process \<Rightarrow> ('x \<times> 's process) res" where
  "static_with E tid f = with_local (static_create E tid) tid (on_allocator f)"

definition cxlalloc_malloc :: "'s env \<Rightarrow> nat \<Rightarrow> nat \<Rightarrow> 's process \<Rightarrow> (nat \<times> 's process) res" where
  "cxlalloc_malloc E tid n = static_with E tid (\<lambda>ly t a.
     andthen (allocate_untyped (en_iv E) (en_cfg E) (en_map E) ly t n a) (\<lambda>(p, a1). Inr (null_or p, a1)))"

text \<open>A free after the thread-local allocator is gone is only logged.\<close>

definition cxlalloc_free :: "'s env \<Rightarrow> nat \<Rightarrow> nat \<Rightarrow> 's process \<Rightarrow> 's process res" where
  "cxlalloc_free E tid p s =
     (if p = 0 \<or> ps_local s tid = Destroyed then Inr s
      else andthen (static_with E tid (\<lambda>ly t a. andthen (free_untyped (en_cfg E) ly t p a) (\<lambda>a1. Inr ((), a1))) s) (\<lambda>(_, s1). Inr s1))"

definition cxlalloc_realloc :: "'s env \<Rightarrow> nat \<Rightarrow> nat \<Rightarrow> nat \<Rightarrow> 's process \<Rightarrow> (nat \<times> 's process) res" where
  "cxlalloc_realloc E tid p n s =
     (if p = 0 then cxlalloc_malloc E tid n s
      else static_with E tid (\<lambda>ly t a. realloc_untyped (en_iv E) (en_cfg E) (en_map E) ly t p n a) s)"

text \<open>\<open>Layout::from_size_align\<close> and \<open>pad_to_align\<close>.\<close>

definition from_size_align :: "nat \<Rightarrow> nat \<Rightarrow> (nat \<times> nat) option" where
  "from_size_align n align = (if 0 < align \<and> next_power_of_two align = align \<and> n \<le> 2 ^ 63 - align then Some (n, align) else None)"

definition pad_to_align :: "nat \<times> nat \<Rightarrow> nat" where
  "pad_to_align l = next_multiple_of (fst l) (snd l)"

definition cxlalloc_memalign :: "'s env \<Rightarrow> nat \<Rightarrow> nat \<Rightarrow> nat \<Rightarrow> 's process \<Rightarrow> (nat \<times> 's process) res" where
  "cxlalloc_memalign E tid n align s = (case from_size_align n align of
     None \<Rightarrow> Inl (Explicit ''Invalid size and alignment'')
   | Some l \<Rightarrow> cxlalloc_malloc E tid (pad_to_align l) s)"

text \<open>The returned flag, and the offset that is written through the pointer.\<close>

definition cxlalloc_pointer_to_offset :: "'s env \<Rightarrow> nat \<Rightarrow> nat \<Rightarrow> 's process \<Rightarrow> ((bool \<times> nat option) \<times> 's process) res" where
  "cxlalloc_pointer_to_offset E tid p s =
     (if p = 0 then Inr ((False, None), s)
      else static_with E tid (\<lambda>ly t a. andthen (allocator_pointer_to_offset (en_cfg E) ly p) (\<lambda>off. Inr ((True, Some off), a))) s)"

definition cxlalloc_offset_to_pointer :: "'s env \<Rightarrow> nat \<Rightarrow> nat \<Rightarrow> 's process \<Rightarrow> (nat \<times> 's process) res" where
  "cxlalloc_offset_to_pointer E tid off = static_with E tid (\<lambda>ly t a. Inr (allocator_offset_to_pointer ly off, a))"

definition cxlalloc_init_thread :: "nat \<Rightarrow> nat \<Rightarrow> 's process \<Rightarrow> 's process res" where
  "cxlalloc_init_thread tid n s = andthen (thread_new n) (\<lambda>t. Inr (s\<lparr>ps_thread := (ps_thread s)(tid := t)\<rparr>))"

datatype backend_kind = K_Mmap | K_Shm | K_Dax | K_DaxMmap | K_Ivshmem

definition backend_kind_of :: "string \<Rightarrow> backend_kind option" where
  "backend_kind_of s =
     (if s = ''mmap'' then Some K_Mmap else if s = ''shm'' then Some K_Shm else if s = ''dax'' then Some K_Dax
      else if s = ''dax-mmap'' then Some K_DaxMmap else if s = ''ivshmem'' then Some K_Ivshmem else None)"

definition device_paths :: "'s env \<Rightarrow> string list" where
  "device_paths E = split_on (CHR '','') [] (case en_devices E of None \<Rightarrow> ''/dev/dax0.0'' | Some s \<Rightarrow> s)"

definition ok_or_panic :: "string \<Rightarrow> 'e + 'a \<Rightarrow> 'a res" where
  "ok_or_panic msg r = (case r of Inl _ \<Rightarrow> Inl (Explicit msg) | Inr x \<Rightarrow> Inr x)"

definition build_backend :: "'s env \<Rightarrow> backend_kind \<Rightarrow> backend res" where
  "build_backend E kind = (case kind of
     K_Mmap \<Rightarrow> Inr Mmap
   | K_Shm \<Rightarrow> Inr Shm
   | K_Dax \<Rightarrow> andthen (dax_new (en_kernel E) (device_paths E)) (\<lambda>r.
       andthen (ok_or_panic ''Failed to open DAX devices'' r) (\<lambda>d. Inr (Dax d)))
   | K_DaxMmap \<Rightarrow> andthen (daxmmap_new (en_kernel E) (device_paths E)) (ok_or_panic ''Failed to open DAX devices for dax-mmap interleaving'')
   | K_Ivshmem \<Rightarrow> (case k_open (en_kernel E) ''/dev/cxl_ivpci0'' of
       Some _ \<Rightarrow> Inl (Explicit ''Failed to open ivshmem device'') | None \<Rightarrow> Inr Ivshmem))"

definition numa_of :: "int \<Rightarrow> numa option" where
  "numa_of heap_numa = (if 0 < heap_numa then Some (Bind (nat heap_numa)) else None)"

text \<open>The heap of the process is created by the first call only.\<close>

definition init_raw :: "'s env \<Rightarrow> string \<Rightarrow> int \<Rightarrow> backend_kind \<Rightarrow> nat \<Rightarrow> 's process \<Rightarrow> 's process res" where
  "init_raw E name heap_numa kind heap_size s = (case ps_raw s of
     Some _ \<Rightarrow> Inr s
   | None \<Rightarrow>
       andthen (build_backend E kind) (\<lambda>b.
       andthen (raw_new (en_cfg E) (en_kernel E) \<lparr>pc_numa = numa_of heap_numa, pc_populate = None\<rparr> (en_sizes E) name heap_size 0 False
         ((ps_host s)\<lparr>hs_backend := b\<rparr>)) (\<lambda>(r, h).
       andthen (ok_or_panic ''Failed to initialize allocator for process'' r) (\<lambda>raw.
       Inr (s\<lparr>ps_raw := Some raw, ps_handler := True, ps_host := h\<rparr>)))))"

definition cxlalloc_init_process ::
  "'s env \<Rightarrow> nat \<Rightarrow> string \<Rightarrow> int \<Rightarrow> string \<Rightarrow> nat \<Rightarrow> nat \<Rightarrow> 's process \<Rightarrow> 's process res" where
  "cxlalloc_init_process E tid heap_id heap_numa heap_backend heap_size thread_id s =
     (case to_str heap_id of
        None \<Rightarrow> Inl (Explicit ''Heap ID must be valid UTF-8'')
      | Some heap_id \<Rightarrow>
          (case Option.bind (to_str heap_backend) backend_kind_of of
             None \<Rightarrow> Inl (Explicit ''Heap backend one of [mmap, shm, dax, dax-mmap, ivshmem]'')
           | Some kind \<Rightarrow>
               andthen (init_raw E (trim_start_matches ''/dev/shm/'' heap_id) heap_numa kind heap_size s) (\<lambda>s1.
               andthen (cxlalloc_init_thread tid thread_id s1) (\<lambda>s2.
               andthen (with_local (static_create E tid) tid (\<lambda>_ s3. Inr ((), s3)) s2) (\<lambda>(_, s3). Inr s3)))))"

text \<open>A fault the heap does not explain restores the default action, so that the access is repeated and ends the process.\<close>

definition handle_fault :: "'s env \<Rightarrow> nat \<Rightarrow> nat \<Rightarrow> raw \<Rightarrow> 's process \<Rightarrow> 's process res" where
  "handle_fault E t p r s =
     andthen (raw_map (en_iv E) (en_cfg E) (en_kernel E) (en_map E) (en_sizes E) t p (r, ps_heap s, ps_host s)) (\<lambda>(handled, r1, a, h).
     Inr (s\<lparr>ps_raw := Some r1, ps_heap := a, ps_host := h, ps_handler := handled \<and> ps_handler s\<rparr>))"

definition static_handle_sigsegv :: "'s env \<Rightarrow> nat \<Rightarrow> nat \<Rightarrow> 's process \<Rightarrow> 's process res" where
  "static_handle_sigsegv E tid p s = andthen (process_raw s) (\<lambda>r. handle_fault E (ps_thread s tid) p r s)"

subsection \<open>The Rust interface\<close>

text \<open>Here a thread keeps the number it was given, and the identity is made from it on every use.\<close>

definition global_create :: "'s env \<Rightarrow> nat \<Rightarrow> 's process \<Rightarrow> (nat \<times> 's process) res" where
  "global_create E tid s =
     andthen (unwrap (ps_raw s)) (\<lambda>_.
     andthen (thread_new (ps_thread s tid)) (\<lambda>t.
     andthen (raw_allocator (en_iv E) (en_cfg E) t (ps_heap s)) (\<lambda>a. Inr (t, s\<lparr>ps_heap := a\<rparr>))))"

definition global_with :: "'s env \<Rightarrow> nat \<Rightarrow> (layout \<Rightarrow> nat \<Rightarrow> 's allocator \<Rightarrow> ('x \<times> 's allocator) res) \<Rightarrow> 's process \<Rightarrow> ('x \<times> 's process) res" where
  "global_with E tid f = with_local (global_create E tid) tid (on_allocator f)"

definition initialize_process ::
  "'s env \<Rightarrow> policy \<Rightarrow> backend \<Rightarrow> nat \<Rightarrow> nat \<Rightarrow> bool \<Rightarrow> string \<Rightarrow> 's process \<Rightarrow> 's process res" where
  "initialize_process E pc b n_small n_large free name s =
     andthen (case ps_raw s of
         Some _ \<Rightarrow> Inr s
       | None \<Rightarrow>
           andthen (raw_new (en_cfg E) (en_kernel E) pc (en_sizes E) name n_small n_large free ((ps_host s)\<lparr>hs_backend := b\<rparr>)) (\<lambda>(r, h).
           andthen (ok_or_panic ''called Result::unwrap() on an Err value'' r) (\<lambda>raw. Inr (s\<lparr>ps_raw := Some raw, ps_host := h\<rparr>)))) (\<lambda>s1.
     Inr (s1\<lparr>ps_handler := True\<rparr>))"

definition initialize_thread :: "'s env \<Rightarrow> nat \<Rightarrow> nat \<Rightarrow> 's process \<Rightarrow> 's process res" where
  "initialize_thread E tid n s =
     andthen (with_local (global_create E tid) tid (\<lambda>_ s1. Inr ((), s1)) (s\<lparr>ps_thread := (ps_thread s)(tid := n)\<rparr>)) (\<lambda>(_, s1). Inr s1)"

definition global_allocate_untyped :: "'s env \<Rightarrow> nat \<Rightarrow> nat \<Rightarrow> 's process \<Rightarrow> (nat option \<times> 's process) res" where
  "global_allocate_untyped E tid n = global_with E tid (\<lambda>ly t. allocate_untyped (en_iv E) (en_cfg E) (en_map E) ly t n)"

definition deallocate_untyped :: "'s env \<Rightarrow> nat \<Rightarrow> nat \<Rightarrow> 's process \<Rightarrow> 's process res" where
  "deallocate_untyped E tid p s =
     (if p = 0 then Inr s
      else andthen (global_with E tid (\<lambda>ly t a. andthen (free_untyped (en_cfg E) ly t p a) (\<lambda>a1. Inr ((), a1))) s) (\<lambda>(_, s1). Inr s1))"

definition global_pointer_to_offset :: "'s env \<Rightarrow> nat \<Rightarrow> nat \<Rightarrow> 's process \<Rightarrow> (nat \<times> 's process) res" where
  "global_pointer_to_offset E tid p = global_with E tid (\<lambda>ly t a. andthen (allocator_pointer_to_offset (en_cfg E) ly p) (\<lambda>off. Inr (off, a)))"

definition global_offset_to_pointer :: "'s env \<Rightarrow> nat \<Rightarrow> nat \<Rightarrow> 's process \<Rightarrow> (nat \<times> 's process) res" where
  "global_offset_to_pointer E tid off = global_with E tid (\<lambda>ly t a. Inr (allocator_offset_to_pointer ly off, a))"

definition global_is_clean :: "'s process \<Rightarrow> bool res" where
  "global_is_clean s = andthen (unwrap (ps_raw s)) (\<lambda>r. Inr (raw_is_clean r))"

definition global_set_root_untyped :: "'s env \<Rightarrow> nat \<Rightarrow> nat \<Rightarrow> nat \<Rightarrow> 's process \<Rightarrow> 's process res" where
  "global_set_root_untyped E tid i p s =
     andthen (global_with E tid (\<lambda>ly t a. andthen (set_root_untyped ly i p a) (\<lambda>a1. Inr ((), a1))) s) (\<lambda>(_, s1). Inr s1)"

definition global_root_untyped :: "'s env \<Rightarrow> nat \<Rightarrow> nat \<Rightarrow> 's process \<Rightarrow> (nat option \<times> 's process) res" where
  "global_root_untyped E tid i = global_with E tid (\<lambda>ly t a. andthen (root_untyped ly i a) (\<lambda>p. Inr (p, a)))"

definition report_process :: "'s process \<Rightarrow> report list res" where
  "report_process s = andthen (unwrap (ps_raw s)) (\<lambda>r. Inr (filter (\<lambda>e. 0 < rp_count e) (process_report (rw_stat r))))"

definition global_handle_sigsegv :: "'s env \<Rightarrow> nat \<Rightarrow> nat \<Rightarrow> 's process \<Rightarrow> 's process res" where
  "global_handle_sigsegv E tid p s =
     andthen (unwrap (ps_raw s)) (\<lambda>r. andthen (thread_new (ps_thread s tid)) (\<lambda>t. handle_fault E t p r s))"

end
