(* ===== verification/Process_Spec.thy ===== *)
theory Process_Spec
  imports Process Region_Spec Allocator_Spec
begin

text \<open>
  The interface of a process keeps the promises of the allocator: the blocks C code holds never share a
  byte, aligned requests are aligned as far as the regions are, offsets name the same block in every
  process that maps the heap, and the heap of a process is created once.
\<close>

subsection \<open>Calls of a thread that has its allocator\<close>

lemma static_with_live:
  assumes "ps_local s tid = Live t" "ps_raw s = Some r"
  shows "static_with E tid f s = andthen (f (raw_layout r) t (ps_heap s)) (\<lambda>(x, a). Inr (x, s\<lparr>ps_heap := a\<rparr>))"
  using assms by (simp add: static_with_def with_local_def on_allocator_def)

lemma malloc_live:
  assumes "ps_local s tid = Live t" "ps_raw s = Some r"
  shows "cxlalloc_malloc E tid n s = andthen (allocate_untyped (en_iv E) (en_cfg E) (en_map E) (raw_layout r) t n (ps_heap s))
    (\<lambda>(p, a). Inr (null_or p, s\<lparr>ps_heap := a\<rparr>))"
  by (simp add: cxlalloc_malloc_def static_with_live [OF assms] andthen_assoc split_def)

lemma free_live:
  assumes "ps_local s tid = Live t" "ps_raw s = Some r" "p \<noteq> 0"
  shows "cxlalloc_free E tid p s = andthen (free_untyped (en_cfg E) (raw_layout r) t p (ps_heap s)) (\<lambda>a. Inr (s\<lparr>ps_heap := a\<rparr>))"
  using assms by (simp add: cxlalloc_free_def static_with_live [OF assms(1,2)] andthen_assoc split_def)

lemma realloc_live:
  assumes "ps_local s tid = Live t" "ps_raw s = Some r" "p \<noteq> 0"
  shows "cxlalloc_realloc E tid p n s = andthen (realloc_untyped (en_iv E) (en_cfg E) (en_map E) (raw_layout r) t p n (ps_heap s))
    (\<lambda>(q, a). Inr (q, s\<lparr>ps_heap := a\<rparr>))"
  using assms by (simp add: cxlalloc_realloc_def static_with_live [OF assms(1,2)])

subsection \<open>Runs of C code\<close>

text \<open>
  The runs of the threads of a process that have their allocators, on a heap of zeroed memory, with the blocks
  they hold. Threads also write memory.
\<close>

inductive creach :: "'s env \<Rightarrow> layout \<Rightarrow> 's process \<Rightarrow> (nat \<times> nat) set \<Rightarrow> bool" for E ly where
  start: "ps_raw s = Some r \<Longrightarrow> raw_layout r = ly \<Longrightarrow> ps_heap s = allocator_init (en_iv E) \<Longrightarrow> creach E ly s {}"
| malloc: "creach E ly s L \<Longrightarrow> ps_local s tid = Live t \<Longrightarrow> thread_ok t \<Longrightarrow> 0 < n \<Longrightarrow> n \<le> reservation_size \<Longrightarrow>
    has_room t (a_huge (ps_heap s)) \<Longrightarrow> cxlalloc_malloc E tid n s = Inr (p, s') \<Longrightarrow> p \<noteq> 0 \<Longrightarrow> creach E ly s' (insert (p, granted_size n) L)"
| free: "creach E ly s L \<Longrightarrow> ps_local s tid = Live t \<Longrightarrow> thread_ok t \<Longrightarrow> in_regions (ps_heap s) \<Longrightarrow> (p, n) \<in> L \<Longrightarrow>
    cxlalloc_free E tid p s = Inr s' \<Longrightarrow> creach E ly s' (L - {(p, n)})"
| realloc: "creach E ly s L \<Longrightarrow> ps_local s tid = Live t \<Longrightarrow> thread_ok t \<Longrightarrow> roomy (en_cfg E) (ps_heap s) \<Longrightarrow> (p, old) \<in> L \<Longrightarrow>
    n \<le> reservation_size \<Longrightarrow> has_room t (a_huge (ps_heap s)) \<Longrightarrow> cxlalloc_realloc E tid p n s = Inr (q, s') \<Longrightarrow>
    creach E ly s' (if n \<le> old then L else insert (q, granted_size n) L - {(p, old)})"
| store: "creach E ly s L \<Longrightarrow> creach E ly (s\<lparr>ps_heap := (ps_heap s)\<lparr>a_mem := m\<rparr>\<rparr>) L"

lemma realloc_areach:
  assumes "areach IV cfg ly a L" "interval_laws IV" "config_ok cfg" "layout_ok ly" "(p, old) \<in> L"
    and "thread_ok t" "n \<le> reservation_size" "has_room t (a_huge a)" "roomy cfg a"
    and "realloc_untyped IV cfg (\<lambda>_ _. True) ly t p n a = Inr (q, a')"
  shows "areach IV cfg ly a' (if n \<le> old then L else insert (q, granted_size n) L - {(p, old)})"
proof -
  obtain Ls Ll dl k where "parts IV cfg a Ls Ll dl k" "L = held_by_clients ly a Ls Ll dl" using areach_parts [OF assms(1-4)] .
  then have cl: "class_untyped cfg ly p a = Inr old" using class_untyped_held [OF _ assms(4) roomy_now [OF assms(9)]] assms(5) by blast
  show ?thesis
  proof (cases "n \<le> old")
    case False
    then have n: "0 < n" by simp
    obtain q1 a1 where q1: "allocate_untyped IV cfg (\<lambda>_ _. True) ly t n a = Inr (Some q1, a1)" "slab_growth cfg a a1" "areach IV cfg ly a1 (insert (q1, granted_size n) L)"
      using areach_allocate [OF assms(1-4,6) n assms(7-9)] assms(10) cl False by (auto simp: realloc_untyped_def)
    define a2 where "a2 = a1\<lparr>a_mem := (\<lambda>x. if q1 \<le> x \<and> x < q1 + old then a_mem a1 (p + (x - q1)) else a_mem a1 x)\<rparr>"
    have f: "q = q1" "free_untyped cfg ly t p a2 = Inr a'"
      using assms(10) cl False q1(1) by (auto simp: realloc_untyped_def a2_def andthen_Inr_conv)
    have "in_regions a2" using roomy_growth [OF assms(9) q1(2)] by (simp add: a2_def)
    then have "areach IV cfg ly a' (insert (q1, granted_size n) L - {(p, old)})"
      using areach.free [OF areach.store [OF q1(3)], folded a2_def] assms(5,6) f(2) by (simp add: a2_def)
    then show ?thesis using False f(1) by simp
  qed (use assms(1,10) cl in \<open>auto simp: realloc_untyped_def\<close>)
qed

lemma areach_nonnull:
  assumes "areach IV cfg ly a L" "interval_laws IV" "config_ok cfg" "layout_ok ly" "in_regions a" "(p, n) \<in> L"
  shows "p \<noteq> 0"
  using areach_apart [OF assms(2-4,1,5)] assms(4,6) by (auto simp: layout_ok_def small_bracket_def size_values)

text \<open>The C interface refines the allocator: each of its runs is one of the heap.\<close>

lemma creach_areach:
  assumes "creach E ly s L" "interval_laws (en_iv E)" "config_ok (en_cfg E)" "layout_ok ly" "en_map E = (\<lambda>_ _. True)"
  shows "areach (en_iv E) (en_cfg E) ly (ps_heap s) L \<and> (\<exists>r. ps_raw s = Some r \<and> raw_layout r = ly)"
  using assms(1)
proof induction
  case (start s r)
  then show ?case using areach.init [of "en_iv E" "en_cfg E" ly] by simp
next
  case (malloc s L tid t n p s')
  then obtain r where r: "ps_raw s = Some r" "raw_layout r = ly" by blast
  with malloc.hyps(7,8) obtain a' where "allocate_untyped (en_iv E) (en_cfg E) (\<lambda>_ _. True) ly t n (ps_heap s) = Inr (Some p, a')" "s' = s\<lparr>ps_heap := a'\<rparr>"
    by (auto simp: malloc_live [OF malloc.hyps(2)] assms(5) null_or_def andthen_Inr_conv split: option.splits)
  then show ?case using areach.alloc [OF conjunct1 [OF malloc.IH] malloc.hyps(3-6)] r by simp
next
  case (free s L tid t p n s')
  then obtain r where r: "ps_raw s = Some r" "raw_layout r = ly" by blast
  have "p \<noteq> 0" using areach_nonnull [OF conjunct1 [OF free.IH] assms(2-4) free.hyps(4,5)] .
  then obtain a' where "free_untyped (en_cfg E) ly t p (ps_heap s) = Inr a'" "s' = s\<lparr>ps_heap := a'\<rparr>"
    using free.hyps(6) r by (auto simp: free_live [OF free.hyps(2)] andthen_Inr_conv)
  then show ?case using areach.free [OF conjunct1 [OF free.IH] free.hyps(4,3,5)] r by simp
next
  case (realloc s L tid t p old n q s')
  then obtain r where r: "ps_raw s = Some r" "raw_layout r = ly" by blast
  have "p \<noteq> 0" using areach_nonnull [OF conjunct1 [OF realloc.IH] assms(2-4) roomy_now [OF realloc.hyps(4)] realloc.hyps(5)] .
  then obtain a' where "realloc_untyped (en_iv E) (en_cfg E) (\<lambda>_ _. True) ly t p n (ps_heap s) = Inr (q, a')" "s' = s\<lparr>ps_heap := a'\<rparr>"
    using realloc.hyps(8) r by (auto simp: realloc_live [OF realloc.hyps(2)] assms(5) andthen_Inr_conv)
  then show ?case using realloc_areach [OF conjunct1 [OF realloc.IH] assms(2-4) realloc.hyps(5,3,6,7,4)] r by simp
next
  case (store s L m)
  then show ?case using areach.store by fastforce
qed

subsection \<open>Alignment\<close>

lemma pool_offset:
  assumes "pool cfg B h L" "(off, m) \<in> L"
  shows "\<exists>i k. off = i * SIZE_SLAB B + k * m"
  using assms by (auto simp: pool_def blocks_of_def block_offset_def)

lemma block_alignment:
  fixes al :: nat
  assumes "base + sz = region" "off = i * sz + j * m" "al dvd sz" "al dvd m"
  shows "al dvd base + off \<longleftrightarrow> al dvd region"
proof -
  have "al dvd i * sz + j * m" using assms(3,4) by simp
  then have "al dvd base + off \<longleftrightarrow> al dvd base" using assms(2) by (simp add: dvd_add_left_iff)
  also have "\<dots> \<longleftrightarrow> al dvd base + sz" using assms(3) by (simp add: dvd_add_left_iff)
  finally show ?thesis using assms(1) by simp
qed

lemma pow2_dvd: "2 ^ k \<le> n \<Longrightarrow> n \<le> (2::nat) ^ j \<Longrightarrow> 2 ^ k dvd (2::nat) ^ j"
  by (metis le_imp_power_dvd le_trans one_less_numeral_iff power_le_imp_le_exp semiring_norm(76))

text \<open>The class of a request that is a multiple of a power of two is one as well, and no larger power divides it than the slab size.\<close>

lemma granted_aligned:
  assumes "2 ^ k dvd n" "0 < n" "n \<le> 524288"
  shows "2 ^ k dvd granted_size n" "n \<le> 1016 \<Longrightarrow> 2 ^ k dvd SIZE_SLAB small_bracket" "2 ^ k dvd SIZE_SLAB large_bracket"
proof -
  have le: "2 ^ k \<le> n" using assms(1,2) by (rule dvd_imp_le)
  show "2 ^ k dvd SIZE_SLAB large_bracket" using pow2_dvd [OF le, of 19] assms(3) by (simp add: large_bracket_def size_values)
  show "2 ^ k dvd SIZE_SLAB small_bracket" if "n \<le> 1016" using pow2_dvd [OF le, of 15] that by (simp add: small_bracket_def size_values)
  show "2 ^ k dvd granted_size n"
  proof (cases "n \<le> 1016")
    case True
    show ?thesis
    proof (cases "k \<le> 3")
      case False
      then have "2 ^ 3 dvd n" using assms(1) le_imp_power_dvd [of 3 k "2::nat"] dvd_trans by fastforce
      then obtain q where q: "n = 8 * q" by auto
      then show ?thesis using True assms(1) by (simp add: granted_size_def next_multiple_of_def mult.commute)
    next
      case small: True
      then have "2 ^ k dvd (8::nat)" using le_imp_power_dvd [of k 3 "2::nat"] by simp
      then show ?thesis using True dvd_trans [OF _ next_multiple_of_dvd [of 8 n]] by (simp add: granted_size_def)
    qed
  next
    case False
    obtain j where j: "next_power_of_two n = 2 ^ j" "n \<le> 2 ^ j" using next_power_of_two_spec [of n] by blast
    then show ?thesis using pow2_dvd [OF le j(2)] False assms(3) by (simp add: granted_size_def)
  qed
qed

lemma granted_holds: "n \<le> granted_size n"
  using next_power_of_two_spec [of n] by (auto simp: granted_size_def next_multiple_of_ge SIZE_PAGE_def)

lemma next_power_of_two_pow2: "next_power_of_two (2 ^ k) = 2 ^ k"
proof -
  obtain j where j: "next_power_of_two (2 ^ k) = 2 ^ j" "2 ^ k \<le> (2::nat) ^ j" "1 < (2::nat) ^ k \<longrightarrow> 0 < j \<and> 2 ^ (j - 1) < (2::nat) ^ k"
    using next_power_of_two_spec by blast
  have "k \<le> j" using j(2) by simp
  moreover have "j \<le> k"
  proof (cases k)
    case 0
    then show ?thesis using j(1) by (cases j) (simp_all add: next_power_of_two.simps)
  next
    case (Suc i)
    then have "0 < j" "2 ^ (j - 1) < (2::nat) ^ k" using j(3) one_less_power [of "2::nat" k] by auto
    then have "j - 1 < k" by (simp add: power_less_imp_less_exp)
    then show ?thesis by simp
  qed
  ultimately show ?thesis using j(1) by simp
qed

lemma allocate_slab:
  assumes "areach IV cfg ly a L" "interval_laws IV" "config_ok cfg" "layout_ok ly" "roomy cfg a"
    and "2 ^ k dvd n" "0 < n" "n \<le> 524288" and "thread_ok t" "has_room t (a_huge a)"
  shows "\<exists>p a'. allocate_untyped IV cfg (\<lambda>_ _. True) ly t n a = Inr (Some p, a') \<and> slab_growth cfg a a' \<and> a_huge a' = a_huge a \<and>
    areach IV cfg ly a' (insert (p, granted_size n) L) \<and> (\<forall>x\<in>L. bytes (p, granted_size n) \<inter> bytes x = {}) \<and>
    (2 ^ k dvd p \<longleftrightarrow> 2 ^ k dvd (if n \<le> 1016 then ly_small ly else ly_large ly))"
proof -
  obtain Ls Ll dl j where p: "parts IV cfg a Ls Ll dl j" using areach_parts [OF assms(1-4)] .
  note g = granted_aligned [OF assms(6-8)] and base = base_of_region [OF assms(4)]
  have "\<exists>p a'. allocate_untyped IV cfg (\<lambda>_ _. True) ly t n a = Inr (Some p, a') \<and> slab_growth cfg a a' \<and> a_huge a' = a_huge a \<and>
    (2 ^ k dvd p \<longleftrightarrow> 2 ^ k dvd (if n \<le> 1016 then ly_small ly else ly_large ly))"
  proof (cases "n \<le> 1016")
    case True
    then obtain off a' where a': "allocate_untyped IV cfg (\<lambda>_ _. True) ly t n a = Inr (Some (base_of small_bracket (ly_small ly) + off), a')"
      "parts IV cfg a' (insert (off, granted_size n) Ls) Ll dl j" "a_huge a' = a_huge a" "slab_growth cfg a a'"
      using allocate_small_step [OF p assms(3,7) True, of "\<lambda>_ _. True" ly t] roomy_indices(1) [OF assms(5)] by (auto simp: granted_size_def)
    obtain i b where "off = i * SIZE_SLAB small_bracket + b * granted_size n" using pool_offset [OF partsD(1) [OF a'(2)], of off "granted_size n"] by auto
    from block_alignment [OF base(1) this g(2) [OF True] g(1)] show ?thesis using a' True by auto
  next
    case False
    then have n: "1016 < n" by simp
    then obtain off a' where a': "allocate_untyped IV cfg (\<lambda>_ _. True) ly t n a = Inr (Some (base_of large_bracket (ly_large ly) + off), a')"
      "parts IV cfg a' Ls (insert (off, granted_size n) Ll) dl j" "a_huge a' = a_huge a" "slab_growth cfg a a'"
      using allocate_large_step [OF p assms(3) n assms(8), of "\<lambda>_ _. True" ly t] roomy_indices(2) [OF assms(5)] assms(8) by (auto simp: granted_size_def)
    obtain i b where "off = i * SIZE_SLAB large_bracket + b * granted_size n" using pool_offset [OF partsD(3) [OF a'(2)], of off "granted_size n"] by auto
    from block_alignment [OF base(2) this g(3,1)] show ?thesis using a' False by auto
  qed
  moreover have "n \<le> reservation_size" using assms(8) by (simp add: reservation_size_def)
  ultimately show ?thesis using areach_allocate [OF assms(1-4,9,7) _ assms(10,5)] by fastforce
qed

lemma malloc_slab:
  assumes "interval_laws (en_iv E)" "config_ok (en_cfg E)" "layout_ok ly" "en_map E = (\<lambda>_ _. True)" and "creach E ly s L"
    and "ps_local s tid = Live t" "thread_ok t" "roomy (en_cfg E) (ps_heap s)" "has_room t (a_huge (ps_heap s))" "2 ^ k dvd n" "0 < n" "n \<le> 524288"
  shows "\<exists>p a. cxlalloc_malloc E tid n s = Inr (p, s\<lparr>ps_heap := a\<rparr>) \<and> creach E ly (s\<lparr>ps_heap := a\<rparr>) (insert (p, granted_size n) L) \<and>
    slab_growth (en_cfg E) (ps_heap s) a \<and> a_huge a = a_huge (ps_heap s) \<and> (\<forall>x\<in>L. bytes (p, granted_size n) \<inter> bytes x = {}) \<and>
    (2 ^ k dvd p \<longleftrightarrow> 2 ^ k dvd (if n \<le> 1016 then ly_small ly else ly_large ly))"
proof -
  obtain r where a: "areach (en_iv E) (en_cfg E) ly (ps_heap s) L" and r: "ps_raw s = Some r" "raw_layout r = ly" using creach_areach [OF assms(5,1-4)] by blast
  obtain p a' where p: "allocate_untyped (en_iv E) (en_cfg E) (\<lambda>_ _. True) ly t n (ps_heap s) = Inr (Some p, a')" "slab_growth (en_cfg E) (ps_heap s) a'"
    "a_huge a' = a_huge (ps_heap s)" "areach (en_iv E) (en_cfg E) ly a' (insert (p, granted_size n) L)" "\<forall>x\<in>L. bytes (p, granted_size n) \<inter> bytes x = {}"
    "2 ^ k dvd p \<longleftrightarrow> 2 ^ k dvd (if n \<le> 1016 then ly_small ly else ly_large ly)"
    using allocate_slab [OF a assms(1-3,8,10-12,7,9)] by blast
  have c: "cxlalloc_malloc E tid n s = Inr (p, s\<lparr>ps_heap := a'\<rparr>)" using p(1) r assms(4) by (simp add: malloc_live [OF assms(6)] null_or_def)
  have nz: "p \<noteq> 0" using areach_nonnull [OF p(4) assms(1-3) roomy_growth [OF assms(8) p(2)]] by blast
  have "n \<le> reservation_size" using assms(12) by (simp add: reservation_size_def)
  from creach.malloc [OF assms(5-7,11) this assms(9) c nz] show ?thesis using c p(2,3,5,6) by blast
qed

subsection \<open>A process with two threads\<close>

definition demo_raw :: "layout \<Rightarrow> raw" where
  "demo_raw ly = \<lparr>rw_policy = demo_policy,
     rw_shared = \<lparr>fx_id = sq_id demo_local, fx_create = True, fx_address = 4096, fx_size = 4096\<rparr>,
     rw_owned = \<lparr>fx_id = sq_id demo_local, fx_create = True, fx_address = 8192, fx_size = 4096\<rparr>,
     rw_local_small = demo_local, rw_local_large = demo_local, rw_remote_small = demo_remote, rw_remote_large = demo_remote,
     rw_data_small = demo_region ''h-ds'' (ly_small ly) 1048576, rw_data_large = demo_region ''h-dl'' (ly_large ly) 1048576,
     rw_data_huge = \<lparr>rd_id = sq_id demo_local, rd_start = ly_huge ly\<rparr>,
     rw_stat = \<lparr>fault_small = 0, fault_large = 0, fault_huge = 0\<rparr>, rw_free = False\<rparr>"

lemma demo_raw_layout [simp]: "raw_layout (demo_raw ly) = ly"
  by (simp add: raw_layout_def demo_raw_def demo_region_def)

definition demo_env :: "(nat \<times> nat) list env" where
  "demo_env = \<lparr>en_iv = interval_lists, en_cfg = cfg_plain, en_kernel = kernel_sim, en_map = (\<lambda>_ _. True), en_sizes = demo_sizes, en_devices = None\<rparr>"

definition demo_process :: "(nat \<times> nat) list process" where
  "demo_process = \<lparr>ps_raw = Some (demo_raw (layout_at 32768)), ps_thread = (\<lambda>_. 1), ps_local = (\<lambda>tid. Live (if tid = 0 then 1 else 2)),
     ps_handler = True, ps_heap = init_lists, ps_host = host_init Shm\<rparr>"

lemma demo_env_ok [simp]: "en_iv demo_env = interval_lists" "en_cfg demo_env = cfg_plain" "en_map demo_env = (\<lambda>_ _. True)"
  by (simp_all add: demo_env_def)

lemma layout_at_sel [simp]: "ly_small (layout_at b) = b" "ly_large (layout_at b) = b + reservation_size" "ly_huge (layout_at b) = b + 2 * reservation_size"
  by (simp_all add: layout_at_def)

lemma demo_start: "creach demo_env (layout_at 32768) demo_process {}"
  by (rule creach.start [of _ "demo_raw (layout_at 32768)"]) (simp_all add: demo_process_def)

text \<open>The first thread allocates 100 bytes, the second 2000.\<close>

lemma demo_first:
  obtains p s where "creach demo_env (layout_at 32768) s {(p, 104)}" "ps_local s = ps_local demo_process" "a_huge (ps_heap s) = a_huge init_lists"
    "frontier (view (a_small (ps_heap s))) \<le> 2" "frontier (view (a_large (ps_heap s))) \<le> 2"
proof -
  have d: "ps_local demo_process 0 = Live 1" "ps_heap demo_process = init_lists" by (simp_all add: demo_process_def)
  have room: "roomy cfg_plain init_lists" using init_run by (intro roomy_small) simp_all
  obtain p a where "creach demo_env (layout_at 32768) (demo_process\<lparr>ps_heap := a\<rparr>) (insert (p, granted_size 100) {})"
    "slab_growth cfg_plain init_lists a" "a_huge a = a_huge init_lists"
    using malloc_slab [OF _ _ _ _ demo_start d(1), of 0 100] ivl.interval_laws_axioms room init_run(1) by (auto simp: d(2))
  then show thesis using that [of "demo_process\<lparr>ps_heap := a\<rparr>" p] init_run by (simp add: granted_sizes slab_growth_def)
qed

lemma demo_room: "a_huge a = a_huge init_lists \<Longrightarrow> has_room t (a_huge a)"
  using init_run(1) by simp

lemma demo_second:
  obtains p q s where "creach demo_env (layout_at 32768) s {(p, 104), (q, 2048)}" "in_regions (ps_heap s)"
proof -
  obtain p s where s: "creach demo_env (layout_at 32768) s {(p, 104)}" "ps_local s = ps_local demo_process" "a_huge (ps_heap s) = a_huge init_lists"
    "frontier (view (a_small (ps_heap s))) \<le> 2" "frontier (view (a_large (ps_heap s))) \<le> 2" by (rule demo_first)
  have l: "ps_local s 1 = Live 2" using s(2) by (simp add: demo_process_def)
  have room: "roomy cfg_plain (ps_heap s)" using s(4,5) by (intro roomy_small) simp_all
  obtain q a where q: "creach demo_env (layout_at 32768) (s\<lparr>ps_heap := a\<rparr>) (insert (q, granted_size 2000) {(p, 104)})" "slab_growth cfg_plain (ps_heap s) a"
    using malloc_slab [OF _ _ _ _ s(1) l, of 0 2000] ivl.interval_laws_axioms room demo_room [OF s(3)] by auto
  have "granted_size 2000 = 2048" by (simp add: granted_size_def next_power_of_two.simps)
  then show thesis using that [of "s\<lparr>ps_heap := a\<rparr>" p q] q(1) roomy_growth [OF room q(2)] by (simp add: insert_commute)
qed

subsection \<open>Properties\<close>

text \<open>
  C4: the blocks that C code holds after any sequence of calls of malloc, free and realloc by the threads of a process
  (a call of memalign is one of malloc with the padded size) share no byte, are not empty and not null, and lie in the three regions of its heap, as
  long as the slab heaps have not outgrown their regions.
\<close>

theorem c_blocks_never_overlap:
  assumes "interval_laws (en_iv E)" "config_ok (en_cfg E)" "layout_ok ly" "en_map E = (\<lambda>_ _. True)" and "creach E ly s L" "in_regions (ps_heap s)"
  shows "pairwise (\<lambda>x y. bytes x \<inter> bytes y = {}) L \<and>
    (\<forall>(p, n)\<in>L. 0 < n \<and> p \<noteq> 0 \<and> ly_small ly \<le> p \<and> p + n \<le> ly_huge ly + reservation_size)"
proof -
  have a: "areach (en_iv E) (en_cfg E) ly (ps_heap s) L" using creach_areach [OF assms(5,1-4)] by blast
  have "p \<noteq> 0" if "(p, n) \<in> L" for p n using areach_nonnull [OF a assms(1-3,6) that] .
  then show ?thesis using areach_apart [OF assms(1-3) a assms(6)] by blast
qed

theorem c_blocks_never_overlap_witness:
  "\<exists>p q s. creach demo_env (layout_at 32768) s {(p, 104), (q, 2048)} \<and> bytes (p, 104) \<inter> bytes (q, 2048) = {} \<and> 32768 \<le> p"
proof -
  obtain p q s where s: "creach demo_env (layout_at 32768) s {(p, 104), (q, 2048)}" "in_regions (ps_heap s)" by (rule demo_second)
  from c_blocks_never_overlap [OF _ _ _ _ s] show ?thesis using s(1) ivl.interval_laws_axioms by (auto simp: pairwise_def)
qed

text \<open>
  C12: an aligned request whose padded size is at most 512 KiB returns a new block that holds it. Its position in its
  region is a multiple of the alignment, so the block is aligned exactly when the start of the
  region is: always up to the page size, and beyond only by luck.
\<close>

theorem memalign_aligned:
  fixes n k :: nat
  assumes "interval_laws (en_iv E)" "config_ok (en_cfg E)" "layout_ok ly" "en_map E = (\<lambda>_ _. True)" and "creach E ly s L"
    and "ps_local s tid = Live t" "thread_ok t" "roomy (en_cfg E) (ps_heap s)" "has_room t (a_huge (ps_heap s))"
    and "0 < n" "next_multiple_of n (2 ^ k) \<le> 524288"
  defines "m \<equiv> next_multiple_of n (2 ^ k)"
  shows "\<exists>p s'. cxlalloc_memalign E tid n (2 ^ k) s = Inr (p, s') \<and> creach E ly s' (insert (p, granted_size m) L) \<and> n \<le> granted_size m \<and>
    (\<forall>x\<in>L. bytes (p, granted_size m) \<inter> bytes x = {}) \<and> (2 ^ k dvd p \<longleftrightarrow> 2 ^ k dvd (if m \<le> 1016 then ly_small ly else ly_large ly))"
proof -
  have m: "2 ^ k dvd m" "n \<le> m" "0 < m" "m \<le> 524288" using next_multiple_of_ge [of "2 ^ k" n] assms(10,11) by (simp_all add: m_def)
  then have k: "2 ^ k \<le> (524288::nat)" using dvd_imp_le [OF m(1,3)] by simp
  have "from_size_align n (2 ^ k) = Some (n, 2 ^ k)" using m(2,4) k by (simp add: from_size_align_def next_power_of_two_pow2)
  then have call: "cxlalloc_memalign E tid n (2 ^ k) s = cxlalloc_malloc E tid m s" by (simp add: cxlalloc_memalign_def pad_to_align_def m_def)
  obtain p a where p: "cxlalloc_malloc E tid m s = Inr (p, s\<lparr>ps_heap := a\<rparr>)" "creach E ly (s\<lparr>ps_heap := a\<rparr>) (insert (p, granted_size m) L)"
    "\<forall>x\<in>L. bytes (p, granted_size m) \<inter> bytes x = {}" "2 ^ k dvd p \<longleftrightarrow> 2 ^ k dvd (if m \<le> 1016 then ly_small ly else ly_large ly)"
    using malloc_slab [OF assms(1-9) m(1,3,4)] by blast
  have "n \<le> granted_size m" using m(2) granted_holds [of m] by simp
  then show ?thesis using p by (intro exI [of _ p] exI [of _ "s\<lparr>ps_heap := a\<rparr>"]) (simp add: call)
qed

theorem memalign_aligned_witness:
  "\<exists>s p q s'. creach demo_env (layout_at 32768) s {(p, 104)} \<and> cxlalloc_memalign demo_env 1 100 256 s = Inr (q, s') \<and>
    256 dvd q \<and> bytes (q, 256) \<inter> bytes (p, 104) = {}"
proof -
  obtain p s where s: "creach demo_env (layout_at 32768) s {(p, 104)}" "ps_local s = ps_local demo_process" "a_huge (ps_heap s) = a_huge init_lists"
    "frontier (view (a_small (ps_heap s))) \<le> 2" "frontier (view (a_large (ps_heap s))) \<le> 2" by (rule demo_first)
  have l: "ps_local s 1 = Live 2" using s(2) by (simp add: demo_process_def)
  have room: "roomy cfg_plain (ps_heap s)" using s(4,5) by (intro roomy_small) simp_all
  have m: "next_multiple_of 100 256 = 256" "granted_size 256 = 256" by (simp_all add: next_multiple_of_def granted_size_def)
  from memalign_aligned [OF _ _ _ _ s(1) l _ _ demo_room [OF s(3)], of 100 8] show ?thesis
    using s(1) room ivl.interval_laws_axioms by (simp add: m) blast
qed



text \<open>
  A pointer that is not null is never refused, although the documentation promises it for pointers that were not
  allocated in the heap. Any address from one slab below the heap upwards is given an offset; a lower one
  panics with overflow checks and wraps around without.
\<close>

theorem foreign_pointers_accepted:
  assumes "ps_local s tid = Live t" "ps_raw s = Some r" and "p \<noteq> 0" "p < 2 ^ 64" "ly_small (raw_layout r) < 2 ^ 64"
  defines "base \<equiv> base_of small_bracket (ly_small (raw_layout r))"
  shows "cxlalloc_pointer_to_offset E tid p s =
    (if base \<le> p then Inr ((True, Some (p - base)), s)
     else if overflow_checks (en_cfg E) then Inl Overflow else Inr ((True, Some (2 ^ 64 - (base - p))), s))"
proof -
  have "base < 2 ^ 64" using assms(5) by (simp add: base_def base_of_def)
  moreover have "cxlalloc_pointer_to_offset E tid p s = andthen (sub_w (en_cfg E) 64 p base) (\<lambda>off. Inr ((True, Some off), s))"
    using assms(3) by (simp add: cxlalloc_pointer_to_offset_def static_with_live [OF assms(1,2)] allocator_pointer_to_offset_def base_def andthen_assoc)
  ultimately show ?thesis using assms(4) by (auto simp: sub_w_def)
qed

theorem foreign_pointers_accepted_witness:
  "cxlalloc_pointer_to_offset demo_env 0 (2 ^ 60) demo_process = Inr ((True, Some (2 ^ 60)), demo_process) \<and>
    layout_at 32768 = raw_layout (demo_raw (layout_at 32768)) \<and> ly_huge (layout_at 32768) + reservation_size < 2 ^ 60"
proof -
  have l: "ps_local demo_process 0 = Live 1" "ps_raw demo_process = Some (demo_raw (layout_at 32768))" by (simp_all add: demo_process_def)
  from foreign_pointers_accepted [OF l, of "2 ^ 60" demo_env] show ?thesis by (simp add: base_of_def small_bracket_def size_values reservation_size_def)
qed

text \<open>
  A process creates its heap once. A later initialisation by a thread that has its allocator changes nothing but
  the number the thread will take for an allocator it creates: not the heap, not its regions, not the handler,
  whatever name, backend and size it asks for, and also not the identity of the allocator in use.
\<close>

theorem second_init_keeps_heap:
  assumes "ps_raw s = Some r" "ps_local s tid = Live t" and "to_str nm = Some nm'" "to_str bk = Some bk'" "backend_kind_of bk' = Some kind" "i < COUNT_THREAD"
  shows "cxlalloc_init_process E tid nm numa bk n i s = Inr (s\<lparr>ps_thread := (ps_thread s)(tid := i + 1)\<rparr>)"
  using assms by (simp add: cxlalloc_init_process_def init_raw_def cxlalloc_init_thread_def thread_new_def with_local_def)

theorem second_init_keeps_heap_witness:
  "cxlalloc_init_process demo_env 0 ''other'' 3 ''shm'' 4096 5 demo_process = Inr (demo_process\<lparr>ps_thread := (ps_thread demo_process)(0 := 6)\<rparr>)"
proof -
  have l: "ps_raw demo_process = Some (demo_raw (layout_at 32768))" "ps_local demo_process 0 = Live 1" by (simp_all add: demo_process_def)
  have "to_str ''other'' = Some ''other''" "to_str ''shm'' = Some ''shm''" "backend_kind_of ''shm'' = Some K_Shm" "5 < COUNT_THREAD"
    by (simp_all add: to_str_def backend_kind_of_def COUNT_THREAD_def)
  from second_init_keeps_heap [OF l this] show ?thesis by simp
qed

end
