(* ===== verification/Mcas.thy ===== *)
theory Mcas
  imports Region
begin

text \<open>
  The client of the near-memory compare-and-swap unit (\<open>cxlalloc/src/mcas.rs\<close>, and the constructors of
  \<open>raw/region.rs\<close> behind the feature \<open>cxl-mcas\<close>): the buffers it shares with the unit, requests, and the atomic
  operations built on them. The unit itself is hardware and a parameter.
\<close>

subsection \<open>Buffers\<close>

definition SIZE_READ :: nat where "SIZE_READ = 2 ^ 16"
definition SIZE_WRITE :: nat where "SIZE_WRITE = 2 ^ 16"
definition SIZE_TARGET :: nat where "SIZE_TARGET = 2 ^ 26"

definition RD_BUFF :: nat where "RD_BUFF = 13"
definition WR_BUFF :: nat where "WR_BUFF = 14"

lemmas mcas_sizes = SIZE_READ_def SIZE_WRITE_def SIZE_TARGET_def

record buffer =
  bu_phys :: nat
  bu_virt :: nat

record mcas =
  mc_read :: buffer
  mc_write :: buffer
  mc_target :: buffer

text \<open>The control registers of the unit, by index.\<close>

definition csr_set :: "nat \<Rightarrow> nat \<Rightarrow> (nat \<Rightarrow> nat) \<Rightarrow> nat \<Rightarrow> nat" where
  "csr_set index v csr = csr(index := v)"

definition mcas_new :: "config \<Rightarrow> buffer \<Rightarrow> (nat \<Rightarrow> nat) \<Rightarrow> (mcas \<times> (nat \<Rightarrow> nat)) res" where
  "mcas_new cfg target csr =
     andthen (add_w cfg 64 (bu_phys target) SIZE_TARGET) (\<lambda>top.
     andthen (sub_w cfg 64 top SIZE_READ) (\<lambda>rd.
     let read = \<lparr>bu_phys = rd, bu_virt = bu_virt target + SIZE_TARGET - SIZE_READ\<rparr>; csr1 = csr_set RD_BUFF rd csr in
     andthen (sub_w cfg 64 rd SIZE_WRITE) (\<lambda>wr.
     let write = \<lparr>bu_phys = wr, bu_virt = bu_virt read - SIZE_WRITE\<rparr> in
     Inr (\<lparr>mc_read = read, mc_write = write, mc_target = target\<rparr>, csr_set WR_BUFF wr csr1))))"

definition virt_to_phys :: "config \<Rightarrow> buffer \<Rightarrow> nat \<Rightarrow> nat res" where
  "virt_to_phys cfg b a = andthen (unwrap (if bu_virt b \<le> a then Some (a - bu_virt b) else None)) (\<lambda>off. add_w cfg 64 off (bu_phys b))"

text \<open>The memory that is cleared when the process starts.\<close>

definition cleared :: "mcas \<Rightarrow> nat set" where
  "cleared m = {bu_virt (mc_target m) ..< bu_virt (mc_target m) + (SIZE_TARGET - SIZE_READ - SIZE_WRITE)}"

subsection \<open>Requests\<close>

text \<open>A request has a line of the write buffer and its answer one of the read buffer, by thread.\<close>

definition slot_offset :: "nat \<Rightarrow> nat" where
  "slot_offset t = t * 2 * 64"

definition request_range :: "mcas \<Rightarrow> nat \<Rightarrow> nat set" where
  "request_range m t = {bu_virt (mc_write m) + slot_offset t ..< bu_virt (mc_write m) + slot_offset t + 64}"

definition answer_range :: "mcas \<Rightarrow> nat \<Rightarrow> nat set" where
  "answer_range m t = {bu_virt (mc_read m) + slot_offset t ..< bu_virt (mc_read m) + slot_offset t + 16}"

text \<open>
  The unit answers a request (expected value, new value, physical address, slot) with a value and a status, and may
  change its memory. Only the status is reliable when it is not one.
\<close>

type_synonym 'm nmp = "64 word \<Rightarrow> 64 word \<Rightarrow> nat \<Rightarrow> nat \<Rightarrow> 'm \<Rightarrow> (64 word \<times> nat) \<times> 'm"

definition mcas_call :: "config \<Rightarrow> 'm nmp \<Rightarrow> mcas \<Rightarrow> nat \<Rightarrow> nat \<Rightarrow> 64 word \<Rightarrow> 64 word \<Rightarrow> 'm \<Rightarrow> ((64 word + 64 word) \<times> 'm) res" where
  "mcas_call cfg unit m t a old new s =
     andthen (virt_to_phys cfg (mc_target m) a) (\<lambda>phys.
     let ((v, success), s1) = unit old new phys (t * 2) s in Inr (if success = 1 then Inr v else Inl v, s1))"

text \<open>An answer of zero makes the caller load the cell again; any other is taken for its value.\<close>

definition mcas_compare_exchange ::
  "config \<Rightarrow> 'm nmp \<Rightarrow> (nat \<Rightarrow> 'm \<Rightarrow> 64 word) \<Rightarrow> mcas \<Rightarrow> nat \<Rightarrow> nat \<Rightarrow> 64 word \<Rightarrow> 64 word \<Rightarrow> 'm \<Rightarrow> ((64 word + 64 word) \<times> 'm) res" where
  "mcas_compare_exchange cfg unit load m t a old new s =
     andthen (mcas_call cfg unit m t a old new s) (\<lambda>(r, s1). case r of
       Inr v \<Rightarrow> Inr (Inr v, s1)
     | Inl v \<Rightarrow> Inr (Inl (if v = 0 then load a s1 else v), s1))"

text \<open>The loop of a store, with a bound on its rounds.\<close>

fun mcas_store_loop ::
  "nat \<Rightarrow> config \<Rightarrow> 'm nmp \<Rightarrow> (nat \<Rightarrow> 'm \<Rightarrow> 64 word) \<Rightarrow> mcas \<Rightarrow> nat \<Rightarrow> nat \<Rightarrow> 64 word \<Rightarrow> 64 word \<Rightarrow> 'm \<Rightarrow> 'm option res" where
  "mcas_store_loop 0 cfg unit load m t a old new s = Inr None"
| "mcas_store_loop (Suc n) cfg unit load m t a old new s =
     andthen (mcas_compare_exchange cfg unit load m t a old new s) (\<lambda>(r, s1). case r of
       Inr _ \<Rightarrow> Inr (Some s1)
     | Inl next \<Rightarrow> mcas_store_loop n cfg unit load m t a next new s1)"

definition mcas_store :: "nat \<Rightarrow> config \<Rightarrow> 'm nmp \<Rightarrow> (nat \<Rightarrow> 'm \<Rightarrow> 64 word) \<Rightarrow> mcas \<Rightarrow> nat \<Rightarrow> nat \<Rightarrow> 64 word \<Rightarrow> 'm \<Rightarrow> 'm option res" where
  "mcas_store n cfg unit load m t a new s = mcas_store_loop n cfg unit load m t a (load a s) new s"

subsection \<open>Regions in the target buffer\<close>

definition fixed_new_mcas :: "mcas \<Rightarrow> ident \<Rightarrow> nat \<Rightarrow> fixed" where
  "fixed_new_mcas m i n = \<lparr>fx_id = i, fx_create = True, fx_address = bu_virt (mc_target m), fx_size = n\<rparr>"

definition sequential_new_mcas :: "config \<Rightarrow> mcas \<Rightarrow> sizes \<Rightarrow> ident \<Rightarrow> nat \<Rightarrow> sequential res" where
  "sequential_new_mcas cfg m sz i n =
     andthen (andthen (next_multiple_of_w cfg n SIZE_PAGE) (\<lambda>m. unwrap (nonzero m))) (\<lambda>size.
     andthen (struct_layout (hd (sz_shared sz)) (tl (sz_shared sz))) (\<lambda>(shared, _).
     andthen (next_multiple_of_w cfg shared SIZE_PAGE) (\<lambda>off.
     andthen (add_w cfg 64 off size) (\<lambda>reach.
     andthen (require (reach < SIZE_TARGET) (Assertion ''No room for sequential region'')) (\<lambda>_.
     Inr (Mcas i (bu_virt (mc_target m) + off) size))))))"

subsection \<open>Lemmas\<close>

lemma mcas_new_Inr:
  assumes "mcas_new cfg target csr = Inr (m, csr')" "bu_phys target + SIZE_TARGET < 2 ^ 64"
  shows "mc_target m = target" "bu_virt (mc_read m) = bu_virt target + (SIZE_TARGET - SIZE_READ)" "bu_virt (mc_write m) = bu_virt target + (SIZE_TARGET - SIZE_READ - SIZE_WRITE)"
    "bu_phys (mc_read m) = bu_phys target + (SIZE_TARGET - SIZE_READ)" "bu_phys (mc_write m) = bu_phys target + (SIZE_TARGET - SIZE_READ - SIZE_WRITE)"
    "csr' RD_BUFF = bu_phys (mc_read m)" "csr' WR_BUFF = bu_phys (mc_write m)"
  using assms by (auto simp: mcas_new_def mcas_sizes add_w_def sub_w_def andthen_Inr_conv Let_def csr_set_def RD_BUFF_def WR_BUFF_def)

lemma slot_bound: "t < COUNT_THREAD \<Longrightarrow> slot_offset t + 64 \<le> SIZE_WRITE" "t < COUNT_THREAD \<Longrightarrow> slot_offset t + 16 \<le> SIZE_READ"
  by (simp_all add: slot_offset_def COUNT_THREAD_def mcas_sizes)

text \<open>Slots of different threads are two lines apart.\<close>

lemma slots_apart: "t \<noteq> u \<Longrightarrow> {x + slot_offset t ..< x + slot_offset t + 64} \<inter> {x + slot_offset u ..< x + slot_offset u + (64::nat)} = {}"
  by (cases "t < u") (auto simp: slot_offset_def)

text \<open>An undisturbed store ends in its first round.\<close>

lemma mcas_store_ends:
  assumes "virt_to_phys cfg (mc_target m) a = Inr phys" "unit (load a s) new phys (t * 2) s = ((v, 1), s')"
  shows "mcas_store (Suc n) cfg unit load m t a new s = Inr (Some s')"
  using assms by (simp add: mcas_store_def mcas_compare_exchange_def mcas_call_def)

subsection \<open>Properties\<close>


abbreviation demo_buffer :: buffer where "demo_buffer \<equiv> \<lparr>bu_phys = 2 ^ 32, bu_virt = 2 ^ 40\<rparr>"

lemma demo_mcas: "\<exists>m csr'. mcas_new cfg_debug demo_buffer (\<lambda>_. 0) = Inr (m, csr')"
  by (simp add: mcas_new_def mcas_sizes add_w_def sub_w_def Let_def)


text \<open>
  When a failed attempt is answered with zero or with the value of the cell, a store that nobody disturbs ends after at most
  two rounds, whatever value it expects first, and after one when it expects the value of the cell.
\<close>

lemma mcas_store_two_rounds:
  assumes "virt_to_phys cfg (mc_target m) a = Inr phys" and "load a s = v" "g = 0 \<or> g = v"
    and "unit v new phys (t * 2) s = ((x, 1), s')" "old \<noteq> v \<longrightarrow> unit old new phys (t * 2) s = ((g, 0), s)"
  shows "mcas_store_loop (Suc (Suc n)) cfg unit load m t a old new s = Inr (Some s')"
    and "mcas_store (Suc n) cfg unit load m t a new s = Inr (Some s')"
  using assms by (cases "old = v"; auto simp: mcas_store_def mcas_compare_exchange_def mcas_call_def)+

text \<open>
  C37: a store can run forever once its first attempt has failed. The unit's answer to a failed attempt is unreliable;
  the code takes any answer but zero for the value of the cell, so that, when the answer is another value, it
  repeats an attempt that cannot succeed although nobody changes the cell any more.
\<close>

theorem mcas_store_sticks:
  assumes "virt_to_phys cfg (mc_target m) a = Inr phys" and "g \<noteq> 0" "g \<noteq> v" "old \<noteq> v"
    and "\<forall>x slot. x \<noteq> v \<longrightarrow> unit x new phys slot s = ((g, 0), s)"
  shows "mcas_store_loop n cfg unit load m t a old new s = Inr None"
  using assms(4)
proof (induction n arbitrary: old)
  case (Suc n)
  have "mcas_compare_exchange cfg unit load m t a old new s = Inr (Inl g, s)"
    using assms(1,2,5) Suc.prems by (simp add: mcas_compare_exchange_def mcas_call_def)
  then show ?case using Suc.IH [OF assms(3)] by simp
qed simp

text \<open>A unit with one cell that answers seven to every failed attempt.\<close>

definition demo_unit :: "64 word nmp" where
  "demo_unit old new phys slot s = (if old = s then ((old, 1), new) else ((7, 0), s))"

theorem mcas_store_sticks_witness:
  "\<exists>m. mcas_compare_exchange cfg_debug demo_unit (\<lambda>_ s. s) m 0 (2 ^ 40) 5 9 3 = Inr (Inl 7, 3) \<and>
    (\<forall>n. mcas_store_loop n cfg_debug demo_unit (\<lambda>_ s. s) m 0 (2 ^ 40) 5 9 3 = Inr None)"
proof -
  obtain m csr' where m: "mcas_new cfg_debug demo_buffer (\<lambda>_. 0) = Inr (m, csr')" using demo_mcas by blast
  have t: "mc_target m = demo_buffer" using mcas_new_Inr(1) [OF m] by (simp add: mcas_sizes)
  then have p: "virt_to_phys cfg_debug (mc_target m) (2 ^ 40) = Inr (2 ^ 32)" by (simp add: virt_to_phys_def add_w_def)
  have "mcas_store_loop n cfg_debug demo_unit (\<lambda>_ s. s) m 0 (2 ^ 40) 5 9 3 = Inr None" for n
    by (rule mcas_store_sticks [OF p, of 7 3]) (simp_all add: demo_unit_def)
  moreover have "mcas_compare_exchange cfg_debug demo_unit (\<lambda>_ s. s) m 0 (2 ^ 40) 5 9 3 = Inr (Inl 7, 3)"
    using p by (simp add: mcas_compare_exchange_def mcas_call_def demo_unit_def)
  ultimately show ?thesis by blast
qed

text \<open>
  The check for room counts the whole target buffer, although its end holds the requests and answers: a region
  it accepts can reach into them.
\<close>

lemma mcas_region_reaches_requests:
  assumes "mcas_new cfg target csr = Inr (m, csr')" "bu_phys target + SIZE_TARGET < 2 ^ 64"
    and "struct_layout (hd (sz_shared sz)) (tl (sz_shared sz)) = Inr (shared, offs)" "SIZE_PAGE dvd n"
  defines "off \<equiv> next_multiple_of shared SIZE_PAGE"
  assumes "off \<le> SIZE_TARGET - SIZE_READ - SIZE_WRITE" "SIZE_TARGET - SIZE_READ - SIZE_WRITE < off + n" "off + n < SIZE_TARGET"
  shows "\<exists>s. sequential_new_mcas cfg m sz i n = Inr s \<and> {sq_start s ..< sq_start s + sq_size s} \<inter> request_range m 0 \<noteq> {}"
proof -
  note nw = mcas_new_Inr [OF assms(1,2)]
  have "next_multiple_of_w cfg n SIZE_PAGE = Inr n" using assms(4) by (simp add: next_multiple_of_w_def)
  moreover have "next_multiple_of_w cfg shared SIZE_PAGE = Inr off"
    using assms(6) next_multiple_of_w_ok [of SIZE_PAGE shared cfg] by (simp add: off_def SIZE_PAGE_def mcas_sizes)
  moreover have "add_w cfg 64 off n = Inr (off + n)" using assms(8) by (simp add: add_w_def mcas_sizes)
  moreover have "0 < n" using assms(6,7) by simp
  ultimately have "sequential_new_mcas cfg m sz i n = Inr (Mcas i (bu_virt target + off) n)"
    using assms(3,8) nw(1) by (simp add: sequential_new_mcas_def)
  moreover have "bu_virt (mc_write m) \<in> {bu_virt target + off ..< bu_virt target + off + n} \<inter> request_range m 0"
    using assms(6,7) by (simp add: request_range_def slot_offset_def nw)
  ultimately show ?thesis by fastforce
qed

end
