(* ===== verification/Arena_Spec.thy ===== *)
theory Arena_Spec
  imports Arena
begin

text \<open>
  The arena's invariant and its operations: the search ends and is first-fit, every operation keeps
  the extents disjoint, and releasing an extent makes exactly it available again.
\<close>

subsection \<open>Rounding\<close>

lemma next_multiple_of_self: "m dvd n \<Longrightarrow> 0 < m \<Longrightarrow> next_multiple_of n m = n"
  using next_multiple_of_ge [of m n] next_multiple_of_least [of m n n] by simp

lemma align_up_pow2:
  assumes "k < 64"
  shows "align_up v (2 ^ k) = (if v + (2 ^ k - 1) < 2 ^ 64 then Some (next_multiple_of v (2 ^ k)) else None)"
  using assms by (simp add: align_up_def checked_sub_def checked_add_w_def clear_low_pow2 next_multiple_of_def)

lemma aligned_offset_self:
  assumes "k < 64" and "2 ^ k dvd base" and "2 ^ k dvd c" and "base + c + 2 ^ k \<le> 2 ^ 64"
  shows "aligned_offset base c (2 ^ k) = Some c"
proof -
  have pos: "(0::nat) < 2 ^ k" by simp
  have less: "base + c < 2 ^ 64" "base + c + (2 ^ k - 1) < 2 ^ 64" using assms(4) pos by linarith+
  have "align_up (base + c) (2 ^ k) = Some (base + c)"
    unfolding align_up_pow2 [OF assms(1)] using less(2) next_multiple_of_self [of "2 ^ k" "base + c"] assms(2,3) by simp
  then show ?thesis using less(1) by (simp add: aligned_offset_def checked_add_w_def checked_sub_def)
qed

subsection \<open>Extents\<close>

definition e_end :: "extent \<Rightarrow> nat" where "e_end e = e_offset e + e_rounded_len e"

definition e_range :: "extent \<Rightarrow> nat set" where "e_range e = {e_offset e..<e_end e}"

definition extent_ok :: "nat \<Rightarrow> nat \<Rightarrow> extent \<Rightarrow> bool" where
  "extent_ok a sz e \<longleftrightarrow> 0 < e_rounded_len e \<and> a dvd e_offset e \<and> a dvd e_rounded_len e \<and> e_end e \<le> sz \<and>
     0 < e_requested_len e \<and> e_requested_len e \<le> e_rounded_len e"

definition actives :: "extent list \<Rightarrow> extent set" where
  "actives es = {e \<in> set es. e_active e}"

definition table_ok :: "nat \<Rightarrow> nat \<Rightarrow> extent list \<Rightarrow> bool" where
  "table_ok a sz es \<longleftrightarrow> (\<forall>e\<in>actives es. extent_ok a sz e) \<and>
     (\<forall>i j. i < length es \<longrightarrow> j < length es \<longrightarrow> i \<noteq> j \<longrightarrow> e_active (es ! i) \<longrightarrow> e_active (es ! j) \<longrightarrow>
        e_range (es ! i) \<inter> e_range (es ! j) = {})"

definition arena_inv :: "arena \<Rightarrow> bool" where
  "arena_inv a \<longleftrightarrow> length (ar_extents a) = MAX_EXTENTS \<and> is_power_of_two (ar_alignment a) \<and>
     ar_alignment a dvd ar_base a \<and> 0 < ar_base a \<and> ar_base a + ar_size a \<le> 2 ^ 63 \<and>
     table_ok (ar_alignment a) (ar_size a) (ar_extents a)"

lemma table_okD:
  assumes "table_ok a sz es"
  shows "e \<in> actives es \<Longrightarrow> extent_ok a sz e"
    and "e \<in> actives es \<Longrightarrow> f \<in> actives es \<Longrightarrow> e \<noteq> f \<Longrightarrow> e_range e \<inter> e_range f = {}"
  using assms by (auto simp: table_ok_def actives_def in_set_conv_nth)

lemma extent_okD:
  assumes "extent_ok a sz e"
  shows "e_offset e \<in> e_range e" "e_offset e < e_end e" "a dvd e_end e" "e_end e \<le> sz"
  using assms by (auto simp: extent_ok_def e_range_def e_end_def)

lemma min_by_offset_None: "min_by_offset es = None \<longleftrightarrow> es = []"
  by (cases es) (auto split: option.splits)

lemma min_by_offset_Some: "min_by_offset es = Some e \<Longrightarrow> e \<in> set es \<and> (\<forall>f\<in>set es. e_offset e \<le> e_offset f)"
  by (induction es arbitrary: e) (auto simp: min_by_offset_None split: option.splits if_splits)

lemma next_extent_None: "next_extent c es = None \<longleftrightarrow> (\<forall>e\<in>actives es. e_offset e < c)"
  by (auto simp: next_extent_def min_by_offset_None filter_empty_conv actives_def not_le)

lemma next_extent_Some:
  "next_extent c es = Some e \<Longrightarrow> e \<in> actives es \<and> c \<le> e_offset e \<and> (\<forall>f\<in>actives es. c \<le> e_offset f \<longrightarrow> e_offset e \<le> e_offset f)"
  using min_by_offset_Some [of "filter (\<lambda>e. e_active e \<and> c \<le> e_offset e) es" e] by (auto simp: next_extent_def actives_def)

subsection \<open>The search\<close>

definition clear_at :: "nat \<Rightarrow> nat \<Rightarrow> extent list \<Rightarrow> bool" where
  "clear_at n c es \<longleftrightarrow> (\<forall>e\<in>set es. e_active e \<longrightarrow> c + n \<le> e_offset e \<or> e_end e \<le> c)"

lemma clear_at_range: "clear_at n c es \<Longrightarrow> e \<in> actives es \<Longrightarrow> {c..<c + n} \<inter> e_range e = {}"
  by (fastforce simp: clear_at_def actives_def e_range_def)

text \<open>
  The candidate the loop stops at is the first aligned offset from which the request overlaps no
  extent; the loop passes each extent at most once.
\<close>

text \<open>Passing the next extent after a position leaves no extent across the new position, and fewer extents ahead.\<close>

lemma pass_extent:
  assumes tab: "table_ok a sz es" and e: "next_extent c es = Some e" and c: "\<forall>e\<in>actives es. e_offset e < c \<longrightarrow> e_end e \<le> c"
  shows "\<forall>f\<in>actives es. e_offset f < e_end e \<longrightarrow> e_end f \<le> e_end e"
    and "card {f \<in> actives es. e_end e \<le> e_offset f} < card {f \<in> actives es. c \<le> e_offset f}"
proof -
  note e = next_extent_Some [OF e]
  have ok: "extent_ok a sz e" using table_okD(1) [OF tab] e by blast
  have "e_end f \<le> e_end e" if f: "f \<in> actives es" "e_offset f < e_end e" for f
  proof (cases "e_offset f < c")
    case True
    then show ?thesis using c f(1) e extent_okD(2) [OF ok] by fastforce
  next
    case False
    then have "e_offset f \<in> e_range e" using e f by (auto simp: e_range_def)
    then have "f = e" using table_okD [OF tab] extent_okD(1) f(1) e by blast
    then show ?thesis by simp
  qed
  then show "\<forall>f\<in>actives es. e_offset f < e_end e \<longrightarrow> e_end f \<le> e_end e" by blast
  have "{f \<in> actives es. e_end e \<le> e_offset f} \<subset> {f \<in> actives es. c \<le> e_offset f}"
    using e extent_okD(2) [OF ok] by force
  then show "card {f \<in> actives es. e_end e \<le> e_offset f} < card {f \<in> actives es. c \<le> e_offset f}"
    by (rule psubset_card_mono [rotated]) (simp add: actives_def)
qed

lemma fit_loop_ok:
  assumes tab: "table_ok (2 ^ k) sz es" and k: "k < 64" "2 ^ k dvd base" "base + sz + 2 ^ k \<le> 2 ^ 64"
    and n: "0 < n" "sz + n < 2 ^ 64"
    and c: "2 ^ k dvd c" "c \<le> sz" "\<forall>e\<in>actives es. e_offset e < c \<longrightarrow> e_end e \<le> c"
  shows "\<exists>c'. fit_loop cfg base (2 ^ k) n es c = Some (Inr (Inr c')) \<and> c \<le> c' \<and> c' \<le> sz \<and> 2 ^ k dvd c' \<and> clear_at n c' es \<and>
    (\<forall>d. c \<le> d \<longrightarrow> d < c' \<longrightarrow> \<not> clear_at n d es)"
  using c
proof (induction "card {e \<in> actives es. c \<le> e_offset e}" arbitrary: c rule: less_induct)
  case less
  have al: "aligned_offset base c (2 ^ k) = Some c" using aligned_offset_self [OF k(1,2) less.prems(1)] k(3) less.prems(2) by simp
  show ?case
  proof (cases "next_extent c es")
    case None
    then have "clear_at n c es" using less.prems(3) by (auto simp: next_extent_None clear_at_def actives_def)
    then show ?thesis using al None less.prems by (subst fit_loop.simps) auto
  next
    case (Some e)
    note e = next_extent_Some [OF Some]
    have ok: "extent_ok (2 ^ k) sz e" using table_okD(1) [OF tab] e by blast
    have add: "add_w cfg 64 c n = Inr (c + n)" using less.prems(2) n(2) by (simp add: add_w_def)
    show ?thesis
    proof (cases "c + n \<le> e_offset e")
      case True
      then have "clear_at n c es" using less.prems(3) e unfolding clear_at_def actives_def
        by (metis (mono_tags, lifting) le_trans linorder_not_le mem_Collect_eq)
      then show ?thesis using al Some add True less.prems by (subst fit_loop.simps) auto
    next
      case False
      have "checked_add_w 64 (e_offset e) (e_rounded_len e) = Some (e_end e)"
        using extent_okD(4) [OF ok] n by (simp add: checked_add_w_def e_end_def)
      then have step: "fit_loop cfg base (2 ^ k) n es c = fit_loop cfg base (2 ^ k) n es (e_end e)"
        using al Some add False by (subst fit_loop.simps) (simp del: checked_add_w_Some)
      note pass = pass_extent [OF tab Some less.prems(3)]
      obtain c' where c': "fit_loop cfg base (2 ^ k) n es (e_end e) = Some (Inr (Inr c'))" "e_end e \<le> c'" "c' \<le> sz" "2 ^ k dvd c'"
        "clear_at n c' es" "\<forall>d. e_end e \<le> d \<longrightarrow> d < c' \<longrightarrow> \<not> clear_at n d es"
        using less.hyps [OF pass(2) extent_okD(3,4) [OF ok] pass(1)] by blast
      have "\<not> clear_at n d es" if d: "c \<le> d" "d < c'" for d
      proof (cases "e_end e \<le> d")
        case True
        then show ?thesis using c'(6) d(2) by blast
      next
        case inside: False
        then have "\<not> d + n \<le> e_offset e" using False d(1) n(1) by linarith
        then show ?thesis using inside e by (auto simp: clear_at_def actives_def)
      qed
      then show ?thesis using c' step e extent_okD(2) [OF ok] by (intro exI [of _ c']) auto
    qed
  qed
qed

subsection \<open>First fit\<close>

text \<open>The specification of the search: the least multiple of the alignment where the request fits.\<close>

definition first_fit :: "nat \<Rightarrow> nat \<Rightarrow> nat \<Rightarrow> extent list \<Rightarrow> nat option" where
  "first_fit a sz n es = List.find (\<lambda>c. c + n \<le> sz \<and> clear_at n c es) (map (\<lambda>q. q * a) [0..<sz div a + 1])"

lemma first_fit_eq:
  assumes "0 < a" "a dvd c" "clear_at n c es" "\<forall>d<c. \<not> clear_at n d es"
  shows "first_fit a sz n es = (if c + n \<le> sz then Some c else None)"
proof (cases "c + n \<le> sz")
  case True
  obtain q where q: "c = q * a" using assms(2) by (metis dvd_def mult.commute)
  have "q \<le> sz div a" using True q assms(1) by (simp add: less_eq_div_iff_mult_less_eq)
  moreover have "\<not> clear_at n (j * a) es" if "j < q" for j using assms(4) that q assms(1) by simp
  ultimately have "first_fit a sz n es = Some c"
    unfolding first_fit_def find_Some_iff using True q assms(3)
    by (intro exI [of _ q]) (auto simp: nth_append simp del: upt_Suc)
  then show ?thesis using True by simp
next
  case False
  then have "\<not> (d + n \<le> sz \<and> clear_at n d es)" for d using assms(4) by (metis add_le_mono1 le_trans not_le)
  then have "first_fit a sz n es = None" unfolding first_fit_def find_None_iff by blast
  then show ?thesis using False by simp
qed

definition granted :: "nat \<Rightarrow> nat \<Rightarrow> nat \<Rightarrow> extent" where
  "granted a n c = \<lparr>e_offset = c, e_rounded_len = next_multiple_of (max n 1) a, e_requested_len = max n 1, e_active = True\<rparr>"

definition arena_spec :: "nat \<Rightarrow> arena \<Rightarrow> (arena_error + nat) \<times> arena" where
  "arena_spec n a =
     (case (position (\<lambda>e. \<not> e_active e) (ar_extents a),
            first_fit (ar_alignment a) (ar_size a) (next_multiple_of (max n 1) (ar_alignment a)) (ar_extents a)) of
        (Some slot, Some c) \<Rightarrow> (Inr (ar_base a + c), a\<lparr>ar_extents := (ar_extents a)[slot := granted (ar_alignment a) n c]\<rparr>)
      | _ \<Rightarrow> (Inl OutOfMemory, a))"

lemma arena_invD:
  assumes "arena_inv a"
  obtains k where "k < 64" "ar_alignment a = 2 ^ k" "2 ^ k dvd ar_base a" "0 < ar_base a" "ar_base a + ar_size a \<le> 2 ^ 63"
    "ar_base a + ar_size a + 2 ^ k \<le> 2 ^ 64" "table_ok (2 ^ k) (ar_size a) (ar_extents a)" "length (ar_extents a) = MAX_EXTENTS"
proof -
  obtain k where k: "k < 64" "ar_alignment a = 2 ^ k" using assms by (auto simp: arena_inv_def is_power_of_two_def)
  have "(2::nat) ^ k \<le> 2 ^ 63" using k(1) by (intro power_increasing) simp_all
  moreover have "(2::nat) ^ 64 = 2 ^ 63 + 2 ^ 63" by simp
  moreover have "ar_base a + ar_size a \<le> 2 ^ 63" using assms by (simp add: arena_inv_def)
  ultimately have "ar_base a + ar_size a + 2 ^ k \<le> 2 ^ 64" by linarith
  then show thesis using that [of k] k assms by (simp add: arena_inv_def)
qed

lemma arena_search:
  assumes inv: "arena_inv a" and room: "max n 1 + (ar_alignment a - 1) < 2 ^ 64" "ar_size a + next_multiple_of (max n 1) (ar_alignment a) < 2 ^ 64"
  obtains c where "fit_loop cfg (ar_base a) (ar_alignment a) (next_multiple_of (max n 1) (ar_alignment a)) (ar_extents a) 0 = Some (Inr (Inr c))"
    "c \<le> ar_size a" "ar_alignment a dvd c" "clear_at (next_multiple_of (max n 1) (ar_alignment a)) c (ar_extents a)"
    "\<forall>d<c. \<not> clear_at (next_multiple_of (max n 1) (ar_alignment a)) d (ar_extents a)"
    "align_up (max n 1) (ar_alignment a) = Some (next_multiple_of (max n 1) (ar_alignment a))"
    "ar_size a + next_multiple_of (max n 1) (ar_alignment a) < 2 ^ 64"
proof -
  obtain k where k: "k < 64" "ar_alignment a = 2 ^ k" "2 ^ k dvd ar_base a" "ar_base a + ar_size a + 2 ^ k \<le> 2 ^ 64"
    "table_ok (2 ^ k) (ar_size a) (ar_extents a)" using inv by (rule arena_invD)
  let ?n = "next_multiple_of (max n 1) (2 ^ k)"
  have "max n 1 \<le> ?n" by (rule next_multiple_of_ge) simp
  then have n: "0 < ?n" "ar_size a + ?n < 2 ^ 64" "max n 1 + (2 ^ k - 1) < 2 ^ 64" using room k(2) by simp_all
  show thesis
    using fit_loop_ok [OF k(5,1,3,4) n(1,2), of 0 cfg] align_up_pow2 [OF k(1), of "max n 1"] n that unfolding k(2) by auto
qed

lemma ends_within_iff: "ends_within c n sz \<longleftrightarrow> c + n < 2 ^ 64 \<and> c + n \<le> sz"
  by (simp add: ends_within_def checked_add_w_def)

lemma arena_allocate_spec:
  assumes inv: "arena_inv a" and lock: "arena_lock sys = Inr ()" and al: "is_power_of_two al" "al \<le> ar_alignment a"
    and room: "max n 1 + (ar_alignment a - 1) < 2 ^ 64" "ar_size a + next_multiple_of (max n 1) (ar_alignment a) < 2 ^ 64"
  shows "arena_allocate cfg sys n al a = Inr (arena_spec n a)"
proof -
  let ?n = "next_multiple_of (max n 1) (ar_alignment a)"
  obtain c where c: "fit_loop cfg (ar_base a) (ar_alignment a) ?n (ar_extents a) 0 = Some (Inr (Inr c))"
    "c \<le> ar_size a" "ar_alignment a dvd c" "clear_at ?n c (ar_extents a)" "\<forall>d<c. \<not> clear_at ?n d (ar_extents a)"
    "align_up (max n 1) (ar_alignment a) = Some ?n" "ar_size a + ?n < 2 ^ 64" by (rule arena_search [OF inv room])
  have pos: "0 < ar_alignment a" using inv by (rule arena_invD) simp
  have ff: "first_fit (ar_alignment a) (ar_size a) ?n (ar_extents a) = (if c + ?n \<le> ar_size a then Some c else None)"
    using first_fit_eq [OF pos c(3-5)] .
  have "ends_within c ?n (ar_size a) \<longleftrightarrow> c + ?n \<le> ar_size a" using c(2,7) by (auto simp: ends_within_iff)
  then show ?thesis
    using al lock c(1,6) ff max_absorb2 [OF al(2)]
    by (simp add: arena_allocate_def arena_spec_def granted_def Let_def split: option.splits)
qed

text \<open>A request the specification serves: the table stays consistent and the new extent is disjoint from the others.\<close>

lemma table_ok_update:
  assumes tab: "table_ok a sz es" and e: "extent_ok a sz e" "e_active e"
    and disj: "\<And>f. f \<in> actives es \<Longrightarrow> e_range e \<inter> e_range f = {}"
  shows "table_ok a sz (es[i := e])"
proof -
  have "extent_ok a sz f" if "f \<in> actives (es[i := e])" for f
    using that e(1) table_okD(1) [OF tab] set_update_subset_insert [of es i e] by (auto simp: actives_def)
  moreover have "e_range (es[i := e] ! x) \<inter> e_range (es[i := e] ! y) = {}"
    if "x < length es" "y < length es" "x \<noteq> y" "e_active (es[i := e] ! x)" "e_active (es[i := e] ! y)" for x y
    using that tab disj [of "es ! x"] disj [of "es ! y"]
    by (cases "i = x"; cases "i = y") (simp_all add: table_ok_def actives_def Int_commute)
  ultimately show ?thesis by (simp add: table_ok_def)
qed

lemma table_ok_remove:
  assumes "table_ok a sz es"
  shows "table_ok a sz (es[i := empty_extent])"
proof -
  have "actives (es[i := empty_extent]) \<subseteq> actives es"
    using set_update_subset_insert [of es i empty_extent] by (auto simp: actives_def empty_extent_def)
  moreover have "e_active (es[i := empty_extent] ! x) \<Longrightarrow> es[i := empty_extent] ! x = es ! x" if "x < length es" for x
    using that by (cases "x = i") (simp_all add: empty_extent_def)
  ultimately show ?thesis using assms unfolding table_ok_def by (metis length_list_update subsetD)
qed

lemma arena_spec_ok:
  assumes inv: "arena_inv a" and r: "arena_spec n a = (Inr p, a')"
  shows "\<exists>c. p = ar_base a + c \<and> arena_inv a' \<and> ar_alignment a dvd p \<and> c + max n 1 \<le> ar_size a \<and>
    granted (ar_alignment a) n c \<in> actives (ar_extents a') \<and> actives (ar_extents a') = insert (granted (ar_alignment a) n c) (actives (ar_extents a)) \<and>
    (\<forall>e\<in>actives (ar_extents a). e_range (granted (ar_alignment a) n c) \<inter> e_range e = {})"
proof -
  obtain k where k: "k < 64" "ar_alignment a = 2 ^ k" "2 ^ k dvd ar_base a" "table_ok (2 ^ k) (ar_size a) (ar_extents a)"
    using inv by (rule arena_invD)
  let ?n = "next_multiple_of (max n 1) (2 ^ k)"
  obtain slot c where s: "position (\<lambda>e. \<not> e_active e) (ar_extents a) = Some slot"
    "first_fit (2 ^ k) (ar_size a) ?n (ar_extents a) = Some c" "p = ar_base a + c"
    "a' = a\<lparr>ar_extents := (ar_extents a)[slot := granted (2 ^ k) n c]\<rparr>"
    using r by (auto simp: arena_spec_def k(2) split: option.splits)
  let ?g = "granted (2 ^ k) n c"
  have slot: "slot < length (ar_extents a)" "\<not> e_active (ar_extents a ! slot)" using s(1) by (auto simp: position_Some)
  obtain q where c: "c + ?n \<le> ar_size a" "clear_at ?n c (ar_extents a)" "c = q * 2 ^ k"
    using s(2) by (auto simp: first_fit_def find_Some_iff simp del: upt_Suc)
  have n: "max n 1 \<le> ?n" by (rule next_multiple_of_ge) simp
  have ok: "extent_ok (2 ^ k) (ar_size a) ?g" "e_active ?g" using c n by (auto simp: extent_ok_def granted_def e_end_def)
  have disj: "e_range ?g \<inter> e_range f = {}" if "f \<in> actives (ar_extents a)" for f
    using clear_at_range [OF c(2) that] by (simp add: e_range_def granted_def e_end_def)
  have "actives ((ar_extents a)[slot := ?g]) = insert ?g (actives (ar_extents a))"
    using slot ok(2) by (auto simp: actives_def in_set_conv_nth nth_list_update)
  moreover have "arena_inv a'" using inv table_ok_update [OF k(4) ok disj] k(2) by (simp add: arena_inv_def s(4))
  moreover have "c + max n 1 \<le> ar_size a" using c(1) n by linarith
  ultimately show ?thesis using disj c(3) k(2,3) s(3,4) by (intro exI [of _ c]) auto
qed

lemma arena_allocate_Ok:
  assumes inv: "arena_inv a" and al: "is_power_of_two al" "al \<le> ar_alignment a"
    and r: "arena_allocate cfg sys n al a = Inr (Inr p, a')"
  shows "arena_spec n a = (Inr p, a')" and "arena_lock sys = Inr ()"
proof -
  obtain k where k: "k < 64" "ar_alignment a = 2 ^ k" "0 < ar_base a" "ar_base a + ar_size a \<le> 2 ^ 63" using inv by (rule arena_invD)
  obtain m c where m: "align_up (max n 1) (2 ^ k) = Some m" "c + m \<le> ar_size a" and lock: "arena_lock sys = Inr ()"
    using r al(1)
    apply (auto simp: arena_allocate_def k(2) Let_def andthen_Inr_conv ends_within_iff split: option.splits sum.splits if_splits)
    subgoal for m i x by (cases x) auto
    done
  have "max n 1 + (2 ^ k - 1) < 2 ^ 64 \<and> m = next_multiple_of (max n 1) (2 ^ k)"
    using m(1) unfolding align_up_pow2 [OF k(1)] by (simp split: if_splits)
  moreover have "ar_size a + m < 2 ^ 64" using m(2) k(3,4) by simp
  ultimately show "arena_spec n a = (Inr p, a')"
    using arena_allocate_spec [OF inv lock al, of n cfg] r k(2) by simp
  show "arena_lock sys = Inr ()" by (rule lock)
qed

lemma arena_allocate_Err: "arena_allocate cfg sys n al a = Inr (Inl e, a') \<Longrightarrow> a' = a"
  apply (auto simp: arena_allocate_def Let_def andthen_Inr_conv split: option.splits sum.splits if_splits)
  subgoal for m i x by (cases x) (auto split: if_splits)
  done

subsection \<open>Reachable arenas\<close>

text \<open>A mapping lies in the lower half of the address space and not at address zero.\<close>

definition mmap_ok :: "system \<Rightarrow> bool" where
  "mmap_ok sys \<longleftrightarrow> (\<forall>len fd m. os_mmap sys len fd = Inr m \<longrightarrow> 0 < m \<and> m + len \<le> 2 ^ 63)"

inductive arena_reach :: "config \<Rightarrow> system \<Rightarrow> arena \<Rightarrow> bool" for cfg sys where
  device: "arena_open sys path = Inr a \<Longrightarrow> arena_reach cfg sys a"
| anonymous: "new_anonymous sys sz al = Inr a \<Longrightarrow> arena_reach cfg sys a"
| allocate: "arena_reach cfg sys a \<Longrightarrow> is_power_of_two al \<Longrightarrow> al \<le> ar_alignment a \<Longrightarrow>
    arena_allocate cfg sys n al a = Inr (r, a') \<Longrightarrow> arena_reach cfg sys a'"
| deallocate: "arena_reach cfg sys a \<Longrightarrow> arena_deallocate sys p a = (r, a') \<Longrightarrow> arena_reach cfg sys a'"

lemma align_up_bounds:
  assumes "is_power_of_two al" "align_up m al = Some x"
  shows "al dvd x" "m \<le> x" "x \<le> m + (al - 1)" "0 < al"
proof -
  obtain k where k: "k < 64" "al = 2 ^ k" using assms(1) by (auto simp: is_power_of_two_def)
  then have x: "x = next_multiple_of m al" using assms(2) by (simp add: align_up_pow2 split: if_splits)
  show "0 < al" by (simp add: k(2))
  then show "al dvd x" "m \<le> x" "x \<le> m + (al - 1)"
    using next_multiple_of_ge [of al m] next_multiple_of_less [of al m] x by simp_all
qed

lemma table_ok_empty: "table_ok a sz (replicate n empty_extent)"
  by (auto simp: table_ok_def actives_def empty_extent_def)

lemma new_anonymous_inv:
  assumes "new_anonymous sys sz al = Inr a" "mmap_ok sys"
  shows "arena_inv a"
proof -
  obtain m x where m: "is_power_of_two al" "os_mmap sys (sz + (al - 1)) None = Inr m" "align_up m al = Some x"
    "a = \<lparr>ar_mapping = m, ar_mapping_len = sz + (al - 1), ar_base = x, ar_size = sz, ar_alignment = al,
      ar_extents = replicate MAX_EXTENTS empty_extent, ar_fd = None\<rparr>"
    using assms(1) by (auto simp: new_anonymous_def ok_or_def create_shared_state_def Let_def andthen_Inr_conv split: if_splits option.splits sum.splits)
  have "0 < m" "m + (sz + (al - 1)) \<le> 2 ^ 63" using assms(2) m(2) by (auto simp: mmap_ok_def)
  then show ?thesis using align_up_bounds [OF m(1,3)] m(1) unfolding m(4) arena_inv_def by (simp add: table_ok_empty)
qed

lemma arena_open_inv:
  assumes "arena_open sys path = Inr a" "mmap_ok sys"
  shows "arena_inv a"
proof -
  obtain fd sz al m x where m: "is_power_of_two al" "os_mmap sys sz (Some fd) = Inr m" "align_up m al = Some x" "x - m \<le> sz"
    "a = \<lparr>ar_mapping = m, ar_mapping_len = sz, ar_base = x, ar_size = sz - (x - m), ar_alignment = al,
      ar_extents = replicate MAX_EXTENTS empty_extent, ar_fd = Some fd\<rparr>"
    using assms(1) by (auto simp: arena_open_def ok_or_def create_shared_state_def Let_def andthen_Inr_conv split: if_splits option.splits sum.splits)
  have "0 < m" "m + sz \<le> 2 ^ 63" using assms(2) m(2) by (auto simp: mmap_ok_def)
  then show ?thesis using align_up_bounds [OF m(1,3)] m(1,4) unfolding m(5) arena_inv_def by (simp add: table_ok_empty)
qed

lemma deallocate_inv:
  assumes "arena_inv a" "arena_deallocate sys p a = (r, a')"
  shows "arena_inv a'"
  using assms table_ok_remove by (auto simp: arena_deallocate_def arena_inv_def split: option.splits sum.splits)

lemma arena_reach_inv:
  assumes "arena_reach cfg sys a" "mmap_ok sys"
  shows "arena_inv a"
  using assms
proof (induction rule: arena_reach.induct)
  case (allocate a al n r a')
  then have inv: "arena_inv a" by blast
  show ?case
  proof (cases r)
    case (Inl e)
    then show ?thesis using arena_allocate_Err allocate.hyps(4) inv by blast
  next
    case (Inr p)
    then show ?thesis using arena_spec_ok [OF inv arena_allocate_Ok(1) [OF inv allocate.hyps(2,3)]] allocate.hyps(4) by blast
  qed
qed (blast intro: arena_open_inv new_anonymous_inv deallocate_inv)+

subsection \<open>A concrete arena\<close>

definition quiet_system :: system where
  "quiet_system = \<lparr>os_open = (\<lambda>_. Inr 3), os_flock = (\<lambda>_. Inr ()), os_read = (\<lambda>_. Inl 2), os_page_size = 4096,
     os_mmap = (\<lambda>_ _. Inr (2 ^ 21)), os_mutex = [0, 0, 0, 0], os_lock = 0, os_consistent = 0\<rparr>"

definition small_arena :: arena where
  "small_arena = \<lparr>ar_mapping = 2 ^ 21, ar_mapping_len = 2 ^ 24 + (2 ^ 21 - 1), ar_base = 2 ^ 21, ar_size = 2 ^ 24, ar_alignment = 2 ^ 21,
     ar_extents = replicate MAX_EXTENTS empty_extent, ar_fd = None\<rparr>"

definition quiet_bounded :: system where
  "quiet_bounded = quiet_system\<lparr>os_mmap := (\<lambda>len _. if len \<le> 2 ^ 62 then Inr (2 ^ 21) else Inl 12)\<rparr>"

lemma pow2_21: "is_power_of_two (2 ^ 21)" unfolding is_power_of_two_def by (rule bexI [of _ 21]) simp_all

lemma quiet_lock: "arena_lock quiet_bounded = Inr ()"
  by (simp add: arena_lock_def quiet_bounded_def quiet_system_def EOWNERDEAD_def)

lemma quiet_mmap: "mmap_ok quiet_bounded"
  by (auto simp: mmap_ok_def quiet_bounded_def split: if_splits)

lemma small_arena_new: "new_anonymous quiet_bounded (2 ^ 24) (2 ^ 21) = Inr small_arena"
proof -
  have "align_up (2 ^ 21) (2 ^ 21) = Some (2 ^ 21)" using align_up_pow2 [of 21 "2 ^ 21"] by (simp add: next_multiple_of_def)
  then show ?thesis
    using pow2_21
    by (simp add: new_anonymous_def ok_or_def checked_add_w_def create_shared_state_def shared_state_size_def MAX_EXTENTS_def
        quiet_bounded_def quiet_system_def small_arena_def Let_def)
qed

lemma small_arena_reach: "arena_reach cfg quiet_bounded small_arena"
  using arena_reach.anonymous [OF small_arena_new] .

subsection \<open>Properties\<close>

text \<open>
  C21: in a reachable arena, a request whose alignment is at most the arena's is served exactly as the
  first-fit specification says: at the least multiple of the arena's alignment from which the rounded
  request fits before the end and overlaps no extent, recorded in the first free slot; when there is
  no such offset or no free slot it reports that memory is exhausted and changes nothing. The
  search loop ends.
\<close>

theorem arena_is_first_fit:
  assumes "arena_reach cfg sys a" and "mmap_ok sys" and "arena_lock sys = Inr ()"
    and "is_power_of_two al" and "al \<le> ar_alignment a" and "max n 1 + ar_alignment a \<le> 2 ^ 63"
  shows "arena_allocate cfg sys n al a = Inr (arena_spec n a)"
proof -
  have inv: "arena_inv a" using arena_reach_inv [OF assms(1,2)] .
  then obtain k where k: "ar_alignment a = 2 ^ k" "0 < ar_base a" "ar_base a + ar_size a \<le> 2 ^ 63" by (rule arena_invD)
  have "next_multiple_of (max n 1) (ar_alignment a) < max n 1 + ar_alignment a" using k(1) by (intro next_multiple_of_less) simp
  then have "max n 1 + (ar_alignment a - 1) < 2 ^ 64" "ar_size a + next_multiple_of (max n 1) (ar_alignment a) < 2 ^ 64"
    using assms(6) k(2,3) by (auto simp del: max_less_iff_conj max.bounded_iff)
  then show ?thesis by (rule arena_allocate_spec [OF inv assms(3-5)])
qed

theorem arena_is_first_fit_witness:
  "arena_allocate cfg_debug quiet_bounded 5 16 small_arena = Inr (arena_spec 5 small_arena)"
proof -
  have "is_power_of_two 16" unfolding is_power_of_two_def by (rule bexI [of _ 4]) simp_all
  then show ?thesis
    using arena_is_first_fit [OF small_arena_reach quiet_mmap quiet_lock, of 16 5] by (simp add: small_arena_def)
qed


lemma small_arena_spec:
  "arena_spec 5 small_arena = (Inr (2 ^ 21), small_arena\<lparr>ar_extents := (replicate MAX_EXTENTS empty_extent)[0 := granted (2 ^ 21) 5 0]\<rparr>)"
proof -
  have "position (\<lambda>e. \<not> e_active e) (replicate MAX_EXTENTS empty_extent) = Some 0"
    by (simp add: position_Some MAX_EXTENTS_def empty_extent_def)
  moreover have "first_fit (2 ^ 21) (2 ^ 24) (next_multiple_of 5 (2 ^ 21)) (replicate MAX_EXTENTS empty_extent) = Some 0"
    by (subst first_fit_eq [of _ 0]) (simp_all add: clear_at_def empty_extent_def next_multiple_of_def)
  ultimately show ?thesis by (simp add: arena_spec_def small_arena_def)
qed

lemma small_arena_allocated:
  "arena_allocate cfg_debug quiet_bounded 5 (2 ^ 21) small_arena =
     Inr (Inr (2 ^ 21), small_arena\<lparr>ar_extents := (replicate MAX_EXTENTS empty_extent)[0 := granted (2 ^ 21) 5 0]\<rparr>)"
  using arena_allocate_spec [OF arena_reach_inv [OF small_arena_reach [of cfg_debug] quiet_mmap] quiet_lock pow2_21, of 5 cfg_debug] small_arena_spec
  by (simp add: small_arena_def next_multiple_of_def)


lemma actives_remove:
  assumes t: "table_ok a sz es" and i: "i < length es" "e_active (es ! i)"
  shows "actives (es[i := empty_extent]) = actives es - {es ! i}"
proof -
  have other: "es ! j \<noteq> es ! i" if "j < length es" "j \<noteq> i" "e_active (es ! j)" for j
  proof
    assume eq: "es ! j = es ! i"
    have "e_range (es ! j) \<inter> e_range (es ! i) = {}" using t that i by (simp add: table_ok_def)
    moreover have "e_offset (es ! i) \<in> e_range (es ! i)"
      using t i by (intro extent_okD(1) [of a sz]) (simp add: table_ok_def actives_def)
    ultimately show False using eq by auto
  qed
  show ?thesis
  proof (intro equalityI subsetI)
    fix e assume "e \<in> actives (es[i := empty_extent])"
    then obtain j where "j < length es" "e = es[i := empty_extent] ! j" "e_active e" by (auto simp: actives_def in_set_conv_nth)
    then show "e \<in> actives es - {es ! i}" using other [of j] i
      by (cases "j = i") (auto simp: empty_extent_def actives_def)
  next
    fix e assume "e \<in> actives es - {es ! i}"
    then obtain j where "j < length es" "e = es ! j" "e_active e" "j \<noteq> i" by (auto simp: actives_def in_set_conv_nth)
    then show "e \<in> actives (es[i := empty_extent])" by (auto simp: actives_def in_set_conv_nth intro!: exI [of _ j])
  qed
qed

lemma extent_at_active:
  assumes t: "table_ok al sz (ar_extents a)" and e: "e \<in> actives (ar_extents a)"
  obtains i where "extent_at (e_offset e) a = Some i" "i < length (ar_extents a)" "ar_extents a ! i = e"
proof (cases "extent_at (e_offset e) a")
  case None
  then show thesis using e by (auto simp: extent_at_def position_None actives_def)
next
  case (Some i)
  then have f: "ar_extents a ! i \<in> actives (ar_extents a)" "e_offset (ar_extents a ! i) = e_offset e" "i < length (ar_extents a)"
    by (auto simp: extent_at_def position_Some actives_def)
  have "ar_extents a ! i = e"
    using table_okD(2) [OF t f(1) e] extent_okD(1) [OF table_okD(1) [OF t f(1)]] extent_okD(1) [OF table_okD(1) [OF t e]] f(2) by auto
  then show thesis using that Some f(3) by blast
qed

lemma arena_deallocate_ok:
  assumes inv: "arena_inv a" and lock: "arena_lock sys = Inr ()" and e: "e \<in> actives (ar_extents a)"
  obtains a' where "arena_deallocate sys (ar_base a + e_offset e) a = (Inr (), a')" "actives (ar_extents a') = actives (ar_extents a) - {e}"
    "allocation_size sys (ar_base a + e_offset e) a = Some (e_requested_len e)" "ar_base a' = ar_base a" "ar_size a' = ar_size a"
    "pointer_offset (ar_base a + e_offset e) a = Some (e_offset e)"
proof -
  have t: "table_ok (ar_alignment a) (ar_size a) (ar_extents a)" using inv by (simp add: arena_inv_def)
  obtain i where i: "extent_at (e_offset e) a = Some i" "i < length (ar_extents a)" "ar_extents a ! i = e" using t e by (rule extent_at_active)
  have "e_offset e < ar_size a" using extent_okD(2,4) [OF table_okD(1) [OF t e]] by linarith
  then have po: "pointer_offset (ar_base a + e_offset e) a = Some (e_offset e)" by (simp add: pointer_offset_def checked_sub_def)
  have "e_active (ar_extents a ! i)" using e i(3) by (simp add: actives_def)
  then show thesis
    using that [of "a\<lparr>ar_extents := (ar_extents a)[i := empty_extent]\<rparr>"] po i lock actives_remove [OF t i(2)]
    by (simp add: arena_deallocate_def allocation_size_def)
qed

text \<open>
  Releasing undoes allocating. The pointer an allocation returned has the requested size (one byte
  for an empty request); releasing it succeeds and leaves exactly the extents there were before, and
  releasing it again is refused and changes nothing.
\<close>

theorem arena_release_undoes:
  assumes "arena_reach cfg sys a" and "mmap_ok sys" and "is_power_of_two al" and "al \<le> ar_alignment a"
    and "arena_allocate cfg sys n al a = Inr (Inr p, a')"
  shows "allocation_size sys p a' = Some (max n 1) \<and>
    (\<exists>a''. arena_deallocate sys p a' = (Inr (), a'') \<and> actives (ar_extents a'') = actives (ar_extents a) \<and>
      arena_deallocate sys p a'' = (Inl InvalidPointer, a''))"
proof -
  have inv: "arena_inv a" using arena_reach_inv [OF assms(1,2)] .
  note sp = arena_allocate_Ok [OF inv assms(3-5)]
  obtain c where c: "p = ar_base a + c" "arena_inv a'" "granted (ar_alignment a) n c \<in> actives (ar_extents a')"
    "actives (ar_extents a') = insert (granted (ar_alignment a) n c) (actives (ar_extents a))"
    "\<forall>e\<in>actives (ar_extents a). e_range (granted (ar_alignment a) n c) \<inter> e_range e = {}" using arena_spec_ok [OF inv sp(1)] by auto
  let ?g = "granted (ar_alignment a) n c"
  have same: "ar_base a' = ar_base a" using sp(1) by (auto simp: arena_spec_def split: option.splits)
  have g: "e_offset ?g = c" "e_requested_len ?g = max n 1" by (simp_all add: granted_def)
  obtain a'' where d: "arena_deallocate sys p a' = (Inr (), a'')" "actives (ar_extents a'') = actives (ar_extents a') - {?g}"
    "allocation_size sys p a' = Some (max n 1)" "ar_base a'' = ar_base a'" "ar_size a'' = ar_size a'" "pointer_offset p a' = Some c"
    using arena_deallocate_ok [OF c(2) sp(2) c(3)] unfolding g c(1) same by metis
  have ok: "extent_ok (ar_alignment a) (ar_size a) e" if "e \<in> actives (ar_extents a)" for e
    using inv that by (auto simp: arena_inv_def table_ok_def)
  have "c \<in> e_range ?g" using c(2,3) extent_okD(1) [of "ar_alignment a'" "ar_size a'" ?g] by (auto simp: arena_inv_def table_ok_def g(1))
  then have no: "e_offset e \<noteq> c" if "e \<in> actives (ar_extents a)" for e
    using c(5) that extent_okD(1) [OF ok [OF that]] by auto
  then have act: "actives (ar_extents a'') = actives (ar_extents a)" using d(2) c(4) g(1) by auto
  then have "extent_at c a'' = None" using no by (auto simp: extent_at_def position_None actives_def)
  moreover have "pointer_offset p a'' = Some c" using d(4-6) by (simp add: pointer_offset_def)
  ultimately have "arena_deallocate sys p a'' = (Inl InvalidPointer, a'')" using sp(2) by (simp add: arena_deallocate_def)
  then show ?thesis using d(1,3) act by blast
qed

theorem arena_release_undoes_witness:
  "\<exists>a'. arena_allocate cfg_debug quiet_bounded 5 (2 ^ 21) small_arena = Inr (Inr (2 ^ 21), a') \<and>
    allocation_size quiet_bounded (2 ^ 21) a' = Some 5"
  using arena_release_undoes [OF small_arena_reach quiet_mmap pow2_21 _ small_arena_allocated] small_arena_allocated
  by (simp add: small_arena_def)

text \<open>
  C34: a request aligned more strictly than the arena can be placed over an extent in use: when the base
  is an odd multiple of the arena's alignment and one extent of two units starts at the base, a
  request with twice the alignment is placed in the middle of that extent, because the search only
  looks at extents that start at or after the rounded candidate.
\<close>

theorem arena_overaligned_overlaps:
  assumes "arena_inv a" and "arena_lock sys = Inr ()" and "ar_alignment a = A" and "A \<le> 2 ^ 62" and "ar_base a mod (2 * A) = A"
    and "actives (ar_extents a) = {e}" and "e_offset e = 0" and "e_end e = 2 * A" and "f \<in> set (ar_extents a)" "\<not> e_active f"
  shows "\<exists>a'. arena_allocate cfg sys 1 (2 * A) a = Inr (Inr (ar_base a + A), a') \<and> A \<in> e_range e"
proof -
  obtain slot where Some: "position (\<lambda>e. \<not> e_active e) (ar_extents a) = Some slot" using assms(9,10) by (metis option.exhaust position_None)
  obtain k where k: "k < 64" "A = 2 ^ k" "ar_base a + ar_size a \<le> 2 ^ 63" using assms(1,3) by (metis arena_invD)
  have "\<not> 63 \<le> k" using assms(4) power_increasing [of 63 k "2::nat"] by (auto simp: k(2))
  then have k1: "Suc k < 64" and A1: "2 * A = 2 ^ Suc k" using k by simp_all
  have p2: "is_power_of_two (2 * A)" unfolding is_power_of_two_def A1 using k1 by (intro bexI [of _ "Suc k"]) simp_all
  have up: "align_up 1 A = Some A" using align_up_pow2 [OF k(1), of 1] k(1) assms(4) by (simp add: k(2) next_multiple_of_def)
  have "e \<in> actives (ar_extents a)" using assms(6) by simp
  then have sz: "2 * A \<le> ar_size a" using assms(1,3,8) by (auto simp: arena_inv_def table_ok_def extent_ok_def)
  have pos: "0 < A" by (simp add: k(2))
  obtain q where q: "ar_base a = q * (2 * A) + A" using assms(5) by (metis div_mult_mod_eq)
  have "ar_base a + 2 * A - 1 = (A - 1) + (q + 1) * (2 * A)" unfolding q using k(2) by simp
  then have "(ar_base a + 2 * A - 1) div (2 * A) = ((A - 1) + (q + 1) * (2 * A)) div (2 * A)" by simp
  also have "\<dots> = (q + 1) + (A - 1) div (2 * A)" using k(2) by (intro div_mult_self1) simp
  also have "(A - 1) div (2 * A) = 0" using pos by (intro div_less) linarith
  finally have "(ar_base a + 2 * A - 1) div (2 * A) = q + 1" by simp
  then have nm: "next_multiple_of (ar_base a) (2 * A) = ar_base a + A" by (simp add: next_multiple_of_def q)
  have "ar_base a + (2 * A - 1) < 2 ^ 64" using k(3) assms(4) by simp
  then have "aligned_offset (ar_base a) 0 (2 * A) = Some A"
    using align_up_pow2 [OF k1, of "ar_base a"] nm k(3) unfolding A1 by (simp add: aligned_offset_def checked_add_w_def checked_sub_def)
  moreover have "next_extent A (ar_extents a) = None" using assms(6,7) k(2) by (simp add: next_extent_None)
  ultimately have "fit_loop cfg (ar_base a) (2 * A) A (ar_extents a) 0 = Some (Inr (Inr A))" by (subst fit_loop.simps) simp
  moreover have "ends_within A A (ar_size a)" using sz assms(4) by (simp add: ends_within_iff)
  ultimately show ?thesis
    using p2 up Some assms(2,3,7,8) by (simp add: arena_allocate_def Let_def e_range_def e_end_def k(2))
qed

theorem arena_overaligned_overlaps_witness:
  "\<exists>a e a'. actives (ar_extents a) = {e} \<and> arena_allocate cfg_debug quiet_bounded 1 (2 ^ 22) a = Inr (Inr (ar_base a + 2 ^ 21), a') \<and>
    2 ^ 21 \<in> e_range e"
proof -
  let ?e = "granted (2 ^ 21) (2 ^ 22) 0"
  let ?es = "(replicate MAX_EXTENTS empty_extent)[0 := ?e]" let ?a = "small_arena\<lparr>ar_extents := ?es\<rparr>"
  have e: "e_offset ?e = 0" "e_end ?e = 2 * 2 ^ 21" "e_active ?e" "extent_ok (2 ^ 21) (2 ^ 24) ?e"
    by (simp_all add: granted_def e_end_def next_multiple_of_def extent_ok_def)
  have "table_ok (2 ^ 21) (2 ^ 24) ?es"
    by (rule table_ok_update [OF table_ok_empty e(4,3)]) (simp add: actives_def empty_extent_def)
  then have inv: "arena_inv ?a"
    using arena_reach_inv [OF small_arena_reach [of cfg_debug] quiet_mmap] by (simp add: arena_inv_def small_arena_def)
  have m: "MAX_EXTENTS = Suc 127" by (simp add: MAX_EXTENTS_def)
  have es: "?es = ?e # replicate 127 empty_extent" unfolding m replicate_Suc by simp
  have act: "actives (ar_extents ?a) = {?e}" using e(3) unfolding es by (auto simp: actives_def empty_extent_def)
  have "empty_extent \<in> set (ar_extents ?a)" "\<not> e_active empty_extent" unfolding es by (simp_all add: empty_extent_def)
  moreover have "ar_alignment ?a = 2 ^ 21" "(2::nat) ^ 21 \<le> 2 ^ 62" "ar_base ?a mod (2 * 2 ^ 21) = 2 ^ 21" by (simp_all add: small_arena_def)
  ultimately obtain a' where "arena_allocate cfg_debug quiet_bounded 1 (2 * 2 ^ 21) ?a = Inr (Inr (ar_base ?a + 2 ^ 21), a')" "2 ^ 21 \<in> e_range ?e"
    using arena_overaligned_overlaps [OF inv quiet_lock _ _ _ act e(1,2), of empty_extent cfg_debug] by blast
  moreover have "(2::nat) * 2 ^ 21 = 2 ^ 22" by simp
  ultimately show ?thesis using act by metis
qed

text \<open>
  A sysfs attribute holding a positive 64-bit number as the kernel prints it, in decimal with a
  newline, is read as that number.
\<close>

theorem sysfs_round_trip:
  assumes "0 < n" and "n < 2 ^ 64"
  shows "parse_sysfs_usize (decimal n @ ''\<newline>'') = Inr n"
proof -
  have "of_char c < (128::nat)" if "c \<in> set (decimal n)" for c
    using decimal_digits [OF that] by (auto simp: of_char_digit)
  then have "\<not> (\<exists>c\<in>set (decimal n @ ''\<newline>''). 128 \<le> (of_char c :: nat))" by (auto simp: not_le)
  then show ?thesis
    using assms parse_usize_decimal [OF assms(2)] by (auto simp: parse_sysfs_usize_def trim_decimal split: nat.splits)
qed

theorem sysfs_round_trip_witness: "parse_sysfs_usize (decimal 2097152 @ ''\<newline>'') = Inr 2097152"
  by (rule sysfs_round_trip) simp_all

end
