(* ===== verification/Preload.thy ===== *)
theory Preload
  imports Arena_Spec
begin

text \<open>
  The preload library (\<open>cxlalloc-preload/src/lib.rs\<close>, \<open>real.rs\<close>): the C allocation functions routed by
  size between the device arena and the libc allocator, the bump allocator that serves calls made
  before initialisation, and the byte-wise memory primitives. The libc allocator is a parameter.
\<close>

subsection \<open>State\<close>

type_synonym memory = "nat \<Rightarrow> 8 word"

record 'r world =
  w_real :: 'r
  w_mem :: memory
  w_errno :: int

text \<open>The functions \<open>RealAlloc\<close> resolves from libc, over libc's own state, memory and the error number; 0 is the null pointer.\<close>

record 'r libc =
  rl_malloc :: "nat \<Rightarrow> 'r world \<Rightarrow> nat \<times> 'r world"
  rl_calloc :: "nat \<Rightarrow> nat \<Rightarrow> 'r world \<Rightarrow> nat \<times> 'r world"
  rl_realloc :: "nat \<Rightarrow> nat \<Rightarrow> 'r world \<Rightarrow> nat \<times> 'r world"
  rl_free :: "nat \<Rightarrow> 'r world \<Rightarrow> 'r world"
  rl_memalign :: "nat \<Rightarrow> nat \<Rightarrow> 'r world \<Rightarrow> nat \<times> 'r world"
  rl_usable_size :: "nat \<Rightarrow> 'r world \<Rightarrow> nat"

record placement_policy =
  min_size :: nat

datatype backend_mode = Dax | DaxMmap | MmapMode

text \<open>
  \<open>State\<close> and the process-wide statics: \<open>pl_ready\<close> is \<open>INITIALIZED\<close>, \<open>pl_early\<close> the offset
  of the early buffer.
\<close>

record 'r preload =
  pl_world :: "'r world"
  pl_policy :: placement_policy
  pl_arena :: "arena option"
  pl_early :: nat
  pl_ready :: bool

definition EINVAL :: int where "EINVAL = 22"
definition ENOMEM :: int where "ENOMEM = 12"

definition set_errno :: "int \<Rightarrow> 'r preload \<Rightarrow> 'r preload" where
  "set_errno e s = s\<lparr>pl_world := (pl_world s)\<lparr>w_errno := e\<rparr>\<rparr>"

definition set_mem :: "memory \<Rightarrow> 'r preload \<Rightarrow> 'r preload" where
  "set_mem m s = s\<lparr>pl_world := (pl_world s)\<lparr>w_mem := m\<rparr>\<rparr>"

definition real_call :: "('r world \<Rightarrow> nat \<times> 'r world) \<Rightarrow> 'r preload \<Rightarrow> (nat \<times> 'r preload) res" where
  "real_call f s = (let (p, w) = f (pl_world s) in Inr (p, s\<lparr>pl_world := w\<rparr>))"

subsection \<open>Policy and initialisation\<close>

definition DEFAULT_MIN_SIZE :: nat where "DEFAULT_MIN_SIZE = 2 ^ 21"

text \<open>\<open>env\<close> is the process environment.\<close>

definition policy_from_env :: "(string \<Rightarrow> string option) \<Rightarrow> placement_policy" where
  "policy_from_env env = \<lparr>min_size = (case Option.bind (env ''CXLALLOC_MIN_SIZE'') parse_usize of
     None \<Rightarrow> DEFAULT_MIN_SIZE | Some n \<Rightarrow> n)\<rparr>"

definition uses_cxl :: "nat \<Rightarrow> placement_policy \<Rightarrow> bool" where
  "uses_cxl n pol \<longleftrightarrow> min_size pol \<le> n"

definition backend_parse :: "string option \<Rightarrow> string + backend_mode" where
  "backend_parse v = (let s = (case v of None \<Rightarrow> ''dax-mmap'' | Some s \<Rightarrow> s) in
     if s = ''dax'' then Inr Dax
     else if s = ''dax-mmap'' then Inr DaxMmap
     else if s = ''mmap'' then Inr MmapMode
     else Inl ''cxlalloc-preload: unsupported CXLALLOC_BACKEND\<newline>'')"

text \<open>\<open>dlsym\<close> says which symbols the dynamic linker finds.\<close>

definition real_resolve :: "(string \<Rightarrow> bool) \<Rightarrow> string + unit" where
  "real_resolve dlsym =
     (if \<forall>name\<in>set [''malloc'', ''calloc'', ''realloc'', ''free'', ''memalign'', ''valloc'', ''pvalloc'', ''malloc_usable_size''].
           dlsym name
      then Inr () else Inl ''cxlalloc-preload: failed to resolve libc allocator symbol'')"

definition ok_option :: "'e + 'a \<Rightarrow> 'a option" where
  "ok_option x = (case x of Inl _ \<Rightarrow> None | Inr v \<Rightarrow> Some v)"

definition state_from_env ::
  "system \<Rightarrow> (string \<Rightarrow> bool) \<Rightarrow> (string \<Rightarrow> string option) \<Rightarrow> string + (placement_policy \<times> arena option)" where
  "state_from_env sys dlsym env =
     andthen (real_resolve dlsym) (\<lambda>_.
     andthen (backend_parse (env ''CXLALLOC_BACKEND'')) (\<lambda>backend.
     let arena = (case backend of
         MmapMode \<Rightarrow>
           (let sz = (case Option.bind (env ''CXLALLOC_HEAP_SIZE'') parse_usize of None \<Rightarrow> 2 ^ 28 | Some n \<Rightarrow> n) in
            ok_option (new_anonymous sys sz DEFAULT_MIN_SIZE))
       | _ \<Rightarrow>
           (let devices = (case env ''CXLALLOC_DAX_DEVICES'' of None \<Rightarrow> ''/dev/dax0.0'' | Some d \<Rightarrow> d) in
            ok_option (arena_open sys (trim (takeWhile (\<lambda>c. c \<noteq> CHR '','') devices))))) in
     Inr (policy_from_env env, arena)))"

definition init :: "system \<Rightarrow> (string \<Rightarrow> bool) \<Rightarrow> (string \<Rightarrow> string option) \<Rightarrow> 'r preload \<Rightarrow> 'r preload" where
  "init sys dlsym env s = (case state_from_env sys dlsym env of
     Inl _ \<Rightarrow> s
   | Inr (pol, ar) \<Rightarrow> s\<lparr>pl_policy := pol, pl_arena := ar, pl_ready := True\<rparr>)"

definition state_owns :: "nat \<Rightarrow> 'r preload \<Rightarrow> bool" where
  "state_owns p s \<longleftrightarrow> (case pl_arena s of None \<Rightarrow> False | Some a \<Rightarrow> arena_owns p a)"

subsection \<open>Early allocations\<close>

definition EARLY_SIZE :: nat where "EARLY_SIZE = 2 ^ 23"

text \<open>\<open>eb\<close> is the address of the static buffer.\<close>

definition early_malloc :: "nat \<Rightarrow> nat \<Rightarrow> 'r preload \<Rightarrow> nat \<times> 'r preload" where
  "early_malloc eb n s = (case checked_add_w 64 (max n 16) 15 of
     None \<Rightarrow> (0, s)
   | Some v \<Rightarrow> let sz = clear_low v 16 in
       if ends_within (pl_early s) sz EARLY_SIZE then (eb + pl_early s, s\<lparr>pl_early := pl_early s + sz\<rparr>) else (0, s))"

definition is_early_pointer :: "nat \<Rightarrow> nat \<Rightarrow> bool" where
  "is_early_pointer eb p \<longleftrightarrow> eb \<le> p \<and> p < eb + EARLY_SIZE"

subsection \<open>Memory primitives\<close>

fun scalar_fill :: "nat \<Rightarrow> 8 word \<Rightarrow> nat \<Rightarrow> memory \<Rightarrow> memory" where
  "scalar_fill d v 0 m = m"
| "scalar_fill d v (Suc n) m = scalar_fill (d + 1) v n (m(d := v))"

fun scalar_copy :: "nat \<Rightarrow> nat \<Rightarrow> nat \<Rightarrow> memory \<Rightarrow> memory" where
  "scalar_copy d s 0 m = m"
| "scalar_copy d s (Suc n) m = scalar_copy (d + 1) (s + 1) n (m(d := m s))"

text \<open>\<open>rep stosb\<close> and \<open>rep movsb\<close> write one byte after the other; with the direction flag set, downwards from the end.\<close>

definition memset :: "nat \<Rightarrow> int \<Rightarrow> nat \<Rightarrow> memory \<Rightarrow> memory" where
  "memset d v n m = scalar_fill d (word_of_int v) n m"

definition memcpy :: "nat \<Rightarrow> nat \<Rightarrow> nat \<Rightarrow> memory \<Rightarrow> memory" where
  "memcpy d s n m = scalar_copy d s n m"

fun movsb_down :: "nat \<Rightarrow> nat \<Rightarrow> nat \<Rightarrow> memory \<Rightarrow> memory" where
  "movsb_down d s 0 m = m"
| "movsb_down d s (Suc n) m = movsb_down d s n (m(d + n := m (s + n)))"

definition memmove :: "nat \<Rightarrow> nat \<Rightarrow> nat \<Rightarrow> memory \<Rightarrow> memory" where
  "memmove d s n m = (if n = 0 \<or> d \<le> s then memcpy d s n m else movsb_down d s n m)"

subsection \<open>Routed allocation\<close>

definition routed_malloc :: "config \<Rightarrow> system \<Rightarrow> 'r libc \<Rightarrow> nat \<Rightarrow> 'r preload \<Rightarrow> (nat \<times> 'r preload) res" where
  "routed_malloc cfg sys L n s =
     (if \<not> uses_cxl n (pl_policy s) then real_call (rl_malloc L n) s
      else case pl_arena s of
        None \<Rightarrow> Inr (0, set_errno ENOMEM s)
      | Some a \<Rightarrow> andthen (arena_allocate cfg sys n 16 a) (\<lambda>(r, a').
          let s1 = s\<lparr>pl_arena := Some a'\<rparr> in
          case r of Inr p \<Rightarrow> Inr (p, s1) | Inl _ \<Rightarrow> Inr (0, set_errno ENOMEM s1)))"

definition routed_aligned_alloc :: "config \<Rightarrow> system \<Rightarrow> 'r libc \<Rightarrow> nat \<Rightarrow> nat \<Rightarrow> 'r preload \<Rightarrow> (nat \<times> 'r preload) res" where
  "routed_aligned_alloc cfg sys L al n s =
     (if \<not> is_power_of_two al then Inr (0, set_errno EINVAL s)
      else if \<not> uses_cxl n (pl_policy s) then real_call (rl_memalign L al n) s
      else case pl_arena s of
        None \<Rightarrow> Inr (0, set_errno ENOMEM s)
      | Some a \<Rightarrow> andthen (arena_allocate cfg sys n al a) (\<lambda>(r, a').
          let s1 = s\<lparr>pl_arena := Some a'\<rparr> in
          case r of
            Inr p \<Rightarrow> Inr (p, s1)
          | Inl e \<Rightarrow> Inr (0, set_errno (if e = InvalidAlignment then EINVAL else ENOMEM) s1)))"

definition routed_valloc :: "config \<Rightarrow> system \<Rightarrow> 'r libc \<Rightarrow> nat \<Rightarrow> 'r preload \<Rightarrow> (nat \<times> 'r preload) res" where
  "routed_valloc cfg sys L n s = routed_aligned_alloc cfg sys L (arena_page_size sys) n s"

definition routed_free :: "system \<Rightarrow> 'r libc \<Rightarrow> nat \<Rightarrow> nat \<Rightarrow> 'r preload \<Rightarrow> 'r preload" where
  "routed_free sys L eb p s =
     (if p = 0 \<or> is_early_pointer eb p then s
      else case pl_arena s of
        Some a \<Rightarrow>
          if arena_owns p a then (case arena_deallocate sys p a of
              (Inr _, a') \<Rightarrow> s\<lparr>pl_arena := Some a'\<rparr>
            | (Inl _, a') \<Rightarrow> set_errno EINVAL (s\<lparr>pl_arena := Some a'\<rparr>))
          else s\<lparr>pl_world := rl_free L p (pl_world s)\<rparr>
      | None \<Rightarrow> s\<lparr>pl_world := rl_free L p (pl_world s)\<rparr>)"

definition checked_mul_w :: "nat \<Rightarrow> nat \<Rightarrow> nat option" where
  "checked_mul_w a b = (if a * b < 2 ^ 64 then Some (a * b) else None)"

definition routed_calloc :: "config \<Rightarrow> system \<Rightarrow> 'r libc \<Rightarrow> nat \<Rightarrow> nat \<Rightarrow> 'r preload \<Rightarrow> (nat \<times> 'r preload) res" where
  "routed_calloc cfg sys L count n s = (case checked_mul_w count n of
     None \<Rightarrow> Inr (0, set_errno ENOMEM s)
   | Some all_bytes \<Rightarrow>
       if \<not> uses_cxl all_bytes (pl_policy s) then real_call (rl_calloc L count n) s
       else andthen (routed_malloc cfg sys L all_bytes s) (\<lambda>(p, s1).
         Inr (p, if p \<noteq> 0 then set_mem (scalar_fill p 0 all_bytes (w_mem (pl_world s1))) s1 else s1)))"

definition arena_size_of :: "system \<Rightarrow> nat \<Rightarrow> 'r preload \<Rightarrow> nat" where
  "arena_size_of sys p s = (case Option.bind (pl_arena s) (allocation_size sys p) of None \<Rightarrow> 0 | Some n \<Rightarrow> n)"

definition routed_realloc :: "config \<Rightarrow> system \<Rightarrow> 'r libc \<Rightarrow> nat \<Rightarrow> nat \<Rightarrow> nat \<Rightarrow> 'r preload \<Rightarrow> (nat \<times> 'r preload) res" where
  "routed_realloc cfg sys L eb p n s =
     (if p = 0 then routed_malloc cfg sys L n s
      else if n = 0 then Inr (0, routed_free sys L eb p s)
      else if is_early_pointer eb p then
        andthen (routed_malloc cfg sys L n s) (\<lambda>(q, s1).
          Inr (q, if q \<noteq> 0 then set_mem (scalar_copy q p (min n (EARLY_SIZE - (p - eb))) (w_mem (pl_world s1))) s1 else s1))
      else if \<not> state_owns p s \<and> \<not> uses_cxl n (pl_policy s) then real_call (rl_realloc L p n) s
      else
        let old = (if state_owns p s then arena_size_of sys p s else rl_usable_size L p (pl_world s)) in
        andthen (routed_malloc cfg sys L n s) (\<lambda>(q, s1).
          if q = 0 then Inr (0, s1)
          else Inr (q, routed_free sys L eb p (set_mem (scalar_copy q p (min old n) (w_mem (pl_world s1))) s1))))"

subsection \<open>The C interface\<close>

definition c_malloc :: "config \<Rightarrow> system \<Rightarrow> 'r libc \<Rightarrow> nat \<Rightarrow> nat \<Rightarrow> 'r preload \<Rightarrow> (nat \<times> 'r preload) res" where
  "c_malloc cfg sys L eb n s = (if pl_ready s then routed_malloc cfg sys L n s else Inr (early_malloc eb n s))"

definition c_free :: "system \<Rightarrow> 'r libc \<Rightarrow> nat \<Rightarrow> nat \<Rightarrow> 'r preload \<Rightarrow> 'r preload" where
  "c_free sys L eb p s = (if pl_ready s then routed_free sys L eb p s else s)"

definition c_calloc :: "config \<Rightarrow> system \<Rightarrow> 'r libc \<Rightarrow> nat \<Rightarrow> nat \<Rightarrow> nat \<Rightarrow> 'r preload \<Rightarrow> (nat \<times> 'r preload) res" where
  "c_calloc cfg sys L eb count n s =
     (if pl_ready s then routed_calloc cfg sys L count n s
      else let all_bytes = (case checked_mul_w count n of None \<Rightarrow> 2 ^ 64 - 1 | Some x \<Rightarrow> x); (p, s1) = early_malloc eb all_bytes s in
        Inr (p, if p \<noteq> 0 then set_mem (scalar_fill p 0 all_bytes (w_mem (pl_world s1))) s1 else s1))"

definition c_realloc :: "config \<Rightarrow> system \<Rightarrow> 'r libc \<Rightarrow> nat \<Rightarrow> nat \<Rightarrow> nat \<Rightarrow> 'r preload \<Rightarrow> (nat \<times> 'r preload) res" where
  "c_realloc cfg sys L eb p n s = (if pl_ready s then routed_realloc cfg sys L eb p n s else Inr (0, s))"

definition c_memalign :: "config \<Rightarrow> system \<Rightarrow> 'r libc \<Rightarrow> nat \<Rightarrow> nat \<Rightarrow> nat \<Rightarrow> 'r preload \<Rightarrow> (nat \<times> 'r preload) res" where
  "c_memalign cfg sys L eb al n s =
     (if pl_ready s then routed_aligned_alloc cfg sys L al n s else Inr (early_malloc eb n s))"

text \<open>The pointer is stored through \<open>output\<close>; here it is returned beside the error number.\<close>

definition posix_memalign ::
  "config \<Rightarrow> system \<Rightarrow> 'r libc \<Rightarrow> nat \<Rightarrow> nat \<Rightarrow> nat \<Rightarrow> nat \<Rightarrow> 'r preload \<Rightarrow> ((int \<times> nat option) \<times> 'r preload) res" where
  "posix_memalign cfg sys L eb output al n s =
     (if output = 0 \<or> al < 8 \<or> \<not> is_power_of_two al then Inr ((EINVAL, None), s)
      else andthen (c_memalign cfg sys L eb al n s) (\<lambda>(p, s1).
        Inr (if p = 0 then (ENOMEM, None) else (0, Some p), s1)))"

definition c_aligned_alloc :: "config \<Rightarrow> system \<Rightarrow> 'r libc \<Rightarrow> nat \<Rightarrow> nat \<Rightarrow> nat \<Rightarrow> 'r preload \<Rightarrow> (nat \<times> 'r preload) res" where
  "c_aligned_alloc cfg sys L eb al n s =
     (if al = 0 \<or> n mod al \<noteq> 0 then Inr (0, set_errno EINVAL s) else c_memalign cfg sys L eb al n s)"

definition c_valloc :: "config \<Rightarrow> system \<Rightarrow> 'r libc \<Rightarrow> nat \<Rightarrow> nat \<Rightarrow> 'r preload \<Rightarrow> (nat \<times> 'r preload) res" where
  "c_valloc cfg sys L eb n s = (if pl_ready s then routed_valloc cfg sys L n s else Inr (early_malloc eb n s))"

definition c_pvalloc :: "config \<Rightarrow> system \<Rightarrow> 'r libc \<Rightarrow> nat \<Rightarrow> nat \<Rightarrow> 'r preload \<Rightarrow> (nat \<times> 'r preload) res" where
  "c_pvalloc cfg sys L eb n s = (let page = arena_page_size sys in
     case checked_add_w 64 n (page - 1) of
       None \<Rightarrow> Inr (0, set_errno ENOMEM s)
     | Some v \<Rightarrow> c_valloc cfg sys L eb (clear_low v page) s)"

definition c_malloc_usable_size :: "system \<Rightarrow> 'r libc \<Rightarrow> nat \<Rightarrow> nat \<Rightarrow> 'r preload \<Rightarrow> nat" where
  "c_malloc_usable_size sys L eb p s =
     (if p = 0 \<or> is_early_pointer eb p \<or> \<not> pl_ready s then 0
      else if state_owns p s then arena_size_of sys p s
      else rl_usable_size L p (pl_world s))"

end
