(* ===== verification/Preload_Spec.thy ===== *)
theory Preload_Spec
  imports Preload
begin

text \<open>
  What the preload library promises its callers: the byte-wise copies compute the simultaneous copy,
  a request at or above the threshold is served by the device or refused and never by libc, and
  growing or shrinking a device allocation keeps its contents.
\<close>

subsection \<open>Memory primitives\<close>

lemma scalar_fill_eq: "scalar_fill d v n m = (\<lambda>x. if d \<le> x \<and> x < d + n then v else m x)"
  by (induction n arbitrary: d m) (auto simp: fun_eq_iff)

text \<open>Copying upwards is right when no source byte is overwritten before it is read.\<close>

lemma scalar_copy_eq:
  assumes "d \<le> s \<or> s + n \<le> d"
  shows "scalar_copy d s n m = (\<lambda>x. if d \<le> x \<and> x < d + n then m (s + (x - d)) else m x)"
  using assms
proof (induction n arbitrary: d s m)
  case (Suc n)
  have "scalar_copy d s (Suc n) m = (\<lambda>x. if d + 1 \<le> x \<and> x < d + 1 + n then (m(d := m s)) (s + 1 + (x - (d + 1))) else (m(d := m s)) x)"
    unfolding scalar_copy.simps by (rule Suc.IH) (use Suc.prems in auto)
  also have "\<dots> = (\<lambda>x. if d \<le> x \<and> x < d + Suc n then m (s + (x - d)) else m x)"
    using Suc.prems by (intro ext) (auto simp: le_Suc_eq Suc_diff_Suc intro!: arg_cong [of _ _ m])
  finally show ?case .
qed (auto simp: fun_eq_iff)

lemma movsb_down_eq:
  assumes "s \<le> d"
  shows "movsb_down d s n m = (\<lambda>x. if d \<le> x \<and> x < d + n then m (s + (x - d)) else m x)"
  using assms
proof (induction n arbitrary: m)
  case (Suc n)
  have "movsb_down d s (Suc n) m =
      (\<lambda>x. if d \<le> x \<and> x < d + n then (m(d + n := m (s + n))) (s + (x - d)) else (m(d + n := m (s + n))) x)"
    unfolding movsb_down.simps by (rule Suc.IH [OF Suc.prems])
  also have "\<dots> = (\<lambda>x. if d \<le> x \<and> x < d + Suc n then m (s + (x - d)) else m x)"
    using Suc.prems by (intro ext) (auto simp: less_Suc_eq)
  finally show ?case .
qed (auto simp: fun_eq_iff)

subsection \<open>Device requests\<close>

lemma pow2_16: "is_power_of_two 16"
  unfolding is_power_of_two_def by (rule bexI [of _ 4]) simp_all

text \<open>The arena of a running process, in a state where the mutex can be locked.\<close>

definition device_ready :: "config \<Rightarrow> system \<Rightarrow> arena \<Rightarrow> bool" where
  "device_ready cfg sys a \<longleftrightarrow> arena_reach cfg sys a \<and> mmap_ok sys \<and> arena_lock sys = Inr () \<and> 16 \<le> ar_alignment a"

definition request_ok :: "nat \<Rightarrow> arena \<Rightarrow> bool" where
  "request_ok n a \<longleftrightarrow> max n 1 + ar_alignment a \<le> 2 ^ 63"

lemma device_allocate:
  assumes ready: "device_ready cfg sys a" and n: "request_ok n a"
  shows "arena_allocate cfg sys n 16 a = Inr (arena_spec n a)"
proof -
  have inv: "arena_inv a" using ready arena_reach_inv by (auto simp: device_ready_def)
  then obtain k where k: "ar_alignment a = 2 ^ k" "0 < ar_base a" "ar_base a + ar_size a \<le> 2 ^ 63" by (rule arena_invD)
  have "next_multiple_of (max n 1) (ar_alignment a) < max n 1 + ar_alignment a" using k(1) by (intro next_multiple_of_less) simp
  then have "max n 1 + (ar_alignment a - 1) < 2 ^ 64" "ar_size a + next_multiple_of (max n 1) (ar_alignment a) < 2 ^ 64"
    using n k(2,3) by (auto simp: request_ok_def simp del: max_less_iff_conj max.bounded_iff)
  then show ?thesis using arena_allocate_spec [OF inv _ pow2_16] ready by (simp add: device_ready_def)
qed

lemma device_reach:
  assumes "device_ready cfg sys a" and "arena_allocate cfg sys n 16 a = Inr (r, a')"
  shows "device_ready cfg sys a'"
proof -
  have inv: "arena_inv a" using assms(1) arena_reach_inv by (auto simp: device_ready_def)
  have "arena_reach cfg sys a'" using arena_reach.allocate [OF _ pow2_16 _ assms(2)] assms(1) by (simp add: device_ready_def)
  moreover have "ar_alignment a' = ar_alignment a"
  proof (cases r)
    case (Inl e)
    then show ?thesis using arena_allocate_Err assms(2) by blast
  next
    case (Inr p)
    then have "arena_spec n a = (Inr p, a')" using arena_allocate_Ok(1) [OF inv pow2_16] assms by (simp add: device_ready_def)
    then show ?thesis by (auto simp: arena_spec_def split: option.splits)
  qed
  ultimately show ?thesis using assms(1) by (simp add: device_ready_def)
qed

lemma routed_malloc_device:
  assumes ready: "device_ready cfg sys a" "pl_arena s = Some a" and n: "request_ok n a" "uses_cxl n (pl_policy s)"
  shows "(\<exists>c a'. arena_spec n a = (Inr (ar_base a + c), a') \<and> routed_malloc cfg sys L n s = Inr (ar_base a + c, s\<lparr>pl_arena := Some a'\<rparr>) \<and>
      device_ready cfg sys a' \<and> arena_inv a' \<and> ar_base a' = ar_base a \<and> ar_size a' = ar_size a \<and> c + max n 1 \<le> ar_size a \<and> ar_alignment a dvd ar_base a + c \<and>
      actives (ar_extents a') = insert (granted (ar_alignment a) n c) (actives (ar_extents a)) \<and>
      (\<forall>e\<in>actives (ar_extents a). e_range (granted (ar_alignment a) n c) \<inter> e_range e = {})) \<or>
    routed_malloc cfg sys L n s = Inr (0, set_errno ENOMEM s)"
proof -
  have inv: "arena_inv a" using ready(1) arena_reach_inv by (auto simp: device_ready_def)
  obtain r a' where r: "arena_spec n a = (r, a')" by fastforce
  have eq: "arena_allocate cfg sys n 16 a = Inr (r, a')" using device_allocate [OF ready(1) n(1)] r by simp
  show ?thesis
  proof (cases r)
    case (Inl e)
    then have "a' = a" using arena_allocate_Err eq by blast
    have upd: "s\<lparr>pl_arena := Some a\<rparr> = s" using ready(2) by (cases s) simp
    have "routed_malloc cfg sys L n s = Inr (0, set_errno ENOMEM s)" using ready(2) n(2) eq Inl \<open>a' = a\<close> by (simp add: routed_malloc_def upd)
    then show ?thesis by blast
  next
    case (Inr p)
    have "ar_base a' = ar_base a" "ar_size a' = ar_size a" using r Inr by (auto simp: arena_spec_def split: option.splits)
    moreover obtain c where "p = ar_base a + c" "arena_inv a'" "ar_alignment a dvd p" "c + max n 1 \<le> ar_size a"
      "actives (ar_extents a') = insert (granted (ar_alignment a) n c) (actives (ar_extents a))"
      "\<forall>e\<in>actives (ar_extents a). e_range (granted (ar_alignment a) n c) \<inter> e_range e = {}"
      using arena_spec_ok [OF inv] r Inr by blast
    ultimately show ?thesis
      using ready(2) n(2) eq Inr r device_reach [OF ready(1) eq] by (intro disjI1 exI [of _ c] exI [of _ a']) (simp add: routed_malloc_def)
  qed
qed

subsection \<open>Properties\<close>

text \<open>
  C24: the forward and the backward byte loops of \<open>memmove\<close> compute the simultaneous copy, for any
  overlap of source and destination, and change no byte outside the destination.
\<close>

theorem memmove_simultaneous:
  "memmove d s n m = (\<lambda>x. if d \<le> x \<and> x < d + n then m (s + (x - d)) else m x)"
proof (cases "n = 0 \<or> d \<le> s")
  case True
  then show ?thesis using scalar_copy_eq [of d s n m] by (auto simp: memmove_def memcpy_def fun_eq_iff)
next
  case False
  then show ?thesis using movsb_down_eq [of s d n m] by (simp add: memmove_def)
qed

text \<open>
  C20: a request at or above the threshold never spills into DRAM: with a device arena, \<open>malloc\<close>
  returns either a pointer into the arena, aligned to the arena's alignment, whose bytes lie in the
  arena and overlap no extent in use, or null with \<open>ENOMEM\<close>; libc and memory are untouched.
\<close>

theorem large_requests_stay_on_device:
  assumes "device_ready cfg sys a" and "pl_arena s = Some a" and "request_ok n a" and "uses_cxl n (pl_policy s)"
  shows "\<exists>p s'. routed_malloc cfg sys L n s = Inr (p, s') \<and> w_real (pl_world s') = w_real (pl_world s) \<and> w_mem (pl_world s') = w_mem (pl_world s) \<and>
    (p = 0 \<and> pl_arena s' = Some a \<and> w_errno (pl_world s') = ENOMEM \<or>
     state_owns p s' \<and> ar_alignment a dvd p \<and> p + max n 1 \<le> ar_base a + ar_size a \<and>
     (\<forall>e\<in>actives (ar_extents a). {p..<p + max n 1} \<inter> {ar_base a + e_offset e..<ar_base a + e_end e} = {}))"
  using routed_malloc_device [OF assms, of L]
proof (elim disjE exE conjE)
  fix c a'
  assume a: "routed_malloc cfg sys L n s = Inr (ar_base a + c, s\<lparr>pl_arena := Some a'\<rparr>)" "ar_base a' = ar_base a" "ar_size a' = ar_size a"
    "c + max n 1 \<le> ar_size a" "ar_alignment a dvd ar_base a + c"
    and dis: "\<forall>e\<in>actives (ar_extents a). e_range (granted (ar_alignment a) n c) \<inter> e_range e = {}"
  have "max n 1 \<le> next_multiple_of (max n 1) (ar_alignment a)"
    using assms(1) by (intro next_multiple_of_ge) (simp add: device_ready_def)
  then have sub: "{c..<c + max n 1} \<subseteq> e_range (granted (ar_alignment a) n c)" by (auto simp: e_range_def e_end_def granted_def)
  have "{ar_base a + c..<ar_base a + c + max n 1} \<inter> {ar_base a + e_offset e..<ar_base a + e_end e} = {}" if "e \<in> actives (ar_extents a)" for e
  proof -
    have "x - ar_base a \<in> {c..<c + max n 1} \<inter> e_range e"
      if "x \<in> {ar_base a + c..<ar_base a + c + max n 1} \<inter> {ar_base a + e_offset e..<ar_base a + e_end e}" for x
      using that by (auto simp: e_range_def)
    then show ?thesis using sub dis \<open>e \<in> actives (ar_extents a)\<close> by blast
  qed
  moreover have "state_owns (ar_base a + c) (s\<lparr>pl_arena := Some a'\<rparr>)"
    using a(2-4) by (simp add: state_owns_def arena_owns_def pointer_offset_def checked_sub_def)
  ultimately show ?thesis using a by (intro exI [of _ "ar_base a + c"] exI [of _ "s\<lparr>pl_arena := Some a'\<rparr>"]) simp
qed (use assms(2) in \<open>simp add: set_errno_def\<close>)

text \<open>A concrete process: a libc that always fails, a fresh arena, the default threshold.\<close>

definition no_libc :: "unit libc" where
  "no_libc = \<lparr>rl_malloc = (\<lambda>_ w. (0, w)), rl_calloc = (\<lambda>_ _ w. (0, w)), rl_realloc = (\<lambda>_ _ w. (0, w)), rl_free = (\<lambda>_ w. w),
     rl_memalign = (\<lambda>_ _ w. (0, w)), rl_usable_size = (\<lambda>_ _. 0)\<rparr>"

definition preloaded :: "arena \<Rightarrow> unit preload" where
  "preloaded a = \<lparr>pl_world = \<lparr>w_real = (), w_mem = (\<lambda>x. of_nat x), w_errno = 0\<rparr>, pl_policy = \<lparr>min_size = DEFAULT_MIN_SIZE\<rparr>,
     pl_arena = Some a, pl_early = 0, pl_ready = True\<rparr>"

lemma small_arena_ready: "device_ready cfg_debug quiet_bounded small_arena"
  using small_arena_reach quiet_mmap quiet_lock by (simp add: device_ready_def small_arena_def)

lemma request_ok_small: "request_ok (2 ^ 22) small_arena"
  by (simp add: request_ok_def small_arena_def)

theorem large_requests_stay_on_device_witness:
  "\<exists>p s'. routed_malloc cfg_debug quiet_bounded no_libc (2 ^ 22) (preloaded small_arena) = Inr (p, s') \<and> (p = 0 \<or> state_owns p s')"
proof -
  have "uses_cxl (2 ^ 22) (pl_policy (preloaded small_arena))" by (simp add: uses_cxl_def preloaded_def DEFAULT_MIN_SIZE_def)
  then show ?thesis
    using large_requests_stay_on_device [OF small_arena_ready, of "preloaded small_arena" "2 ^ 22" no_libc] request_ok_small
    by (force simp: preloaded_def)
qed

text \<open>
  C23: resizing a device allocation to another size at or above the threshold, when it succeeds, keeps
  the contents up to the smaller of the two sizes, hands out a new extent, releases the old one, and
  does not involve libc.
\<close>

theorem device_realloc_keeps_contents:
  assumes "device_ready cfg sys a" and "pl_arena s = Some a" and "request_ok n a" and "uses_cxl n (pl_policy s)" and "0 < n"
    and "e \<in> actives (ar_extents a)" and "\<not> is_early_pointer eb (ar_base a + e_offset e)"
    and "routed_realloc cfg sys L eb (ar_base a + e_offset e) n s = Inr (q, s')" and "q \<noteq> 0"
  shows "(\<forall>i < min (e_requested_len e) n. w_mem (pl_world s') (q + i) = w_mem (pl_world s) (ar_base a + e_offset e + i)) \<and>
    w_real (pl_world s') = w_real (pl_world s) \<and>
    (\<exists>a' g. pl_arena s' = Some a' \<and> actives (ar_extents a') = insert g (actives (ar_extents a) - {e}) \<and>
      q = ar_base a + e_offset g \<and> e_requested_len g = n)"
proof -
  let ?p = "ar_base a + e_offset e" and ?old = "e_requested_len e"
  have inv: "arena_inv a" and lock: "arena_lock sys = Inr ()" using assms(1) arena_reach_inv by (auto simp: device_ready_def)
  have p0: "0 < ar_base a" using inv by (simp add: arena_inv_def)
  obtain a0 where as: "allocation_size sys ?p a = Some ?old" "pointer_offset ?p a = Some (e_offset e)"
    by (rule arena_deallocate_ok [OF inv lock assms(6)])
  then have own: "state_owns ?p s" "arena_size_of sys ?p s = ?old" using assms(2) by (simp_all add: state_owns_def arena_owns_def arena_size_of_def)
  have step: "routed_realloc cfg sys L eb ?p n s = andthen (routed_malloc cfg sys L n s) (\<lambda>(q, s1).
      if q = 0 then Inr (0, s1)
      else Inr (q, routed_free sys L eb ?p (set_mem (scalar_copy q ?p (min ?old n) (w_mem (pl_world s1))) s1)))"
    using p0 assms(5,7) own by (simp add: routed_realloc_def)
  obtain c a' where m: "routed_malloc cfg sys L n s = Inr (ar_base a + c, s\<lparr>pl_arena := Some a'\<rparr>)" "arena_inv a'" "ar_base a' = ar_base a"
    "actives (ar_extents a') = insert (granted (ar_alignment a) n c) (actives (ar_extents a))"
    "\<forall>e\<in>actives (ar_extents a). e_range (granted (ar_alignment a) n c) \<inter> e_range e = {}"
    using routed_malloc_device [OF assms(1-4), of L] step assms(8,9) by (auto simp: set_errno_def)
  let ?g = "granted (ar_alignment a) n c" and ?m = "scalar_copy (ar_base a + c) ?p (min ?old n) (w_mem (pl_world s))"
  have e': "e \<in> actives (ar_extents a')" using m(4) assms(6) by simp
  obtain a'' where d: "arena_deallocate sys ?p a' = (Inr (), a'')" "actives (ar_extents a'') = actives (ar_extents a') - {e}"
    "pointer_offset ?p a' = Some (e_offset e)" using arena_deallocate_ok [OF m(2) lock e'] unfolding m(3) by blast
  have s': "s' = (set_mem ?m s)\<lparr>pl_arena := Some a''\<rparr>" "q = ar_base a + c"
    using step assms(8) m(1) p0 assms(7,9) d by (auto simp: routed_free_def arena_owns_def set_mem_def)
  have ok: "extent_ok (ar_alignment a) (ar_size a) e" using inv assms(6) by (simp add: arena_inv_def table_ok_def)
  have n: "n \<le> e_rounded_len ?g" using next_multiple_of_ge [of "ar_alignment a" "max n 1"] assms(1) by (simp add: granted_def device_ready_def)
  have g: "e_offset ?g = c" "e_requested_len ?g = n" using assms(5) by (simp_all add: granted_def)
  have "c + min ?old n \<le> e_offset e \<or> e_offset e + min ?old n \<le> c"
  proof (rule ccontr)
    assume "\<not> ?thesis"
    then have "max c (e_offset e) \<in> e_range ?g \<inter> e_range e" using n ok g(1) by (auto simp: e_range_def e_end_def extent_ok_def)
    then show False using m(5) assms(6) by blast
  qed
  then have "?m = (\<lambda>x. if ar_base a + c \<le> x \<and> x < ar_base a + c + min ?old n then w_mem (pl_world s) (?p + (x - (ar_base a + c))) else w_mem (pl_world s) x)"
    by (intro scalar_copy_eq) auto
  moreover have "?g \<noteq> e" using m(5) assms(6) extent_okD(1) [OF ok] by auto
  ultimately show ?thesis using d(2) m(4) g unfolding s' by (auto simp: set_mem_def intro!: exI [of _ ?g])
qed

definition used_arena :: arena where
  "used_arena = small_arena\<lparr>ar_extents := (replicate MAX_EXTENTS empty_extent)[0 := granted (2 ^ 21) 5 0]\<rparr>"

lemma used_arena_extents: "ar_extents used_arena = granted (2 ^ 21) 5 0 # replicate 127 empty_extent"
proof -
  have m: "MAX_EXTENTS = Suc 127" by (simp add: MAX_EXTENTS_def)
  show ?thesis unfolding used_arena_def m replicate_Suc by simp
qed

lemma used_arena_ready: "device_ready cfg_debug quiet_bounded used_arena"
proof -
  have "arena_reach cfg_debug quiet_bounded used_arena"
    unfolding used_arena_def using arena_reach.allocate [OF small_arena_reach pow2_21 _ small_arena_allocated] by (simp add: small_arena_def)
  then show ?thesis using quiet_mmap quiet_lock by (simp add: device_ready_def used_arena_def small_arena_def)
qed

lemma used_arena_spec: "\<exists>a'. arena_spec (2 ^ 21) used_arena = (Inr (2 ^ 22), a')"
proof -
  let ?es = "ar_extents used_arena"
  have "position (\<lambda>e. \<not> e_active e) ?es = Some 1"
    unfolding used_arena_extents by (simp add: position_Some granted_def empty_extent_def)
  moreover have "first_fit (2 ^ 21) (2 ^ 24) (2 ^ 21) ?es = Some (2 ^ 21)"
    unfolding used_arena_extents
    by (subst first_fit_eq [of _ "2 ^ 21"]) (auto simp: clear_at_def empty_extent_def granted_def e_end_def next_multiple_of_def)
  moreover have "next_multiple_of (2 ^ 21) (2 ^ 21) = 2 ^ 21" by (simp add: next_multiple_of_def)
  ultimately show ?thesis by (simp add: arena_spec_def used_arena_def small_arena_def)
qed

theorem device_realloc_keeps_contents_witness:
  "\<exists>q s'. routed_realloc cfg_debug quiet_bounded no_libc (2 ^ 40) (2 ^ 21) (2 ^ 21) (preloaded used_arena) = Inr (q, s') \<and>
    (\<forall>i<5. w_mem (pl_world s') (q + i) = w_mem (pl_world (preloaded used_arena)) (2 ^ 21 + i))"
proof -
  let ?s = "preloaded used_arena" and ?e = "granted (2 ^ 21) 5 0"
  have a: "pl_arena ?s = Some used_arena" "uses_cxl (2 ^ 21) (pl_policy ?s)" "request_ok (2 ^ 21) used_arena"
    by (simp_all add: preloaded_def uses_cxl_def DEFAULT_MIN_SIZE_def request_ok_def used_arena_def small_arena_def)
  have e: "?e \<in> actives (ar_extents used_arena)" unfolding used_arena_extents by (simp add: actives_def granted_def)
  have p: "ar_base used_arena + e_offset ?e = 2 ^ 21" "e_requested_len ?e = 5" by (simp_all add: used_arena_def small_arena_def granted_def)
  have early: "\<not> is_early_pointer (2 ^ 40) (ar_base used_arena + e_offset ?e)" unfolding p by (simp add: is_early_pointer_def)
  obtain q1 s1 where m: "routed_malloc cfg_debug quiet_bounded no_libc (2 ^ 21) ?s = Inr (q1, s1)" "q1 \<noteq> 0"
    using routed_malloc_def [of cfg_debug quiet_bounded no_libc "2 ^ 21" ?s] a device_allocate [OF used_arena_ready a(3)] used_arena_spec by auto
  have "state_owns (2 ^ 21) ?s" using a(1)
    by (simp add: state_owns_def arena_owns_def pointer_offset_def checked_sub_def used_arena_def small_arena_def)
  then obtain s' where r: "routed_realloc cfg_debug quiet_bounded no_libc (2 ^ 40) (2 ^ 21) (2 ^ 21) ?s = Inr (q1, s')"
    using m early unfolding p by (simp add: routed_realloc_def)
  from device_realloc_keeps_contents [OF used_arena_ready a(1,3,2) _ e early, of no_libc q1 s'] r m(2) show ?thesis
    unfolding p by auto
qed

end
