(* ===== verification/Spec2Isabelle.thy ===== *)
theory Spec2Isabelle
  imports Cas_Steps Recover Stat Relative Cache Crash Allocator_Spec Region_Spec Process_Spec Mcas Preload_Spec
begin

text \<open>
  A verification development of cxlalloc, a memory allocator for memory that several processes, or
  machines over CXL, share and that survives the crash of any of them.

  \<^bold>\<open>The program.\<close> Memory is divided into slabs of 32 KiB (small heap, \<open>cxlalloc/src/heap.rs\<close> with
  \<open>size/small.rs\<close>) and 512 KiB (large heap, \<open>size/large.rs\<close>). A slab holds blocks of one size class; a bitset
  in its local descriptor, written by the owning thread only, holds the free blocks, a counter in its
  remote descriptor, updated by compare-and-swap, the blocks other threads have not freed. Slabs move
  between the bump pointer and the global stack (shared), a thread's unsized stack, its sized stacks (one per
  class) and the detached state. Larger requests are served by the huge heap (\<open>huge.rs\<close>), which claims address
  space in slots of a gigabyte. \<open>allocator.rs\<close> puts the three behind one interface. Threads log what they
  are doing, so that \<open>recover.rs\<close> can finish or undo it after a crash; shared cells are updated with the
  detectable compare-and-swap of \<open>cas.rs\<close>. \<open>raw.rs\<close> and \<open>raw/region.rs\<close> create the regions of a heap on one of the backends of
  \<open>extern/shm\<close>, and map further segments when an access faults. \<open>cxlalloc-static\<close> and \<open>cxlalloc-global\<close> are the C and the Rust
  interface to one heap per process. \<open>cxlalloc-preload\<close> is a second program in the
  repository: it replaces the C allocation functions and serves large requests from a device arena.

  \<^bold>\<open>Conventions.\<close> Every operation of the code is a function of the same name (prefixed by its type where names
  clash). A panic, a failed assertion and an unsafe access outside its precondition are values of \<open>panic\<close>, and
  fallible operations return \<open>'a res = panic + 'a\<close>, composed with \<open>andthen\<close> (\<open>Prelude\<close>). The build profile and the
  tunables are a \<open>config\<close>: overflow checks, validation, and the batch sizes of \<open>lib.rs\<close>. Bit sets and flags are machine
  words; sizes, offsets and counters are natural numbers with the bound or the wrap-around of their width written
  out where the code can reach it (\<open>add_w\<close>, \<open>sub_w\<close>, \<open>next_multiple_of_w\<close>). State that several threads share is
  passed explicitly; the heap operations of one call run without interleaving, while \<open>Cas_Steps\<close> interleaves the
  single accesses of the cells they are built from.

  \<^bold>\<open>The theories, bottom up.\<close>

  \<^item> \<open>Prelude\<close>: the result type, the configuration, arithmetic of fixed width, generic lemmas.
  \<^item> \<open>Bitset\<close> (\<open>bitset.rs\<close>): the two-level bitset, word by word. It implements a set of blocks (locale \<open>free_set\<close>,
    interpreted as \<open>bs\<close>): filling and draining yields every block once, and \<open>unset\<close> is shown to keep the two levels
    consistent only for the first row, which is the only way the heap calls it.
  \<^item> \<open>Size\<close>, \<open>Bracket\<close> (\<open>size.rs\<close>, \<open>size/\<close>): class selection and the bracket interface of a heap, as the
    locale \<open>bracket_laws\<close> with the interpretations \<open>small\<close> and \<open>large\<close>; the heap theories are proved once for any bracket.
  \<^item> \<open>Data\<close> (\<open>data.rs\<close>, \<open>slab.rs\<close>): blocks, slabs, offsets and pointers, and that they convert back and forth.
  \<^item> \<open>Cas\<close>, \<open>Cas_Steps\<close> (\<open>cas.rs\<close>): the detectable cell as functions, and as a step relation in which every access of
    every thread is a step and threads crash: values change as if each committed update were atomic,
    detection after a crash is exact for a version that appears nowhere, and an undisturbed update ends.
    Two ways in which a version does appear elsewhere are exhibited, with their consequence.
  \<^item> \<open>Slab\<close>, \<open>Heap\<close> (\<open>slab/\<close>, \<open>heap.rs\<close>): descriptors, linked stacks and all heap operations. \<open>Heap_View\<close> reduces
    each to its effect on a view of the heap; \<open>Heap_Inv\<close> states the invariant with ghost state (which list each stack
    holds, where each slab is, which blocks are live); \<open>Heap_Ops\<close> and \<open>Heap_Free\<close> show that allocation and
    free keep it and do not fail; \<open>Pool\<close> concludes that a heap refines a pool of disjoint blocks.
  \<^item> \<open>Recover\<close> (\<open>recover.rs\<close>): recovery of a heap from the log, at the crash points of the operations it covers.
  \<^item> \<open>Stat\<close> (\<open>stat.rs\<close>): event and memory recorders, sloppy counters, reports.
  \<^item> \<open>Intervals\<close>: the interface of the \<open>interval\<close> crate, which is not in the repository, as the record \<open>interval_ops\<close>
    and the locale \<open>interval_laws\<close>, with sorted lists of intervals as an implementation (\<open>ivl\<close>).
  \<^item> \<open>Huge\<close>, \<open>Huge_Inv\<close>, \<open>Huge_Ops\<close>, \<open>Huge_Spec\<close> (\<open>huge.rs\<close>): claims, descriptors, hazards, allocation, free, reuse; the
    ranges in use are disjoint and every address leads back to its own descriptor.
  \<^item> \<open>Allocator\<close>, \<open>Allocator_Inv\<close>, \<open>Allocator_Ops\<close>, \<open>Allocator_Spec\<close> (\<open>allocator.rs\<close>): the whole interface over the three heaps,
    the composition of their invariants (descriptors of huge allocations are small blocks no client holds), and
    the promises to clients: no two blocks overlap, frees from any thread return, sizes are recovered from the
    address, reallocation keeps the contents.
  \<^item> \<open>Decimal\<close>: numbers as text, for names of segments and device attributes.
  \<^item> \<open>Backing\<close> (\<open>extern/shm\<close>): backends, mappings and errors over the address space of a process; \<open>Region\<close>, \<open>Region_Inv\<close>,
    \<open>Region_Spec\<close> (\<open>raw.rs\<close>, \<open>raw/region.rs\<close>, layouts and faults of \<open>heap.rs\<close>): names of regions are well formed and distinct,
    a created heap has the adjacent regions \<open>Allocator_Ops\<close> relies on, faults are resolved with named objects, and
    replace memory in use with anonymous memory or devices; the metadata structures are apart and are zeroed.
  \<^item> \<open>Process\<close>, \<open>Process_Spec\<close> (\<open>cxlalloc-static/src/lib.rs\<close>, \<open>cxlalloc-global/src/lib.rs\<close>): initialisation, thread-local allocators and
    the calls of C code, which refine the runs of \<open>Allocator_Spec\<close>: blocks never overlap, aligned requests are aligned as
    far as the regions are, offsets mean the same block in every process.
  \<^item> \<open>Cache\<close> (\<open>cache.rs\<close>): which bytes a flush writes back, and that it is fenced; \<open>Mcas\<close> (\<open>mcas.rs\<close>): the client of the
    near-memory compare-and-swap unit; \<open>Relative\<close> (\<open>box.rs\<close>): relative pointers; \<open>Crash\<close> (\<open>crash/src/lib.rs\<close>): when a crash point fires.
  \<^item> \<open>Arena\<close>, \<open>Arena_Spec\<close> (\<open>cxlalloc-preload/src/dax_arena.rs\<close>): first-fit allocation in a device; \<open>Preload\<close>, \<open>Preload_Spec\<close>
    (\<open>cxlalloc-preload/src/lib.rs\<close>, \<open>real.rs\<close>): the C interface, routing, the early allocator and the byte loops.

  \<^bold>\<open>Bounds and termination.\<close> Loops that follow links or search (\<open>walk_prev\<close>, \<open>trace_count\<close>, \<open>trace_list\<close>, \<open>claim_loop\<close>, \<open>alloc_loop\<close>,
  \<open>fit_loop\<close>) are partial functions whose value \<open>None\<close> is not returning; their callers turn it into the failure \<open>Diverges\<close>, so that every
  statement that an operation returns includes that its loops end: stacks and descriptor lists are acyclic by the
  invariants, a claim ends at the first run of free slots or with a panic, the allocation loop after one claim, the
  arena search after passing each extent once. The loops that fill a bitset, link the slabs of a batch and
  trim a prefix are total functions with termination proofs, and \<open>trace_n\<close> follows a given number of links, as the
  code does. Only the store loop of \<open>Mcas\<close> has fuel: undisturbed, two units are enough when the unit answers failed
  attempts with zero or the value of the cell, and no amount is when it keeps answering with another value. A heap
  operation fails only when the 32-bit slab indices are used up, or in a validating build at the length that
  removing a slab from the middle of a sized stack leaves behind (\<open>Pool\<close>); these are the only exceptions in the
  statements about it.

  \<^bold>\<open>Parameters.\<close> The kernel (record \<open>kernel\<close> with \<open>kernel_ok\<close>: the documented effect of \<open>mmap\<close>, \<open>munmap\<close>, \<open>shm_open\<close> and
  \<open>ftruncate\<close>), libc and the environment of the preload library, the interval sets, the mCAS unit, and the sizes and
  alignments of compiled structures. Each hypothesis about them is satisfied by a concrete instance in a witness.

  \<^bold>\<open>Limits of the statements.\<close> The runs of \<open>Allocator_Spec\<close> and \<open>Process_Spec\<close> are sequences of whole calls by threads that have
  their allocators, on a heap of zeroed memory, while the slab heaps stay inside their regions of a terabyte, which
  the code does not check. Mapping a huge allocation is taken to succeed there. Recovery is shown for the crash
  points named in \<open>Recover\<close>, not for every interleaving.

  \<^bold>\<open>Not modelled.\<close> Weak memory: atomics are sequentially consistent, and a flush has no effect on the state. Opening and
  mapping the device files of the mCAS unit, its kernel module and its hardware description. The process barrier
  of \<open>extern/shm\<close>, a wrapper of the one of libc. The benchmark, test and recovery drivers (\<open>cxlalloc-bench\<close>, \<open>cxlalloc-test\<close>,
  \<open>cxlalloc-recover\<close>, \<open>cxlalloc/src/crash.rs\<close>), plotting scripts, and the vendored \<open>extern/memento\<close>, which are clients of the
  allocator. Logging, debug printers and the serialisation of reports, library calls without effect on the state.
\<close>

end
